(* ===== verification/Prelude.thy ===== *)
theory Prelude
  imports Main "HOL-Library.Word"
begin

text \<open>
  What every component shares: the machine types of the C++ code, the faults that stop it, the
  result type of an operation that may stop with a fault, and list lemmas on the windows of a
  byte array.

  \<^item> \<open>size_t\<close> and the fixed-width integers are words of their width. A signed integer is kept as
    the word that holds it and read with \<open>sint\<close> where the code compares or divides it.
  \<^item> \<open>fault\<close> lists the ways the code stops: a failed \<^verbatim>\<open>assert\<close>, a \<^verbatim>\<open>LOG_FATAL\<close> or
    \<^verbatim>\<open>LOG_SYSFATAL\<close> (both abort the process), an exception of the standard library, the call of
    an empty \<^verbatim>\<open>boost::function\<close>, a control path that leaves a value-returning function without
    a \<^verbatim>\<open>return\<close>, and the use of an object the heap of the model does not hold.
  \<^item> \<open>'a res\<close> is the result of an operation; \<open>bindr\<close> runs the rest of a function only when the
    call before it returned, and \<open>assertr\<close> is the \<^verbatim>\<open>assert\<close> macro in a build without
    \<^verbatim>\<open>NDEBUG\<close> (the Debug and the Release target of net_test.cbp both leave it undefined).
\<close>

section \<open>Machine types\<close>

type_synonym byte = "8 word"
type_synonym size_t = "64 word"
type_synonym int16 = "16 word"
type_synonym int32 = "32 word"
type_synonym int64 = "64 word"

text \<open>\<^verbatim>\<open>boost::any\<close>: empty, or a value the program does not look into.\<close>

type_synonym any = "nat option"

section \<open>Faults and results\<close>

datatype fault =
    AssertFailed string     \<comment> \<open>the text of the assertion\<close>
  | Fatal string            \<comment> \<open>LOG_FATAL, LOG_SYSFATAL, abort()\<close>
  | LengthError             \<comment> \<open>std::length_error of vector::resize\<close>
  | BadFunctionCall string  \<comment> \<open>call of an empty boost::function\<close>
  | MissingReturn string    \<comment> \<open>flow off the end of a function that returns a value\<close>
  | DanglingPointer string  \<comment> \<open>access to an object that does not exist\<close>
  | SelfDeadlock string     \<comment> \<open>a thread waits for itself\<close>
  | BadAlloc                \<comment> \<open>std::bad_alloc of new\<close>

type_synonym 'a res = "fault + 'a"

definition bindr :: "'a res \<Rightarrow> ('a \<Rightarrow> 'b res) \<Rightarrow> 'b res" where
  "bindr m f = (case m of Inl e \<Rightarrow> Inl e | Inr x \<Rightarrow> f x)"

definition assertr :: "bool \<Rightarrow> string \<Rightarrow> 'a res \<Rightarrow> 'a res" where
  "assertr P msg k = (if P then k else Inl (AssertFailed msg))"

fun foldr_res :: "('a \<Rightarrow> 's \<Rightarrow> 's res) \<Rightarrow> 'a list \<Rightarrow> 's \<Rightarrow> 's res" where
  "foldr_res f [] s = Inr s"
| "foldr_res f (x # xs) s = bindr (f x s) (foldr_res f xs)"

lemma bindr_Inr [simp]: "bindr (Inr x) f = f x"
  by (simp add: bindr_def)

lemma bindr_Inl [simp]: "bindr (Inl e) f = Inl e"
  by (simp add: bindr_def)

lemma bindr_eq_Inr_iff [simp]: "bindr m f = Inr y \<longleftrightarrow> (\<exists>x. m = Inr x \<and> f x = Inr y)"
  by (cases m) auto

lemma bindr_eq_Inl_iff: "bindr m f = Inl e \<longleftrightarrow> m = Inl e \<or> (\<exists>x. m = Inr x \<and> f x = Inl e)"
  by (cases m) auto

lemma bindr_assoc: "bindr (bindr m f) g = bindr m (\<lambda>x. bindr (f x) g)"
  by (cases m) simp_all

lemma bindr_Inr_right [simp]: "bindr m Inr = m"
  by (cases m) simp_all

lemma foldr_res_Nil_Inr [simp]: "foldr_res f [] = Inr"
  by (rule ext) simp

lemma assertr_True [simp]: "assertr True msg k = k"
  by (simp add: assertr_def)

lemma assertr_False [simp]: "assertr False msg k = Inl (AssertFailed msg)"
  by (simp add: assertr_def)

lemma assertr_holds [simp]: "P \<Longrightarrow> assertr P msg k = k"
  by (simp add: assertr_def)

lemma assertr_eq_Inr_iff [simp]: "assertr P msg k = Inr y \<longleftrightarrow> P \<and> k = Inr y"
  by (simp add: assertr_def)

lemma assertr_cong [cong]: "P = Q \<Longrightarrow> (Q \<Longrightarrow> k = l) \<Longrightarrow> assertr P msg k = assertr Q msg l"
  by (simp add: assertr_def)

lemma foldr_res_append:
  "foldr_res f (xs @ ys) s = bindr (foldr_res f xs s) (foldr_res f ys)"
proof (induction xs arbitrary: s)
  case Nil
  then show ?case by simp
next
  case (Cons x xs)
  then show ?case by (cases "f x s") simp_all
qed

text \<open>An invariant that every step keeps is kept by the loop.\<close>

lemma foldr_res_invariant:
  assumes "\<And>x s s'. x \<in> set xs \<Longrightarrow> P s \<Longrightarrow> f x s = Inr s' \<Longrightarrow> P s'"
    and "P s" and "foldr_res f xs s = Inr s'"
  shows "P s'"
  using assms
proof (induction xs arbitrary: s)
  case Nil
  then show ?case by simp
next
  case (Cons x xs)
  from Cons.prems(3) obtain t where "f x s = Inr t" and rest: "foldr_res f xs t = Inr s'"
    by auto
  with Cons.prems(2) have "P t" by (auto intro: Cons.prems(1) [of x])
  then show ?case using Cons.prems(1) rest by (auto intro: Cons.IH)
qed

text \<open>A loop whose every step succeeds in the states of an invariant succeeds.\<close>

lemma foldr_res_total:
  assumes "\<And>x s. x \<in> set xs \<Longrightarrow> P s \<Longrightarrow> \<exists>s'. f x s = Inr s' \<and> P s'" and "P s"
  shows "\<exists>s'. foldr_res f xs s = Inr s' \<and> P s'"
  using assms
proof (induction xs arbitrary: s)
  case Nil
  then show ?case by simp
next
  case (Cons x xs)
  from Cons.prems obtain t where t: "f x s = Inr t" "P t" by fastforce
  with Cons.prems(1) obtain s' where "foldr_res f xs t = Inr s'" "P s'"
    using Cons.IH [of t] by auto
  with t show ?case by auto
qed

section \<open>Words read as natural numbers\<close>

named_theorems unat_simps \<open>reads comparisons and in-range arithmetic of words as those of nat\<close>

lemmas [unat_simps] = word_le_nat_alt word_less_nat_alt

lemma unat_byte_less: "unat (b :: byte) < 256"
  using unsigned_less [of b, where ?'a = nat] by simp

lemma unat_size_less [simp]: "unat (n :: size_t) < 18446744073709551616"
  using unsigned_less [of n, where ?'a = nat] by simp

lemma unat_size_add [unat_simps]:
  "unat a + unat b < 18446744073709551616 \<Longrightarrow> unat (a + b :: size_t) = unat a + unat b"
  using unat_add_lem [of a b] by simp

lemma unat_size_sub [unat_simps]:
  "unat b \<le> unat a \<Longrightarrow> unat (a - b :: size_t) = unat a - unat b"
  by (rule unat_sub) (simp add: word_le_nat_alt)

lemma unat_size_of_nat [unat_simps]:
  "n < 18446744073709551616 \<Longrightarrow> unat (word_of_nat n :: size_t) = n"
  by (simp add: unat_of_nat)

section \<open>Windows of a byte array\<close>

text \<open>
  \<open>window r w xs\<close> is the part of an array from index \<open>r\<close> up to, not including, index \<open>w\<close>;
  \<open>splice xs i ys\<close> is the array after \<open>std::copy\<close> of \<open>ys\<close> to index \<open>i\<close>.
\<close>

definition window :: "nat \<Rightarrow> nat \<Rightarrow> 'a list \<Rightarrow> 'a list" where
  "window r w xs = take (w - r) (drop r xs)"

definition splice_at :: "'a list \<Rightarrow> nat \<Rightarrow> 'a list \<Rightarrow> 'a list" where
  "splice_at xs i ys = take i xs @ ys @ drop (i + length ys) xs"

lemma length_window [simp]: "w \<le> length xs \<Longrightarrow> length (window r w xs) = w - r"
  by (simp add: window_def)

lemma window_empty [simp]: "window r r xs = []"
  by (simp add: window_def)

lemma window_drop: "r \<le> k \<Longrightarrow> window k w xs = drop (k - r) (window r w xs)"
  by (simp add: window_def drop_take)

lemma window_take: "k \<le> w \<Longrightarrow> window r k xs = take (k - r) (window r w xs)"
  by (simp add: window_def min_def) 

lemma window_append: "r \<le> k \<Longrightarrow> k \<le> w \<Longrightarrow> window r w xs = window r k xs @ window k w xs"
  by (simp add: window_drop [of r k w] window_take [of k w r])

lemma window_append_left [simp]: "w \<le> length xs \<Longrightarrow> window r w (xs @ ys) = window r w xs"
  by (simp add: window_def)

lemma length_splice_at [simp]:
  "i + length ys \<le> length xs \<Longrightarrow> length (splice_at xs i ys) = length xs"
  by (simp add: splice_at_def)

lemma window_splice_same [simp]:
  "i + length ys \<le> length xs \<Longrightarrow> window i (i + length ys) (splice_at xs i ys) = ys"
  by (simp add: window_def splice_at_def)

lemma window_splice_before:
  "w \<le> i \<Longrightarrow> i + length ys \<le> length xs \<Longrightarrow> window r w (splice_at xs i ys) = window r w xs"
  by (cases "r \<le> w") (simp_all add: window_def splice_at_def take_drop min_def)

lemma window_splice_after:
  "i + length ys \<le> r \<Longrightarrow> i + length ys \<le> length xs \<Longrightarrow>
   window r w (splice_at xs i ys) = window r w xs"
  by (simp add: window_def splice_at_def min_def)

end
