(* ===== verification/Format.thy ===== *)
theory Format
  imports Prelude
begin

text \<open>
  The decimal conversions of \<^verbatim>\<open>snprintf\<close> that the code uses (\<^verbatim>\<open>%d\<close>, \<^verbatim>\<open>%4d\<close>, \<^verbatim>\<open>%02d\<close>, \<^verbatim>\<open>%06d\<close>,
  \<^verbatim>\<open>%5d\<close>, \<^verbatim>\<open>%u\<close>) and the truncation to the size of the destination. \<open>value_of\<close> reads a
  digit string back; with it the conversions are shown injective.
\<close>

definition digit :: "nat \<Rightarrow> char" where
  "digit n = char_of (48 + n)"

fun digits :: "nat \<Rightarrow> string" where
  "digits n = (if n < 10 then [digit n] else digits (n div 10) @ [digit (n mod 10)])"

declare digits.simps [simp del]

definition pad :: "char \<Rightarrow> nat \<Rightarrow> string \<Rightarrow> string" where
  "pad c w s = replicate (w - length s) c @ s"

text \<open>\<^verbatim>\<open>%d\<close>\<close>

definition dec :: "int \<Rightarrow> string" where
  "dec i = (if i < 0 then CHR ''-'' # digits (nat (- i)) else digits (nat i))"

text \<open>\<^verbatim>\<open>%wd\<close>: blanks in front\<close>

definition dec_blank :: "nat \<Rightarrow> int \<Rightarrow> string" where
  "dec_blank w i = pad (CHR '' '') w (dec i)"

text \<open>\<^verbatim>\<open>%0wd\<close>: zeros between the sign and the digits\<close>

definition dec_zero :: "nat \<Rightarrow> int \<Rightarrow> string" where
  "dec_zero w i =
     (if i < 0 then CHR ''-'' # pad (CHR ''0'') (w - 1) (digits (nat (- i)))
      else pad (CHR ''0'') w (digits (nat i)))"

text \<open>\<^verbatim>\<open>snprintf\<close> into a buffer of the given size keeps all but the last byte of it.\<close>

definition snprintf :: "nat \<Rightarrow> string \<Rightarrow> string" where
  "snprintf n s = take (n - 1) s"

definition digit_value :: "char \<Rightarrow> nat" where
  "digit_value c = of_char c - 48"

definition value_of :: "string \<Rightarrow> nat" where
  "value_of s = foldl (\<lambda>v c. 10 * v + digit_value c) 0 s"

definition is_digit :: "char \<Rightarrow> bool" where
  "is_digit c \<longleftrightarrow> 48 \<le> (of_char c :: nat) \<and> (of_char c :: nat) < 58"

section \<open>Reading digits back\<close>

lemma digit_value_digit [simp]: "n < 10 \<Longrightarrow> digit_value (digit n) = n"
  by (simp add: digit_value_def digit_def)

lemma is_digit_digit [simp]: "n < 10 \<Longrightarrow> is_digit (digit n)"
  by (simp add: is_digit_def digit_def)

lemma digits_not_Nil [simp]: "digits n \<noteq> []"
  by (subst digits.simps) simp

lemma value_of_snoc [simp]: "value_of (s @ [c]) = 10 * value_of s + digit_value c"
  by (simp add: value_of_def)

lemma value_of_digits [simp]: "value_of (digits n) = n"
proof (induction n rule: digits.induct)
  case (1 n)
  show ?case
  proof (cases "n < 10")
    case True
    then show ?thesis by (simp add: digits.simps [of n] value_of_def)
  next
    case False
    with 1 show ?thesis by (simp add: digits.simps [of n])
  qed
qed

lemma list_all_is_digit_digits: "list_all is_digit (digits n)"
proof (induction n rule: digits.induct)
  case (1 n)
  then show ?case by (cases "n < 10") (simp_all add: digits.simps [of n])
qed

lemma digits_inject [simp]: "digits m = digits n \<longleftrightarrow> m = n"
  by (metis value_of_digits)

lemma hd_digits_not_minus: "hd (digits n) \<noteq> CHR ''-''"
proof -
  have "is_digit (hd (digits n))"
    using list_all_is_digit_digits [of n] by (cases "digits n") simp_all
  then show ?thesis by (auto simp: is_digit_def)
qed

lemma dec_inject [simp]: "dec i = dec j \<longleftrightarrow> i = j"
proof -
  have "CHR ''-'' # s \<noteq> digits n" for s n
    using hd_digits_not_minus [of n] by (metis list.sel(1))
  then show ?thesis by (auto simp: dec_def) (metis+)
qed

lemma length_digits_le: "0 < w \<Longrightarrow> n < 10 ^ w \<Longrightarrow> length (digits n) \<le> w"
proof (induction n arbitrary: w rule: digits.induct)
  case (1 n)
  show ?case
  proof (cases "n < 10")
    case True
    with "1.prems" show ?thesis by (simp add: digits.simps [of n])
  next
    case False
    with "1.prems" obtain v where w: "w = Suc v" "0 < v"
      by (cases w; cases "w - 1") auto
    with "1.prems" have "n div 10 < 10 ^ v" by (simp add: less_mult_imp_div_less mult.commute)
    with False w "1.IH" [of v] show ?thesis by (simp add: digits.simps [of n])
  qed
qed

lemma value_of_pad_zero [simp]: "value_of (pad (CHR ''0'') w s) = value_of s"
proof -
  have "foldl (\<lambda>v c. 10 * v + digit_value c) 0 (replicate k (CHR ''0'') @ s) = value_of s" for k
    by (induction k) (simp_all add: value_of_def digit_value_def)
  then show ?thesis by (simp add: pad_def value_of_def)
qed

lemma length_pad: "length s \<le> w \<Longrightarrow> length (pad c w s) = w"
  by (simp add: pad_def)

lemma snprintf_fits [simp]: "length s < n \<Longrightarrow> snprintf n s = s"
  by (simp add: snprintf_def)

end
