(* ===== verification/Date.thy ===== *)
theory Date
  imports Format "HOL-Library.Signed_Division"
begin

text \<open>
  The class \<^verbatim>\<open>Date\<close> (include/Date.h, src/Date.cpp): a calendar date kept as its Julian day number.

  The conversions divide with C's \<^verbatim>\<open>/\<close>, which truncates: \<open>sdiv\<close>; \<^verbatim>\<open>%\<close> is \<open>smod\<close>. Integers are
  \<open>int\<close>; the theorems keep to the day numbers up to 536838867 (the year 1460000), where the
  largest intermediate value, \<^verbatim>\<open>4 * a + 3\<close>, is below \<open>2 ^ 31\<close> and no 32-bit result wraps.
  The two conversions are shown inverse to each other: on every day number from 4800 BC on, and
  on every date of the proleptic Gregorian calendar from the following year on.
\<close>

section \<open>State and operations\<close>

record YearMonthDay =
  year_of :: int
  month_of :: int
  day_of :: int

record date = M_julianDayNumber :: int

record tm =
  tm_year :: int
  tm_mon :: int
  tm_mday :: int
  tm_hour :: int
  tm_min :: int
  tm_sec :: int

definition kDaysPerWeek :: int where "kDaysPerWeek = 7"

definition getJulianDayNumber :: "int \<Rightarrow> int \<Rightarrow> int \<Rightarrow> int" where
  "getJulianDayNumber year month day =
     (let a = (14 - month) sdiv 12;
          y = year + 4800 - a;
          m = month + 12 * a - 3
      in day + (153 * m + 2) sdiv 5 + y * 365 + y sdiv 4 - y sdiv 100 + y sdiv 400 - 32045)"

definition getYearMonthDay :: "int \<Rightarrow> YearMonthDay" where
  "getYearMonthDay julianDayNumber =
     (let a = julianDayNumber + 32044;
          b = (4 * a + 3) sdiv 146097;
          c = a - (b * 146097) sdiv 4;
          d = (4 * c + 3) sdiv 1461;
          e = c - (1461 * d) sdiv 4;
          m = (5 * e + 2) sdiv 153
      in \<lparr>year_of = b * 100 + d - 4800 + m sdiv 10,
          month_of = m + 3 - 12 * (m sdiv 10),
          day_of = e - (153 * m + 2) sdiv 5 + 1\<rparr>)"

definition kJulianDayof1970_01_01 :: int where
  "kJulianDayof1970_01_01 = getJulianDayNumber 1970 1 1"

definition Date_invalid :: date where "Date_invalid = \<lparr>M_julianDayNumber = 0\<rparr>"

definition Date_ymd :: "int \<Rightarrow> int \<Rightarrow> int \<Rightarrow> date" where
  "Date_ymd y m d = \<lparr>M_julianDayNumber = getJulianDayNumber y m d\<rparr>"

definition Date_julian :: "int \<Rightarrow> date" where
  "Date_julian julianDayNum = \<lparr>M_julianDayNumber = julianDayNum\<rparr>"

definition Date_tm :: "tm \<Rightarrow> date" where
  "Date_tm t = \<lparr>M_julianDayNumber = getJulianDayNumber (tm_year t + 1900) (tm_mon t + 1) (tm_mday t)\<rparr>"

definition swap_date :: "date \<Rightarrow> date \<Rightarrow> date \<times> date" where
  "swap_date this that = (that, this)"

definition valid_date :: "date \<Rightarrow> bool" where
  "valid_date d \<longleftrightarrow> M_julianDayNumber d > 0"

definition yearMonthDay :: "date \<Rightarrow> YearMonthDay" where
  "yearMonthDay d = getYearMonthDay (M_julianDayNumber d)"

definition toIsoString :: "date \<Rightarrow> string" where
  "toIsoString d =
     (let ymd = yearMonthDay d in
      snprintf 32 (dec_blank 4 (year_of ymd) @ ''-'' @ dec_zero 2 (month_of ymd) @ ''-'' @
        dec_zero 2 (day_of ymd)))"

definition year :: "date \<Rightarrow> int" where "year d = year_of (yearMonthDay d)"

definition month :: "date \<Rightarrow> int" where "month d = month_of (yearMonthDay d)"

definition day :: "date \<Rightarrow> int" where "day d = day_of (yearMonthDay d)"

definition weekDay :: "date \<Rightarrow> int" where
  "weekDay d = (M_julianDayNumber d + 1) smod kDaysPerWeek"

definition julianDayNumber :: "date \<Rightarrow> int" where "julianDayNumber d = M_julianDayNumber d"

definition date_less :: "date \<Rightarrow> date \<Rightarrow> bool" where
  "date_less x y \<longleftrightarrow> julianDayNumber x < julianDayNumber y"

definition date_equal :: "date \<Rightarrow> date \<Rightarrow> bool" where
  "date_equal x y \<longleftrightarrow> julianDayNumber x = julianDayNumber y"

section \<open>The calendar\<close>

definition leap_year :: "int \<Rightarrow> bool" where
  "leap_year y \<longleftrightarrow> y mod 4 = 0 \<and> (y mod 100 \<noteq> 0 \<or> y mod 400 = 0)"

definition month_length :: "int \<Rightarrow> int \<Rightarrow> int" where
  "month_length y m =
     (if m = 2 then (if leap_year y then 29 else 28)
      else if m \<in> {4, 6, 9, 11} then 30 else 31)"

definition calendar_date :: "int \<Rightarrow> int \<Rightarrow> int \<Rightarrow> bool" where
  "calendar_date y m d \<longleftrightarrow> 1 \<le> m \<and> m \<le> 12 \<and> 1 \<le> d \<and> d \<le> month_length y m"

section \<open>Division lemmas\<close>

lemma sdiv_nonneg [simp]: "0 \<le> a \<Longrightarrow> 0 < b \<Longrightarrow> a sdiv b = a div (b :: int)"
  by (auto simp: signed_divide_int_def sgn_if)

lemma div_unique_range: "n * x \<le> v \<Longrightarrow> v < n * x + n \<Longrightarrow> 0 < n \<Longrightarrow> v div n = (x :: int)"
  by (rule int_div_pos_eq [of v n x "v - n * x"]) auto

text \<open>
  The step of a cycle of length \<open>n = 4 q + 1\<close> quarter-days: position \<open>x\<close> starts at \<open>n x div 4\<close>,
  and \<open>r\<close> days later the position is still \<open>x\<close> when \<open>r\<close> is below the length of the step.
\<close>

lemma cycle_start:
  assumes "n = 4 * q + 1"
  shows "(n * x) div 4 = q * x + x div (4 :: int)"
proof -
  have "n * x = x + 4 * (q * x)" by (simp add: assms algebra_simps)
  then show ?thesis by simp
qed

lemma cycle_position:
  fixes x r q :: int
  assumes n: "n = 4 * q + 1" and q: "0 < q" and r: "0 \<le> r"
    and len: "r < q \<or> r = q \<and> x mod 4 = 3"
  shows "(4 * ((n * x) div 4 + r) + 3) div n = x"
proof (rule div_unique_range)
  have s: "4 * ((n * x) div 4) = n * x - x mod 4"
  proof -
    have "x = 4 * (x div 4) + x mod 4" by simp
    then show ?thesis unfolding cycle_start [OF n] by (simp add: n algebra_simps)
  qed
  have x4: "0 \<le> x mod 4" "x mod 4 < 4" by simp_all
  define k j p where "k = (n * x) div 4" and "j = x mod 4" and "p = n * x"
  note facts = s [folded k_def j_def p_def] x4 [folded j_def] r len [folded j_def] n
  have "p \<le> 4 * (k + r) + 3" using facts(1-4) by presburger
  moreover have "4 * (k + r) + 3 < p + n" using facts(1-3,5,6) by presburger
  ultimately show "n * x \<le> 4 * ((n * x) div 4 + r) + 3" and "4 * ((n * x) div 4 + r) + 3 < n * x + n"
    by (simp_all add: k_def p_def)
  show "0 < n" using n q by simp
qed

text \<open>
  Conversely, the days since the start of the position are below the length of the step, and the
  additional day occurs only at every fourth position.
\<close>

lemma cycle_remainder:
  fixes a n q :: int
  assumes n: "n = 4 * q + 1" and q: "0 < q"
  defines "x \<equiv> (4 * a + 3) div n"
  defines "r \<equiv> a - (n * x) div 4"
  shows "0 \<le> r" "r \<le> q" "r = q \<longrightarrow> x mod 4 = 3"
proof -
  have n0: "0 < n" using n q by simp
  define k j p where "k = (n * x) div 4" and "j = x mod 4" and "p = n * x"
  have "4 * ((n * x) div 4) = n * x - x mod 4"
  proof -
    have "x = 4 * (x div 4) + x mod 4" by simp
    then show ?thesis unfolding cycle_start [OF n] by (simp add: n algebra_simps)
  qed
  then have s: "4 * k = p - j" by (simp add: k_def j_def p_def)
  have j: "0 \<le> j" "j < 4" by (simp_all add: j_def)
  have lo: "p \<le> 4 * a + 3" and hi: "4 * a + 3 < p + n"
    using n0 pos_mod_sign [of n "4 * a + 3"] pos_mod_bound [of n "4 * a + 3"]
      mult_div_mod_eq [of n "4 * a + 3"] unfolding x_def p_def by linarith+
  have r: "r = a - k" by (simp add: r_def k_def)
  show "0 \<le> r" "r \<le> q" "r = q \<longrightarrow> x mod 4 = 3"
    unfolding j_def [symmetric] r using s j lo hi n by presburger+
qed

text \<open>Days of whole years before year \<open>100 b + d\<close> of the March-based calendar.\<close>

lemma years_to_days:
  fixes b d :: int
  assumes "0 \<le> d" and "d < 100"
  defines "y \<equiv> 100 * b + d"
  shows "y * 365 + y div 4 - y div 100 + y div 400 = (146097 * b) div 4 + (1461 * d) div 4"
proof -
  have "y div 100 = b" using assms by (intro div_unique_range) simp_all
  moreover have "y div 4 = 25 * b + d div 4"
    using div_mult_self1 [of 4 d "25 * b"] by (simp add: y_def add.commute)
  moreover have "y div 400 = b div 4"
  proof -
    have "y div 400 = y div 100 div 4" using zdiv_zmult2_eq [of 4 y 100] by simp
    with calculation(1) show ?thesis by simp
  qed
  moreover define u v where "u = d div 4" and "v = b div 4"
  ultimately have "y * 365 + y div 4 - y div 100 + y div 400 =
      (100 * b + d) * 365 + (25 * b + u) - b + v"
    by (simp add: y_def)
  moreover have "(146097 * b) div 4 = 36524 * b + v" "(1461 * d) div 4 = 365 * d + u"
    unfolding u_def v_def by (rule cycle_start, simp)+
  ultimately show ?thesis by simp
qed

section \<open>Both conversions in closed form\<close>

text \<open>
  In March-based years: \<open>b\<close> centuries, \<open>d\<close> years of the century, month \<open>m\<close> from 0 (March) to 11
  (February) and \<open>e\<close> days since the first of March.
\<close>

definition civil_days :: "int \<Rightarrow> int \<Rightarrow> int \<Rightarrow> int" where
  "civil_days b d e = (146097 * b) div 4 + ((1461 * d) div 4 + e)"

lemma getYearMonthDay_civil:
  assumes b: "0 \<le> b" and d: "0 \<le> d" "d < 100" and e: "0 \<le> e"
    and elen: "e < 365 \<or> e = 365 \<and> d mod 4 = 3 \<and> (d = 99 \<longrightarrow> b mod 4 = 3)"
  shows "getYearMonthDay (civil_days b d e - 32044) =
    (let m = (5 * e + 2) div 153 in
     \<lparr>year_of = b * 100 + d - 4800 + m div 10, month_of = m + 3 - 12 * (m div 10),
      day_of = e - (153 * m + 2) div 5 + 1\<rparr>)"
proof -
  let ?c = "(1461 * d) div 4 + e" and ?a = "civil_days b d e"
  have c0: "0 \<le> ?c" using d e by simp
  have c1: "?c < 36524 \<or> ?c = 36524 \<and> b mod 4 = 3"
  proof (cases "d = 99")
    case True
    with elen show ?thesis by auto
  next
    case False
    with d have "(1461 * d) div 4 \<le> (1461 * 98) div 4" by (intro zdiv_mono1) simp_all
    with elen show ?thesis by auto
  qed
  have bb: "(4 * ?a + 3) div 146097 = b"
    unfolding civil_days_def by (rule cycle_position [where q = 36524]) (use c0 c1 in simp_all)
  have dd: "(4 * ?c + 3) div 1461 = d"
    by (rule cycle_position [where q = 365]) (use e elen in auto)
  have a0: "0 \<le> ?a" using c0 b by (simp add: civil_days_def)
  have m0: "0 \<le> (5 * e + 2) div 153" using e by simp
  have s1: "(4 * ?a + 3) sdiv 146097 = b" using a0 bb by simp
  have s2: "?a - (b * 146097) sdiv 4 = ?c" using b by (simp add: civil_days_def mult.commute)
  have s3: "(4 * ?c + 3) sdiv 1461 = d" using c0 dd by simp
  have s4: "?c - (1461 * d) sdiv 4 = e" using d by simp
  have s5: "(5 * e + 2) sdiv 153 = (5 * e + 2) div 153" using e by simp
  show ?thesis
    unfolding getYearMonthDay_def Let_def diff_add_cancel s1 s2 s3 s4 s5
    using m0 by simp
qed

lemma getJulianDayNumber_civil:
  assumes Y: "y + 4800 - of_bool (m \<le> 2) = 100 * b + d" and b: "0 \<le> b" and d: "0 \<le> d" "d < 100"
    and m: "1 \<le> m" "m \<le> 12"
  shows "getJulianDayNumber y m k =
    civil_days b d (k - 1 + (153 * (m + 12 * of_bool (m \<le> 2) - 3) + 2) div 5) - 32044"
proof -
  let ?a = "of_bool (m \<le> 2) :: int"
  have a: "(14 - m) sdiv 12 = ?a"
    using m by (cases "m \<le> 2") (auto intro: div_unique_range)
  have y0: "0 \<le> 100 * b + d" using b d by simp
  have m0: "0 \<le> 153 * (m + 12 * ?a - 3) + 2" using m by simp
  show ?thesis
    unfolding getJulianDayNumber_def Let_def a Y
    using y0 m0 years_to_days [OF d, of b] by (simp add: civil_days_def)
qed

section \<open>The months of the March-based year\<close>

lemma month_index_cases:
  fixes m :: int
  assumes "1 \<le> m" "m \<le> 12"
  obtains "m = 1" | "m = 2" | "m = 3" | "m = 4" | "m = 5" | "m = 6" | "m = 7" | "m = 8" | "m = 9"
    | "m = 10" | "m = 11" | "m = 12"
  using assms by atomize_elim presburger

lemma int_div_eqI: "n * x \<le> v \<Longrightarrow> v < n * (x + 1) \<Longrightarrow> 0 < n \<Longrightarrow> v div n = (x :: int)"
  by (rule div_unique_range) (simp_all add: algebra_simps)

lemma month_roundtrip:
  assumes "calendar_date y m k"
  defines "i \<equiv> m + 12 * of_bool (m \<le> 2) - 3"
  defines "e \<equiv> k - 1 + (153 * i + 2) div 5"
  shows "(5 * e + 2) div 153 = i" "0 \<le> e" "e \<le> 365" "e = 365 \<longrightarrow> m = 2 \<and> k = 29"
    "i div 10 = of_bool (m \<le> 2)"
proof -
  from assms(1) have mk: "1 \<le> m" "m \<le> 12" "1 \<le> k" "k \<le> month_length y m"
    by (simp_all add: calendar_date_def)
  from mk(1,2) show "(5 * e + 2) div 153 = i"
    by (cases rule: month_index_cases)
      (use mk in \<open>auto simp: e_def i_def month_length_def intro!: int_div_eqI split: if_splits\<close>)
  from mk(1,2) show "0 \<le> e"
    by (cases rule: month_index_cases) (use mk in \<open>auto simp: e_def i_def\<close>)
  from mk(1,2) show "e \<le> 365"
    by (cases rule: month_index_cases)
      (use mk in \<open>auto simp: e_def i_def month_length_def split: if_splits\<close>)
  from mk(1,2) show "e = 365 \<longrightarrow> m = 2 \<and> k = 29"
    by (cases rule: month_index_cases)
      (use mk in \<open>auto simp: e_def i_def month_length_def split: if_splits\<close>)
  from mk(1,2) show "i div 10 = of_bool (m \<le> 2)"
    by (cases rule: month_index_cases) (auto simp: i_def)
qed

text \<open>The last day of a leap year's February falls where the March-based year has a 366th day.\<close>

lemma leap_day_position:
  fixes b d :: int
  assumes "leap_year y" and "y + 4799 = 100 * b + d" and "0 \<le> d" and "d < 100"
  shows "d mod 4 = 3 \<and> (d = 99 \<longrightarrow> b mod 4 = 3)"
proof -
  from assms(1) have y4: "y mod 4 = 0" and y100: "y mod 100 \<noteq> 0 \<or> y mod 400 = 0"
    by (simp_all add: leap_year_def)
  have "d mod 4 = 3" using y4 assms(2) by presburger
  moreover have "b mod 4 = 3" if "d = 99"
  proof -
    have "y = 100 * (b - 47)" using assms(2) that by simp
    moreover from this have "y mod 400 = 0" using y100 by simp
    ultimately have "(b - 47) mod 4 = 0" by presburger
    then show ?thesis by presburger
  qed
  ultimately show ?thesis by simp
qed

section \<open>Properties\<close>

text \<open>Every calendar date from the year -4799 to the year 1460000 (no 32-bit overflow) is returned unchanged: the year, month and day
  of the Julian day number computed for it are the given ones.\<close>

theorem ymd_roundtrip:
  assumes "calendar_date y m k" and "-4799 \<le> y" and "y \<le> 1460000"
  shows "yearMonthDay (Date_ymd y m k) = \<lparr>year_of = y, month_of = m, day_of = k\<rparr>"
proof -
  let ?f = "of_bool (m \<le> 2) :: int"
  define b d where "b = (y + 4800 - ?f) div 100" and "d = (y + 4800 - ?f) mod 100"
  have Y: "y + 4800 - ?f = 100 * b + d" and d: "0 \<le> d" "d < 100"
    by (simp_all add: b_def d_def)
  have b: "0 \<le> b" using assms(2) by (auto simp: b_def pos_imp_zdiv_nonneg_iff)
  have m: "1 \<le> m" "m \<le> 12" using assms(1) by (simp_all add: calendar_date_def)
  define i e where "i = m + 12 * ?f - 3" and "e = k - 1 + (153 * i + 2) div 5"
  note r = month_roundtrip [OF assms(1), folded i_def, folded e_def]
  have leap: "e < 365 \<or> e = 365 \<and> d mod 4 = 3 \<and> (d = 99 \<longrightarrow> b mod 4 = 3)"
  proof (cases "e = 365")
    case True
    with r assms(1) have "m = 2" "leap_year y"
      by (auto simp: calendar_date_def month_length_def split: if_splits)
    with leap_day_position [of y b d] Y d True show ?thesis by simp
  next
    case False
    with r show ?thesis by simp
  qed
  have jd: "getJulianDayNumber y m k = civil_days b d e - 32044"
    using getJulianDayNumber_civil [OF Y b d m, of k] by (simp only: e_def i_def)
  have "yearMonthDay (Date_ymd y m k) =
      \<lparr>year_of = b * 100 + d - 4800 + ?f, month_of = i + 3 - 12 * ?f, day_of = e - (153 * i + 2) div 5 + 1\<rparr>"
    unfolding yearMonthDay_def Date_ymd_def date.simps jd getYearMonthDay_civil [OF b d r(2) leap]
      Let_def r(1,5) by (rule refl)
  also have "b * 100 + d - 4800 + ?f = y" using Y by simp
  also have "i + 3 - 12 * ?f = m" by (simp add: i_def)
  also have "e - (153 * i + 2) div 5 + 1 = k" by (simp add: e_def)
  finally show ?thesis .
qed

theorem ymd_roundtrip_witness:
  "yearMonthDay (Date_ymd 2000 2 29) = \<lparr>year_of = 2000, month_of = 2, day_of = 29\<rparr>"
  by (rule ymd_roundtrip) (simp_all add: calendar_date_def month_length_def leap_year_def)

lemma march_month:
  fixes e :: int
  assumes "0 \<le> e" and "e \<le> 365"
  defines "m \<equiv> (5 * e + 2) div 153"
  shows "0 \<le> m" "m \<le> 11"
proof -
  show "0 \<le> m" using assms by (simp add: m_def)
  have "m \<le> (5 * 365 + 2) div 153" unfolding m_def by (rule zdiv_mono1) (use assms in simp_all)
  then show "m \<le> 11" by simp
qed

text \<open>Day \<open>e\<close> of the March-based year is a date of the calendar.\<close>

lemma march_day_valid:
  fixes e y :: int
  assumes e: "0 \<le> e" "e \<le> 365" and leap: "e = 365 \<longrightarrow> leap_year (y + 1)"
  defines "m \<equiv> (5 * e + 2) div 153"
  shows "calendar_date (y + m div 10) (m + 3 - 12 * (m div 10)) (e - (153 * m + 2) div 5 + 1)"
proof -
  have m: "0 \<le> m" "m \<le> 11" using march_month [OF e] by (simp_all add: m_def)
  have lo: "153 * m \<le> 5 * e + 2" and hi: "5 * e + 2 < 153 * m + 153"
    using pos_mod_sign [of 153 "5 * e + 2"] pos_mod_bound [of 153 "5 * e + 2"]
      mult_div_mod_eq [of 153 "5 * e + 2"] unfolding m_def by linarith+
  from m have "m = 0 \<or> m = 1 \<or> m = 2 \<or> m = 3 \<or> m = 4 \<or> m = 5 \<or> m = 6 \<or> m = 7 \<or> m = 8 \<or> m = 9
      \<or> m = 10 \<or> m = 11" by presburger
  then show ?thesis
    using lo hi e leap
    by (elim disjE) (auto simp: calendar_date_def month_length_def)
qed

lemma leap_from_position:
  fixes b d :: int
  assumes "d mod 4 = 3" and "0 \<le> d" "d < 100" and "d = 99 \<longrightarrow> b mod 4 = 3"
  shows "leap_year (b * 100 + d - 4800 + 1)"
proof (cases "d = 99")
  case True
  then have "b * 100 + d - 4800 + 1 = 100 * (b - 47)" by simp
  moreover have "(b - 47) mod 4 = 0" using assms(4) True by presburger
  ultimately show ?thesis by (simp add: leap_year_def) presburger
next
  case False
  have y: "b * 100 + d - 4800 + 1 = d + 1 + (b - 48) * 100"
    "b * 100 + d - 4800 + 1 = d + 1 + (25 * b - 1200) * 4" by simp_all
  have "(d + 1) mod 4 = 0" using assms(1) by presburger
  then have "(b * 100 + d - 4800 + 1) mod 4 = 0" unfolding y(2) by (simp only: mod_mult_self1)
  moreover have "(b * 100 + d - 4800 + 1) mod 100 \<noteq> 0"
    unfolding y(1) mod_mult_self1 using False assms(2,3) by simp
  ultimately show ?thesis by (simp only: leap_year_def) blast
qed

text \<open>Every day number has a century, a year of the century and a day of the March-based year.\<close>

lemma civil_decomposition:
  assumes "-32044 \<le> j"
  obtains b d e where "j = civil_days b d e - 32044" "0 \<le> b" "0 \<le> d" "d < 100" "0 \<le> e" "e \<le> 365"
    "e < 365 \<or> e = 365 \<and> d mod 4 = 3 \<and> (d = 99 \<longrightarrow> b mod 4 = 3)"
proof -
  define a where "a = j + 32044"
  define b where "b = (4 * a + 3) div 146097"
  define c where "c = a - (146097 * b) div 4"
  define d where "d = (4 * c + 3) div 1461"
  define e where "e = c - (1461 * d) div 4"
  note c_facts = cycle_remainder [of 146097 36524 a, folded b_def, folded c_def]
  note e_facts = cycle_remainder [of 1461 365 c, folded d_def, folded e_def]
  have b0: "0 \<le> b" using assms by (simp add: a_def b_def)
  have c: "0 \<le> c" "c \<le> 36524" "c = 36524 \<longrightarrow> b mod 4 = 3" using c_facts by simp_all
  have d0: "0 \<le> d" using c by (simp add: d_def)
  have "d \<le> (4 * 36524 + 3) div 1461" unfolding d_def by (rule zdiv_mono1) (use c in simp_all)
  then have d1: "d < 100" by simp
  have e: "0 \<le> e" "e \<le> 365" "e = 365 \<longrightarrow> d mod 4 = 3" using e_facts by simp_all
  have leap: "e < 365 \<or> e = 365 \<and> d mod 4 = 3 \<and> (d = 99 \<longrightarrow> b mod 4 = 3)"
  proof (cases "e = 365")
    case True
    then have "d = 99 \<Longrightarrow> c = 36524" by (simp add: e_def)
    with True e c show ?thesis by auto
  qed (use e in simp)
  have "j = civil_days b d e - 32044" by (simp add: civil_days_def e_def c_def a_def)
  with b0 d0 d1 e leap that show ?thesis by blast
qed

text \<open>C19. From the year -4800 on and as far as no 32-bit product overflows, every day number is the Julian day number of the date it is
  converted to, and that date exists in the calendar.\<close>

theorem julian_roundtrip:
  assumes "-32044 \<le> j" and "j \<le> 536838867"
  shows "calendar_date (year_of (getYearMonthDay j)) (month_of (getYearMonthDay j)) (day_of (getYearMonthDay j)) \<and>
    getJulianDayNumber (year_of (getYearMonthDay j)) (month_of (getYearMonthDay j))
      (day_of (getYearMonthDay j)) = j"
proof -
  from civil_decomposition [OF assms(1)] obtain b d e where j: "j = civil_days b d e - 32044"
    and b: "0 \<le> b" and d: "0 \<le> d" "d < 100" and e: "0 \<le> e" "e \<le> 365"
    and leap: "e < 365 \<or> e = 365 \<and> d mod 4 = 3 \<and> (d = 99 \<longrightarrow> b mod 4 = 3)"
    by blast
  define m f where "m = (5 * e + 2) div 153" and "f = m div 10"
  have ymd: "getYearMonthDay j = \<lparr>year_of = b * 100 + d - 4800 + f,
      month_of = m + 3 - 12 * f, day_of = e - (153 * m + 2) div 5 + 1\<rparr>"
    unfolding j getYearMonthDay_civil [OF b d e(1) leap] Let_def m_def f_def by (rule refl)
  have "leap_year (b * 100 + d - 4800 + 1)" if "e = 365"
    using leap_from_position [of d b] d leap that by simp
  then have cal: "calendar_date (b * 100 + d - 4800 + f) (m + 3 - 12 * f)
      (e - (153 * m + 2) div 5 + 1)"
    unfolding m_def f_def by (intro march_day_valid e) simp
  have m: "0 \<le> m" "m \<le> 11" unfolding m_def by (rule march_month [OF e])+
  have f: "f = (if m \<le> 9 then 0 else 1)" unfolding f_def by (rule int_div_eqI) (use m in auto)
  have small: "of_bool (m + 3 - 12 * f \<le> 2) = f" using f m by auto
  have "1 \<le> m + 3 - 12 * f" "m + 3 - 12 * f \<le> 12" using f m by auto
  then have "getJulianDayNumber (b * 100 + d - 4800 + f) (m + 3 - 12 * f)
      (e - (153 * m + 2) div 5 + 1) = j"
    using getJulianDayNumber_civil [of "b * 100 + d - 4800 + f" "m + 3 - 12 * f" b d
        "e - (153 * m + 2) div 5 + 1"] b d unfolding small j by simp
  with cal show ?thesis unfolding ymd YearMonthDay.simps by blast
qed

theorem julian_roundtrip_witness:
  "calendar_date (year_of (getYearMonthDay 2440588)) (month_of (getYearMonthDay 2440588))
     (day_of (getYearMonthDay 2440588)) \<and>
   getJulianDayNumber (year_of (getYearMonthDay 2440588)) (month_of (getYearMonthDay 2440588))
     (day_of (getYearMonthDay 2440588)) = 2440588"
  by (rule julian_roundtrip) simp_all

end
