(* ===== verification/Timestamp.thy ===== *)
theory Timestamp
  imports Complex_Main Date "HOL-Library.Log_Nat"
begin

text \<open>
  The classes \<^verbatim>\<open>Timestamp\<close> (include/Timestamp.h, src/Timestamp.cpp), \<^verbatim>\<open>AtomicIntegerT\<close>
  (include/Atomic.h), \<^verbatim>\<open>Timer\<close> and \<^verbatim>\<open>TimerId\<close> (include/Timer.h, src/Timer.cpp, include/TimerId.h),
  and the conversion of an expiration to a \<^verbatim>\<open>timespec\<close> in src/TimerQueue.cpp.

  \<^item> A \<^verbatim>\<open>Timestamp\<close> holds an \<^verbatim>\<open>int64_t\<close>; every arithmetic result is wrapped to 64 bits by
    \<open>wrap64\<close>, as the hardware does. The order of the class is an instance of \<open>linorder\<close>.
  \<^item> A \<^verbatim>\<open>double\<close> is a rational number; \<open>fl\<close> rounds an exact result to 53 significant bits, ties
    to even. Infinities, NaN and subnormal numbers do not occur in the code's computations.
  \<^item> \<^verbatim>\<open>gettimeofday\<close> and \<^verbatim>\<open>gmtime_r\<close> are parameters.
\<close>

section \<open>double\<close>

type_synonym double = rat

text \<open>The exponent \<open>e\<close> with \<open>2^e \<le> x < 2^(e+1)\<close>.\<close>

definition exponent_of :: "double \<Rightarrow> int" where
  "exponent_of x =
     (let (p, q) = quotient_of x; e = bitlen p - bitlen q
      in if 2 powi e \<le> x then e else e - 1)"

definition round_half_even :: "double \<Rightarrow> int" where
  "round_half_even x =
     (let n = \<lfloor>x\<rfloor>; r = x - of_int n
      in if r < 1 / 2 then n else if r > 1 / 2 then n + 1 else if even n then n else n + 1)"

definition fl :: "double \<Rightarrow> double" where
  "fl x =
     (if x = 0 then 0
      else let u = 2 powi (exponent_of \<bar>x\<bar> - 52) in of_int (round_half_even (x / u)) * u)"

text \<open>\<^verbatim>\<open>static_cast<int64_t>\<close> of a double: towards zero.\<close>

definition truncate_double :: "double \<Rightarrow> int" where
  "truncate_double x = (if x < 0 then - \<lfloor>- x\<rfloor> else \<lfloor>x\<rfloor>)"

section \<open>Timestamps\<close>

definition wrap64 :: "int \<Rightarrow> int" where
  "wrap64 i = signed_take_bit 63 i"

datatype timestamp = Timestamp (microSecondsSinceEpoch: int)

definition kMicroSecondsPerSecond :: int where "kMicroSecondsPerSecond = 1000 * 1000"

definition timestamp_less :: "timestamp \<Rightarrow> timestamp \<Rightarrow> bool" where
  "timestamp_less lhs rhs \<longleftrightarrow> microSecondsSinceEpoch lhs < microSecondsSinceEpoch rhs"

text \<open>The order of the library on timestamps is this operator, as \<^verbatim>\<open>std::set\<close> uses it.\<close>

instantiation timestamp :: linorder
begin

definition less_timestamp :: "timestamp \<Rightarrow> timestamp \<Rightarrow> bool" where
  "less_timestamp lhs rhs \<longleftrightarrow> timestamp_less lhs rhs"

definition less_eq_timestamp :: "timestamp \<Rightarrow> timestamp \<Rightarrow> bool" where
  "less_eq_timestamp lhs rhs \<longleftrightarrow> \<not> timestamp_less rhs lhs"

instance
  by standard (auto simp: less_timestamp_def less_eq_timestamp_def timestamp_less_def timestamp.expand)

end

lemmas timestamp_order = less_timestamp_def less_eq_timestamp_def timestamp_less_def

definition timestamp_equal :: "timestamp \<Rightarrow> timestamp \<Rightarrow> bool" where
  "timestamp_equal lhs rhs \<longleftrightarrow> microSecondsSinceEpoch lhs = microSecondsSinceEpoch rhs"

definition invalid :: timestamp where "invalid = Timestamp 0"

definition swap_timestamp :: "timestamp \<Rightarrow> timestamp \<Rightarrow> timestamp \<times> timestamp" where
  "swap_timestamp this that = (that, this)"

definition valid :: "timestamp \<Rightarrow> bool" where
  "valid t \<longleftrightarrow> microSecondsSinceEpoch t > 0"

definition secondsSinceEpoch :: "timestamp \<Rightarrow> int" where
  "secondsSinceEpoch t = microSecondsSinceEpoch t sdiv kMicroSecondsPerSecond"

definition fromUnixTime :: "int \<Rightarrow> int \<Rightarrow> timestamp" where
  "fromUnixTime t microseconds = Timestamp (wrap64 (t * kMicroSecondsPerSecond + microseconds))"

text \<open>\<open>tv\<close> is the \<^verbatim>\<open>timeval\<close> that \<^verbatim>\<open>gettimeofday\<close> stores.\<close>

definition now :: "int \<times> int \<Rightarrow> timestamp" where
  "now tv = (let seconds = fst tv in
             Timestamp (wrap64 (seconds * kMicroSecondsPerSecond + snd tv)))"

definition toString :: "timestamp \<Rightarrow> string" where
  "toString t =
     (let seconds = microSecondsSinceEpoch t sdiv kMicroSecondsPerSecond;
          microseconds = microSecondsSinceEpoch t smod kMicroSecondsPerSecond
      in snprintf (32 - 1) (dec seconds @ ''.'' @ dec_zero 6 microseconds))"

definition toFormattedString :: "(int \<Rightarrow> tm) \<Rightarrow> bool \<Rightarrow> timestamp \<Rightarrow> string" where
  "toFormattedString gmtime_r showMicroseconds t =
     (let seconds = microSecondsSinceEpoch t sdiv kMicroSecondsPerSecond;
          tm_time = gmtime_r seconds;
          date_time = dec_blank 4 (tm_year tm_time + 1900) @ dec_zero 2 (tm_mon tm_time + 1) @
            dec_zero 2 (tm_mday tm_time) @ '' '' @ dec_zero 2 (tm_hour tm_time) @ '':'' @
            dec_zero 2 (tm_min tm_time) @ '':'' @ dec_zero 2 (tm_sec tm_time)
      in if showMicroseconds then
           let microseconds = microSecondsSinceEpoch t smod kMicroSecondsPerSecond
           in snprintf 32 (date_time @ ''.'' @ dec_zero 6 microseconds)
         else snprintf 32 date_time)"

definition timeDifference :: "timestamp \<Rightarrow> timestamp \<Rightarrow> double" where
  "timeDifference high low =
     (let diff = wrap64 (microSecondsSinceEpoch high - microSecondsSinceEpoch low)
      in fl (fl (of_int diff) / of_int kMicroSecondsPerSecond))"

definition addTime :: "timestamp \<Rightarrow> double \<Rightarrow> timestamp" where
  "addTime timestamp seconds =
     (let delta = wrap64 (truncate_double (fl (seconds * of_int kMicroSecondsPerSecond)))
      in Timestamp (wrap64 (microSecondsSinceEpoch timestamp + delta)))"

section \<open>Atomic integers\<close>

text \<open>
  Each operation is one atomic step on the value; the pair is its result and the new value. The
  type parameter of the template is the width.
\<close>

definition AtomicIntegerT :: "'n::len word" where "AtomicIntegerT = 0"

definition atomic_get :: "'n::len word \<Rightarrow> 'n word \<times> 'n word" where
  "atomic_get v = (v, if v = 0 then 0 else v)"

definition getAndAdd :: "'n::len word \<Rightarrow> 'n word \<Rightarrow> 'n word \<times> 'n word" where
  "getAndAdd x v = (v, v + x)"

definition addAndGet :: "'n::len word \<Rightarrow> 'n word \<Rightarrow> 'n word \<times> 'n word" where
  "addAndGet x v = (case getAndAdd x v of (old, v') \<Rightarrow> (old + x, v'))"

definition incrementAndGet :: "'n::len word \<Rightarrow> 'n word \<times> 'n word" where
  "incrementAndGet v = addAndGet 1 v"

definition decrementAndGet :: "'n::len word \<Rightarrow> 'n word \<times> 'n word" where
  "decrementAndGet v = addAndGet (-1) v"

definition atomic_add :: "'n::len word \<Rightarrow> 'n word \<Rightarrow> 'n word" where
  "atomic_add x v = snd (getAndAdd x v)"

definition increment :: "'n::len word \<Rightarrow> 'n word" where
  "increment v = snd (incrementAndGet v)"

definition decrement :: "'n::len word \<Rightarrow> 'n word" where
  "decrement v = snd (decrementAndGet v)"

definition getAndSet :: "'n::len word \<Rightarrow> 'n word \<Rightarrow> 'n word \<times> 'n word" where
  "getAndSet newValue v = (v, newValue)"

section \<open>Timers\<close>

record 'cb timer =
  M_callback :: 'cb
  M_expiration :: timestamp
  M_interval :: double
  M_repeat :: bool
  M_sequence :: int64

text \<open>The constructor draws the sequence number from the static counter \<open>s_numCreated\<close>.\<close>

definition new_Timer :: "'cb \<Rightarrow> timestamp \<Rightarrow> double \<Rightarrow> int64 \<Rightarrow> 'cb timer \<times> int64" where
  "new_Timer cb when interval s_numCreated =
     (case incrementAndGet s_numCreated of (seq, s_numCreated') \<Rightarrow>
       (\<lparr>M_callback = cb, M_expiration = when, M_interval = interval, M_repeat = (interval > 0),
         M_sequence = seq\<rparr>, s_numCreated'))"

definition restart :: "timestamp \<Rightarrow> 'cb timer \<Rightarrow> 'cb timer" where
  "restart tnow t =
     (if M_repeat t then t\<lparr>M_expiration := addTime tnow (M_interval t)\<rparr>
      else t\<lparr>M_expiration := invalid\<rparr>)"

record timer_id =
  TimerId_timer :: "nat option"
  TimerId_sequence :: int64

definition TimerId_none :: timer_id where
  "TimerId_none = \<lparr>TimerId_timer = None, TimerId_sequence = 0\<rparr>"

definition new_TimerId :: "nat \<Rightarrow> int64 \<Rightarrow> timer_id" where
  "new_TimerId timer seq = \<lparr>TimerId_timer = Some timer, TimerId_sequence = seq\<rparr>"

section \<open>Time until an expiration\<close>

text \<open>A \<^verbatim>\<open>timespec\<close> is the pair of its seconds and nanoseconds.\<close>

definition howMuchTimeFromNow :: "timestamp \<Rightarrow> timestamp \<Rightarrow> int \<times> int" where
  "howMuchTimeFromNow tnow when =
     (let d = wrap64 (microSecondsSinceEpoch when - microSecondsSinceEpoch tnow);
          microseconds = (if d < 100 then 100 else d)
      in (microseconds sdiv kMicroSecondsPerSecond,
          (microseconds smod kMicroSecondsPerSecond) * 1000))"

section \<open>Lemmas\<close>

lemma wrap64_id [simp]: "-9223372036854775808 \<le> i \<Longrightarrow> i < 9223372036854775808 \<Longrightarrow> wrap64 i = i"
  unfolding wrap64_def by (rule signed_take_bit_int_eq_self) simp_all

lemma wrap64_bounds: "-9223372036854775808 \<le> wrap64 i" "wrap64 i < 9223372036854775808"
  using signed_take_bit_int_greater_eq_minus_exp [of 63 i] signed_take_bit_int_less_exp [of 63 i]
  by (simp_all add: wrap64_def)

lemma kMicroSecondsPerSecond_eq [simp]: "kMicroSecondsPerSecond = 1000000"
  by (simp add: kMicroSecondsPerSecond_def)

lemma smod_nonneg [simp]: "0 \<le> a \<Longrightarrow> 0 < b \<Longrightarrow> a smod b = a mod (b :: int)"
  by (auto simp: signed_modulo_int_def sgn_if)

section \<open>Properties\<close>

text \<open>The \<^verbatim>\<open>timespec\<close> armed for an expiration is well formed (nanoseconds below a second), never
  zero, at least 100 microseconds, and exact whenever the expiration is at least 100
  microseconds ahead.\<close>

theorem howMuchTimeFromNow_wellformed:
  assumes "howMuchTimeFromNow tnow when = (s, ns)"
    and "\<bar>microSecondsSinceEpoch when - microSecondsSinceEpoch tnow\<bar> < 9223372036854775808"
  shows "0 \<le> s \<and> 0 \<le> ns \<and> ns < 1000000000 \<and>
    s * 1000000 + ns div 1000 = max 100 (microSecondsSinceEpoch when - microSecondsSinceEpoch tnow)"
proof -
  let ?d = "microSecondsSinceEpoch when - microSecondsSinceEpoch tnow"
  let ?m = "max 100 ?d"
  have m: "s = ?m div 1000000" "ns = (?m mod 1000000) * 1000"
    using assms by (auto simp: howMuchTimeFromNow_def Let_def max_def)
  have "0 \<le> ?m mod 1000000" "?m mod 1000000 < 1000000" by simp_all
  then show ?thesis unfolding m by simp
qed

theorem howMuchTimeFromNow_wellformed_witness:
  "0 \<le> (2::int) \<and> 0 \<le> (500000000::int) \<and> (500000000::int) < 1000000000 \<and>
   2 * 1000000 + 500000000 div 1000 =
     max 100 (microSecondsSinceEpoch (Timestamp 3500000) - microSecondsSinceEpoch (Timestamp 1000000))"
  by (rule howMuchTimeFromNow_wellformed) (simp_all add: howMuchTimeFromNow_def)

end
