(* ===== verification/Channel.thy ===== *)
theory Channel
  imports Timestamp
begin

text \<open>
  The class \<^verbatim>\<open>Channel\<close> (include/Channel.h, src/Channel.cpp): the registration of one file
  descriptor with an event loop, and the dispatch of the events the poller reported to the
  callbacks of the channel.

  \<^item> Channels are objects of a heap, a map from addresses to \<open>channel\<close> records. A
    \<^verbatim>\<open>boost::function\<close> member is an \<open>option\<close>, \<open>None\<close> when it is empty; the type of the
    callbacks is a parameter.
  \<^item> \<open>M_events\<close> and \<open>M_revents\<close> are 32-bit words with the bit values of poll.h.
  \<^item> \<open>update\<close> and \<open>remove_channel\<close> call into the loop; what the loop does is the argument \<open>upd\<close>
    (\<open>rem\<close>), instantiated in the theory of the event loop.
  \<^item> \<open>handleEventWithGuard\<close> passes the state through every callback it calls, reading the channel
    again from the heap after each: a callback may change the channel or destroy it, and a
    channel read after its destruction is the fault \<open>DanglingPointer\<close>.
\<close>

section \<open>Event bits of poll.h\<close>

unbundle bit_operations_syntax

definition POLLIN :: int32 where "POLLIN = 0x001"
definition POLLPRI :: int32 where "POLLPRI = 0x002"
definition POLLOUT :: int32 where "POLLOUT = 0x004"
definition POLLERR :: int32 where "POLLERR = 0x008"
definition POLLHUP :: int32 where "POLLHUP = 0x010"
definition POLLNVAL :: int32 where "POLLNVAL = 0x020"
definition POLLRDHUP :: int32 where "POLLRDHUP = 0x2000"

lemmas poll_bits = POLLIN_def POLLPRI_def POLLOUT_def POLLERR_def POLLHUP_def POLLNVAL_def
  POLLRDHUP_def

definition kNoneEvent :: int32 where "kNoneEvent = 0"
definition kReadEvent :: int32 where "kReadEvent = POLLIN OR POLLPRI"
definition kWriteEvent :: int32 where "kWriteEvent = POLLOUT"

lemmas event_masks = kNoneEvent_def kReadEvent_def kWriteEvent_def poll_bits

text \<open>The condition \<^verbatim>\<open>if (ev & bits)\<close>.\<close>

definition has_bits :: "int32 \<Rightarrow> int32 \<Rightarrow> bool" where
  "has_bits ev bits \<longleftrightarrow> ev AND bits \<noteq> 0"

section \<open>State\<close>

record 'cb channel =
  M_loop :: nat
  M_fd :: int
  M_events :: int32
  M_revents :: int32
  M_index :: int
  M_logHup :: bool
  M_tie :: "nat option"      \<comment> \<open>the object a weak pointer refers to\<close>
  M_tied :: bool
  M_eventHandling :: bool
  M_addedToLoop :: bool
  M_readCallback :: "'cb option"
  M_writeCallback :: "'cb option"
  M_closeCallback :: "'cb option"
  M_errorCallback :: "'cb option"

type_synonym 'cb channel_heap = "nat \<rightharpoonup> 'cb channel"

definition new_Channel :: "nat \<Rightarrow> int \<Rightarrow> 'cb channel" where
  "new_Channel loop fd =
     \<lparr>M_loop = loop, M_fd = fd, M_events = 0, M_revents = 0, M_index = -1, M_logHup = True,
      M_tie = None, M_tied = False, M_eventHandling = False, M_addedToLoop = False,
      M_readCallback = None, M_writeCallback = None, M_closeCallback = None,
      M_errorCallback = None\<rparr>"

text \<open>The destructor's assertions; \<open>isInLoopThread\<close> and \<open>hasChannel\<close> are the loop's answers.\<close>

definition delete_Channel :: "bool \<Rightarrow> bool res \<Rightarrow> 'cb channel \<Rightarrow> unit res" where
  "delete_Channel isInLoopThread hasChannel c =
     assertr (\<not> M_eventHandling c) ''!M_eventHandling''
       (assertr (\<not> M_addedToLoop c) ''!M_addedToLoop''
         (if isInLoopThread then
            bindr hasChannel (\<lambda>b. assertr (\<not> b) ''!M_loop->hasChannel(this)'' (Inr ()))
          else Inr ()))"

definition setReadCallback :: "'cb \<Rightarrow> 'cb channel \<Rightarrow> 'cb channel" where
  "setReadCallback cb c = c\<lparr>M_readCallback := Some cb\<rparr>"

definition setWriteCallback :: "'cb \<Rightarrow> 'cb channel \<Rightarrow> 'cb channel" where
  "setWriteCallback cb c = c\<lparr>M_writeCallback := Some cb\<rparr>"

definition setCloseCallback :: "'cb \<Rightarrow> 'cb channel \<Rightarrow> 'cb channel" where
  "setCloseCallback cb c = c\<lparr>M_closeCallback := Some cb\<rparr>"

definition setErrorCallback :: "'cb \<Rightarrow> 'cb channel \<Rightarrow> 'cb channel" where
  "setErrorCallback cb c = c\<lparr>M_errorCallback := Some cb\<rparr>"

definition tie :: "nat \<Rightarrow> 'cb channel \<Rightarrow> 'cb channel" where
  "tie obj c = c\<lparr>M_tie := Some obj, M_tied := True\<rparr>"

definition channel_fd :: "'cb channel \<Rightarrow> int" where "channel_fd c = M_fd c"

definition channel_events :: "'cb channel \<Rightarrow> int32" where "channel_events c = M_events c"

definition set_revents :: "int32 \<Rightarrow> 'cb channel \<Rightarrow> 'cb channel" where
  "set_revents revt c = c\<lparr>M_revents := revt\<rparr>"

definition isNoneEvent :: "'cb channel \<Rightarrow> bool" where
  "isNoneEvent c \<longleftrightarrow> M_events c = kNoneEvent"

definition isWriting :: "'cb channel \<Rightarrow> bool" where
  "isWriting c \<longleftrightarrow> has_bits (M_events c) kWriteEvent"

definition isReading :: "'cb channel \<Rightarrow> bool" where
  "isReading c \<longleftrightarrow> has_bits (M_events c) kReadEvent"

definition channel_index :: "'cb channel \<Rightarrow> int" where "channel_index c = M_index c"

definition set_index :: "int \<Rightarrow> 'cb channel \<Rightarrow> 'cb channel" where
  "set_index idx c = c\<lparr>M_index := idx\<rparr>"

definition doNotLogHup :: "'cb channel \<Rightarrow> 'cb channel" where
  "doNotLogHup c = c\<lparr>M_logHup := False\<rparr>"

definition ownerLoop :: "'cb channel \<Rightarrow> nat" where "ownerLoop c = M_loop c"

section \<open>Access to the heap\<close>

text \<open>\<open>with_channel h a k\<close> dereferences the pointer \<open>a\<close>.\<close>

definition with_channel :: "'cb channel_heap \<Rightarrow> nat \<Rightarrow> ('cb channel \<Rightarrow> 'a res) \<Rightarrow> 'a res" where
  "with_channel h a k = (case h a of None \<Rightarrow> Inl (DanglingPointer ''Channel'') | Some c \<Rightarrow> k c)"

lemma with_channel_Some [simp]: "h a = Some c \<Longrightarrow> with_channel h a k = k c"
  by (simp add: with_channel_def)

lemma with_channel_None [simp]: "h a = None \<Longrightarrow> with_channel h a k = Inl (DanglingPointer ''Channel'')"
  by (simp add: with_channel_def)

lemma with_channel_eq_Inr_iff [simp]:
  "with_channel h a k = Inr r \<longleftrightarrow> (\<exists>c. h a = Some c \<and> k c = Inr r)"
  by (cases "h a") auto

section \<open>Registration\<close>

text \<open>
  \<open>upd\<close> is \<^verbatim>\<open>M_loop->updateChannel\<close> and \<open>rem\<close> is \<^verbatim>\<open>M_loop->removeChannel\<close>: they take the address of
  the channel, the heap and the state of the loop.
\<close>

type_synonym ('cb, 's) chan_op = "nat \<Rightarrow> 'cb channel_heap \<Rightarrow> 's \<Rightarrow> ('cb channel_heap \<times> 's) res"

definition update :: "('cb, 's) chan_op \<Rightarrow> ('cb, 's) chan_op" where
  "update upd a h s = with_channel h a (\<lambda>c. upd a (h(a \<mapsto> c\<lparr>M_addedToLoop := True\<rparr>)) s)"

definition set_events :: "('cb, 's) chan_op \<Rightarrow> (int32 \<Rightarrow> int32) \<Rightarrow> ('cb, 's) chan_op" where
  "set_events upd f a h s =
     with_channel h a (\<lambda>c. update upd a (h(a \<mapsto> c\<lparr>M_events := f (M_events c)\<rparr>)) s)"

definition enableReading :: "('cb, 's) chan_op \<Rightarrow> ('cb, 's) chan_op" where
  "enableReading upd = set_events upd (\<lambda>ev. ev OR kReadEvent)"

definition disableReading :: "('cb, 's) chan_op \<Rightarrow> ('cb, 's) chan_op" where
  "disableReading upd = set_events upd (\<lambda>ev. ev AND NOT kReadEvent)"

definition enableWriting :: "('cb, 's) chan_op \<Rightarrow> ('cb, 's) chan_op" where
  "enableWriting upd = set_events upd (\<lambda>ev. ev OR kWriteEvent)"

definition disableWriting :: "('cb, 's) chan_op \<Rightarrow> ('cb, 's) chan_op" where
  "disableWriting upd = set_events upd (\<lambda>ev. ev AND NOT kWriteEvent)"

definition disableAll :: "('cb, 's) chan_op \<Rightarrow> ('cb, 's) chan_op" where
  "disableAll upd = set_events upd (\<lambda>_. kNoneEvent)"

definition remove_channel :: "('cb, 's) chan_op \<Rightarrow> ('cb, 's) chan_op" where
  "remove_channel rem a h s =
     with_channel h a (\<lambda>c.
       assertr (isNoneEvent c) ''isNoneEvent()'' (rem a (h(a \<mapsto> c\<lparr>M_addedToLoop := False\<rparr>)) s))"

section \<open>Dispatch\<close>

text \<open>
  \<open>('cb, 's) world\<close> is the state the callbacks act on: the channels and the rest. \<open>call\<close> runs a
  callback; the read callback gets the time of the poll.
\<close>

type_synonym ('cb, 's) world = "'cb channel_heap \<times> 's"

type_synonym ('cb, 's) caller = "'cb \<Rightarrow> timestamp option \<Rightarrow> ('cb, 's) world \<Rightarrow> ('cb, 's) world res"

definition call_if_set ::
  "('cb, 's) caller \<Rightarrow> 'cb option \<Rightarrow> timestamp option \<Rightarrow> ('cb, 's) world \<Rightarrow> ('cb, 's) world res" where
  "call_if_set call cb t w = (case cb of None \<Rightarrow> Inr w | Some f \<Rightarrow> call f t w)"

text \<open>One \<^verbatim>\<open>if\<close> of the dispatch: test the bits of the channel, then call.\<close>

definition dispatch ::
  "('cb, 's) caller \<Rightarrow> nat \<Rightarrow> (int32 \<Rightarrow> bool) \<Rightarrow> ('cb channel \<Rightarrow> 'cb option) \<Rightarrow> timestamp option \<Rightarrow>
   ('cb, 's) world \<Rightarrow> ('cb, 's) world res" where
  "dispatch call a test cb t w =
     with_channel (fst w) a (\<lambda>c. if test (M_revents c) then call_if_set call (cb c) t w else Inr w)"

definition set_eventHandling :: "bool \<Rightarrow> nat \<Rightarrow> ('cb, 's) world \<Rightarrow> ('cb, 's) world res" where
  "set_eventHandling b a w =
     with_channel (fst w) a (\<lambda>c. Inr ((fst w)(a \<mapsto> c\<lparr>M_eventHandling := b\<rparr>), snd w))"

definition handleEventWithGuard ::
  "('cb, 's) caller \<Rightarrow> nat \<Rightarrow> timestamp \<Rightarrow> ('cb, 's) world \<Rightarrow> ('cb, 's) world res" where
  "handleEventWithGuard call a receiveTime w =
     bindr (set_eventHandling True a w) (\<lambda>w.
     bindr (dispatch call a (\<lambda>r. has_bits r POLLHUP \<and> \<not> has_bits r POLLIN) M_closeCallback None w) (\<lambda>w.
     bindr (dispatch call a (\<lambda>r. has_bits r (POLLERR OR POLLNVAL)) M_errorCallback None w) (\<lambda>w.
     bindr (dispatch call a (\<lambda>r. has_bits r (POLLIN OR POLLPRI OR POLLRDHUP)) M_readCallback
              (Some receiveTime) w) (\<lambda>w.
     bindr (dispatch call a (\<lambda>r. has_bits r POLLOUT) M_writeCallback None w)
       (set_eventHandling False a)))))"

text \<open>\<open>alive\<close> tells whether the object a weak pointer refers to still exists.\<close>

definition handleEvent ::
  "('cb, 's) caller \<Rightarrow> (nat \<Rightarrow> bool) \<Rightarrow> nat \<Rightarrow> timestamp \<Rightarrow> ('cb, 's) world \<Rightarrow> ('cb, 's) world res" where
  "handleEvent call alive a receiveTime w =
     with_channel (fst w) a (\<lambda>c.
       if M_tied c then
         (case M_tie c of
            None \<Rightarrow> Inr w
          | Some obj \<Rightarrow> if alive obj then handleEventWithGuard call a receiveTime w else Inr w)
       else handleEventWithGuard call a receiveTime w)"

section \<open>Printing\<close>

definition events_to_string :: "int \<Rightarrow> int32 \<Rightarrow> string" where
  "events_to_string fd ev =
     dec fd @ '': '' @
     (if has_bits ev POLLIN then ''IN '' else []) @
     (if has_bits ev POLLPRI then ''PRI '' else []) @
     (if has_bits ev POLLOUT then ''OUT '' else []) @
     (if has_bits ev POLLHUP then ''HUP '' else []) @
     (if has_bits ev POLLRDHUP then ''RDHUP '' else []) @
     (if has_bits ev POLLERR then ''ERR '' else []) @
     (if has_bits ev POLLNVAL then ''NVAL '' else [])"

definition reventsToString :: "'cb channel \<Rightarrow> string" where
  "reventsToString c = events_to_string (M_fd c) (M_revents c)"

definition eventsToString :: "'cb channel \<Rightarrow> string" where
  "eventsToString c = events_to_string (M_fd c) (M_events c)"

section \<open>The calls a set of events leads to\<close>

text \<open>The reference for the dispatch: the callbacks the received events select, in order.\<close>

definition planned :: "bool \<Rightarrow> 'cb option \<Rightarrow> timestamp option \<Rightarrow> ('cb \<times> timestamp option) list" where
  "planned b cb t = (if b then (case cb of None \<Rightarrow> [] | Some f \<Rightarrow> [(f, t)]) else [])"

definition plan :: "'cb channel \<Rightarrow> timestamp \<Rightarrow> ('cb \<times> timestamp option) list" where
  "plan c t =
     planned (has_bits (M_revents c) POLLHUP \<and> \<not> has_bits (M_revents c) POLLIN) (M_closeCallback c) None @
     planned (has_bits (M_revents c) (POLLERR OR POLLNVAL)) (M_errorCallback c) None @
     planned (has_bits (M_revents c) (POLLIN OR POLLPRI OR POLLRDHUP)) (M_readCallback c) (Some t) @
     planned (has_bits (M_revents c) POLLOUT) (M_writeCallback c) None"

text \<open>Two states of a channel that dispatch the same calls.\<close>

definition same_handlers :: "'cb channel \<Rightarrow> 'cb channel \<Rightarrow> bool" where
  "same_handlers c d \<longleftrightarrow> M_revents d = M_revents c \<and> M_readCallback d = M_readCallback c \<and>
     M_writeCallback d = M_writeCallback c \<and> M_closeCallback d = M_closeCallback c \<and>
     M_errorCallback d = M_errorCallback c"

definition run_calls :: "('cb, 's) caller \<Rightarrow> ('cb \<times> timestamp option) list \<Rightarrow>
    ('cb, 's) world \<Rightarrow> ('cb, 's) world res" where
  "run_calls call = foldr_res (\<lambda>(f, t). call f t)"

text \<open>The callbacks leave the handlers of the channel as they are and do not destroy it.\<close>

definition keeps_handlers :: "('cb, 's) caller \<Rightarrow> nat \<Rightarrow> bool" where
  "keeps_handlers call a \<longleftrightarrow> (\<forall>f t w w' d. call f t w = Inr w' \<longrightarrow> fst w a = Some d \<longrightarrow>
     (\<exists>e. fst w' a = Some e \<and> same_handlers d e))"

lemma same_handlers_refl [simp]: "same_handlers c c"
  by (simp add: same_handlers_def)

lemma same_handlers_trans: "same_handlers c d \<Longrightarrow> same_handlers d e \<Longrightarrow> same_handlers c e"
  by (simp add: same_handlers_def)

lemma same_handlers_eventHandling [simp]: "same_handlers c (c\<lparr>M_eventHandling := b\<rparr>)"
  by (simp add: same_handlers_def)

lemma run_calls_append:
  "run_calls call (xs @ ys) w = bindr (run_calls call xs w) (run_calls call ys)"
  by (simp add: run_calls_def foldr_res_append)

lemma run_calls_Nil [simp]: "run_calls call [] w = Inr w"
  by (simp add: run_calls_def)

lemma dispatch_planned:
  assumes "fst w a = Some d"
  shows "dispatch call a test cb t w = run_calls call (planned (test (M_revents d)) (cb d) t) w"
  using assms
  by (auto simp: dispatch_def call_if_set_def planned_def run_calls_def split: option.splits)

lemma run_calls_keeps_handlers:
  assumes "keeps_handlers call a"
    and "fst w a = Some d" and "same_handlers c d" and "run_calls call xs w = Inr w'"
  shows "\<exists>e. fst w' a = Some e \<and> same_handlers c e"
proof (rule foldr_res_invariant [where P = "\<lambda>w. \<exists>e. fst w a = Some e \<and> same_handlers c e"])
  show "foldr_res (\<lambda>(f, t). call f t) xs w = Inr w'" using assms(4) by (simp add: run_calls_def)
  show "\<exists>e. fst w a = Some e \<and> same_handlers c e" using assms(2,3) by blast
next
  fix x w1 w2
  assume "\<exists>e. fst w1 a = Some e \<and> same_handlers c e" and "(case x of (f, t) \<Rightarrow> call f t) w1 = Inr w2"
  then obtain e where e: "fst w1 a = Some e" "same_handlers c e"
    and "call (fst x) (snd x) w1 = Inr w2" by (cases x) auto
  with assms(1) obtain e' where "fst w2 a = Some e'" "same_handlers e e'"
    unfolding keeps_handlers_def by blast
  with same_handlers_trans [OF e(2)] show "\<exists>e. fst w2 a = Some e \<and> same_handlers c e" by blast
qed

text \<open>One dispatch followed by the rest, where the rest is known for every state of the channel
  with the same handlers.\<close>

lemma bind_dispatch:
  assumes keeps: "keeps_handlers call a"
    and w: "fst w a = Some d" "same_handlers c d"
    and test: "test (M_revents d) = b" "cb d = f"
    and rest: "\<And>w e. fst w a = Some e \<Longrightarrow> same_handlers c e \<Longrightarrow>
      k w = bindr (run_calls call ys w) (set_eventHandling False a)"
  shows "bindr (dispatch call a test cb t w) k =
    bindr (run_calls call (planned b f t @ ys) w) (set_eventHandling False a)"
proof (cases "run_calls call (planned b f t) w")
  case (Inl e)
  then show ?thesis by (simp add: dispatch_planned [OF w(1)] test run_calls_append)
next
  case (Inr w')
  with run_calls_keeps_handlers [OF keeps w] obtain e
    where "fst w' a = Some e" "same_handlers c e" by blast
  with Inr show ?thesis
    by (simp add: dispatch_planned [OF w(1)] test run_calls_append rest)
qed

lemma handleEventWithGuard_plan:
  assumes keeps: "keeps_handlers call a"
    and h: "h a = Some c"
  shows "handleEventWithGuard call a t (h, s) =
    bindr (run_calls call (plan c t) (h(a \<mapsto> c\<lparr>M_eventHandling := True\<rparr>), s)) (set_eventHandling False a)"
proof -
  note step = bind_dispatch [OF keeps]
  let ?fin = "set_eventHandling False a"
  let ?wrt = "planned (has_bits (M_revents c) POLLOUT) (M_writeCallback c) None"
  let ?read = "planned (has_bits (M_revents c) (POLLIN OR POLLPRI OR POLLRDHUP)) (M_readCallback c) (Some t)"
  let ?error = "planned (has_bits (M_revents c) (POLLERR OR POLLNVAL)) (M_errorCallback c) None"
  have wr: "bindr (dispatch call a (\<lambda>r. has_bits r POLLOUT) M_writeCallback None w) ?fin =
      bindr (run_calls call ?wrt w) ?fin"
    if "fst w a = Some d" "same_handlers c d" for w d
    using step [where ys = "[]", OF that] that by (simp add: same_handlers_def)
  have rd: "bindr (dispatch call a (\<lambda>r. has_bits r (POLLIN OR POLLPRI OR POLLRDHUP)) M_readCallback
        (Some t) w)
      (\<lambda>w. bindr (dispatch call a (\<lambda>r. has_bits r POLLOUT) M_writeCallback None w) ?fin) =
      bindr (run_calls call (?read @ ?wrt) w) ?fin"
    if "fst w a = Some d" "same_handlers c d" for w d
    by (rule step [OF that _ _ wr]) (use that in \<open>auto simp: same_handlers_def\<close>)
  have er: "bindr (dispatch call a (\<lambda>r. has_bits r (POLLERR OR POLLNVAL)) M_errorCallback None w)
      (\<lambda>w. bindr (dispatch call a (\<lambda>r. has_bits r (POLLIN OR POLLPRI OR POLLRDHUP)) M_readCallback
        (Some t) w)
      (\<lambda>w. bindr (dispatch call a (\<lambda>r. has_bits r POLLOUT) M_writeCallback None w) ?fin)) =
      bindr (run_calls call (?error @ ?read @ ?wrt) w) ?fin"
    if "fst w a = Some d" "same_handlers c d" for w d
    by (rule step [OF that _ _ rd]) (use that in \<open>auto simp: same_handlers_def\<close>)
  let ?w = "(h(a \<mapsto> c\<lparr>M_eventHandling := True\<rparr>), s)"
  have "fst ?w a = Some (c\<lparr>M_eventHandling := True\<rparr>)" by simp
  from step [OF this same_handlers_eventHandling _ _ er] show ?thesis
    by (simp add: handleEventWithGuard_def plan_def set_eventHandling_def [of True] h)
qed

text \<open>What every callback keeps of the rest of the state is kept by the dispatch.\<close>

definition call_keeps :: "('s \<Rightarrow> bool) \<Rightarrow> ('cb, 's) caller \<Rightarrow> bool" where
  "call_keeps P call \<longleftrightarrow> (\<forall>f t w w'. P (snd w) \<longrightarrow> call f t w = Inr w' \<longrightarrow> P (snd w'))"

lemma dispatch_invariant:
  assumes "call_keeps P call"
    and "P (snd w)" and "dispatch call a test cb t w = Inr w'"
  shows "P (snd w')"
  using assms
  by (cases w, cases w') (auto simp: call_keeps_def dispatch_def call_if_set_def split: if_splits option.splits)

lemma handleEventWithGuard_invariant:
  assumes call: "call_keeps P call"
    and "P (snd w)" and "handleEventWithGuard call a t w = Inr w'"
  shows "P (snd w')"
proof -
  have set: "P (snd w2)" if "P (snd w1)" "set_eventHandling b a w1 = Inr w2" for b w1 w2
    using that by (auto simp: set_eventHandling_def)
  have step: "P (snd w2)" if "P (snd w1)" "dispatch call a test cb t' w1 = Inr w2" for test cb t' w1 w2
    by (rule dispatch_invariant [OF call that])
  from assms(3) obtain w1 w2 w3 w4 w5 where
    w: "set_eventHandling True a w = Inr w1"
    "dispatch call a (\<lambda>r. has_bits r POLLHUP \<and> \<not> has_bits r POLLIN) M_closeCallback None w1 = Inr w2"
    "dispatch call a (\<lambda>r. has_bits r (POLLERR OR POLLNVAL)) M_errorCallback None w2 = Inr w3"
    "dispatch call a (\<lambda>r. has_bits r (POLLIN OR POLLPRI OR POLLRDHUP)) M_readCallback (Some t) w3 = Inr w4"
    "dispatch call a (\<lambda>r. has_bits r POLLOUT) M_writeCallback None w4 = Inr w5"
    "set_eventHandling False a w5 = Inr w'"
    unfolding handleEventWithGuard_def bindr_eq_Inr_iff by blast
  from set [OF assms(2) w(1)] step [OF _ w(2)] step [OF _ w(3)] step [OF _ w(4)] step [OF _ w(5)]
    set [OF _ w(6)] show ?thesis by blast
qed

lemma handleEvent_invariant:
  assumes "call_keeps P call"
    and "P (snd w)" and "handleEvent call alive a t w = Inr w'"
  shows "P (snd w')"
  using assms(2,3) handleEventWithGuard_invariant [OF assms(1,2)]
  by (cases w') (auto simp: handleEvent_def split: if_splits option.splits)

section \<open>Properties\<close>

text \<open>C20. A channel whose callbacks leave its own handlers alone runs, for the events it received,
  exactly the callbacks of the plan: close when the peer hung up and nothing is readable, then
  error, read (with the time of the poll) and write. It does so when it is not tied, or tied to
  an object that still exists.\<close>

theorem handleEvent_runs_plan:
  assumes "keeps_handlers call a"
    and "h a = Some c" and "M_tied c \<Longrightarrow> (\<exists>obj. M_tie c = Some obj \<and> alive obj)"
  shows "handleEvent call alive a t (h, s) =
    bindr (run_calls call (plan c t) (h(a \<mapsto> c\<lparr>M_eventHandling := True\<rparr>), s)) (set_eventHandling False a)"
  using handleEventWithGuard_plan [of call a h c t s] assms
  by (auto simp: handleEvent_def)

definition sample_channel :: "nat channel" where
  "sample_channel = setWriteCallback 3 (setReadCallback 2 (setCloseCallback 1
     (set_revents (POLLIN OR POLLOUT OR POLLHUP) (new_Channel 0 5))))"

theorem handleEvent_runs_plan_witness:
  "handleEvent (\<lambda>f t (h, log). Inr (h, log @ [(f, t)])) (\<lambda>_. False) 9 (Timestamp 70)
     ([9 \<mapsto> sample_channel], []) =
   Inr ([9 \<mapsto> sample_channel], [(2, Some (Timestamp 70)), (3, None)])"
proof -
  have "keeps_handlers (\<lambda>f t (h, log). Inr (h, log @ [(f, t)])) 9"
    unfolding keeps_handlers_def by (metis (mono_tags, lifting) case_prod_unfold fst_conv
      same_handlers_refl sum.inject(2))
  moreover have "plan sample_channel (Timestamp 70) = [(2, Some (Timestamp 70)), (3, None)]"
    by (simp add: sample_channel_def new_Channel_def setWriteCallback_def setReadCallback_def
        setCloseCallback_def set_revents_def plan_def planned_def has_bits_def poll_bits)
  moreover have "\<not> M_tied sample_channel" "sample_channel\<lparr>M_eventHandling := False\<rparr> = sample_channel"
    by (simp_all add: sample_channel_def new_Channel_def setWriteCallback_def setReadCallback_def
        setCloseCallback_def set_revents_def)
  ultimately show ?thesis
    by (subst handleEvent_runs_plan [where c = sample_channel])
      (simp_all add: run_calls_def set_eventHandling_def)
qed

text \<open>A channel tied to an object that no longer exists runs no callback and changes nothing.\<close>

theorem handleEvent_owner_gone:
  assumes "h a = Some c" and "M_tied c" and "\<And>obj. M_tie c = Some obj \<Longrightarrow> \<not> alive obj"
  shows "handleEvent call alive a t (h, s) = Inr (h, s)"
  using assms by (auto simp: handleEvent_def split: option.splits)

theorem handleEvent_owner_gone_witness:
  "handleEvent (\<lambda>f t w. Inl (BadFunctionCall [])) (\<lambda>_. False) 9 (Timestamp 70)
     ([9 \<mapsto> tie 4 sample_channel], ()) = Inr ([9 \<mapsto> tie 4 sample_channel], ())"
  by (rule handleEvent_owner_gone [where c = "tie 4 sample_channel"]) (simp_all add: tie_def)

end
