(* ===== verification/Poller.thy ===== *)
theory Poller
  imports Channel
begin

text \<open>
  The base class \<^verbatim>\<open>Poller\<close> (include/Poller.h, src/Poller.cpp) and the contract of a poller.

  \<^item> \<open>inLoop\<close> tells whether the calling thread is the thread of the loop.
  \<^item> The locale \<open>poller\<close> is what \<^verbatim>\<open>EventLoop\<close> and \<^verbatim>\<open>Channel\<close> rely on: a registration succeeds and
    keeps the invariant, a channel that asks for no event can be removed. The life of a channel
    is proved once from it. Both pollers and the virtual dispatch interpret it.
  \<^item> \<open>watching_poller\<close> adds that the kernel watches the events a channel asked for.
\<close>

section \<open>The base class\<close>

record poller_base =
  M_channels :: "int \<rightharpoonup> nat"

definition assertInLoopThread :: "bool \<Rightarrow> 'a res \<Rightarrow> 'a res" where
  "assertInLoopThread inLoop k = (if inLoop then k else Inl (Fatal ''EventLoop::abortNotInLoopThread''))"

lemma assertInLoopThread_True [simp]: "assertInLoopThread True k = k"
  by (simp add: assertInLoopThread_def)

lemma assertInLoopThread_eq_Inr_iff [simp]:
  "assertInLoopThread b k = Inr r \<longleftrightarrow> b \<and> k = Inr r"
  by (simp add: assertInLoopThread_def)

definition hasChannel :: "bool \<Rightarrow> nat \<Rightarrow> 'cb channel_heap \<Rightarrow> 'm poller_base_scheme \<Rightarrow> bool res" where
  "hasChannel inLoop a h p =
     assertInLoopThread inLoop (with_channel h a (\<lambda>c. Inr (M_channels p (M_fd c) = Some a)))"

section \<open>The interface of a poller\<close>

text \<open>The channel may be registered: it is new and its descriptor is free, or it already is the
  channel of its descriptor.\<close>

definition fits :: "(int \<rightharpoonup> nat) \<Rightarrow> nat \<Rightarrow> 'cb channel \<Rightarrow> bool" where
  "fits m a c \<longleftrightarrow> M_index c = -1 \<and> m (M_fd c) = None \<or> m (M_fd c) = Some a"

text \<open>Heaps that differ in the indices of the channels only.\<close>

definition same_but_index :: "'cb channel_heap \<Rightarrow> 'cb channel_heap \<Rightarrow> bool" where
  "same_but_index h h' \<longleftrightarrow>
     (\<forall>a. map_option (\<lambda>c. c\<lparr>M_index := 0\<rparr>) (h' a) = map_option (\<lambda>c. c\<lparr>M_index := 0\<rparr>) (h a))"

lemma same_but_index_refl [simp]: "same_but_index h h"
  by (simp add: same_but_index_def)

lemma same_but_index_sym: "same_but_index h h' \<Longrightarrow> same_but_index h' h"
  by (simp add: same_but_index_def)

lemma same_but_index_upd: "h a = Some c \<Longrightarrow> same_but_index h (h(a \<mapsto> c\<lparr>M_index := i\<rparr>))"
  by (simp add: same_but_index_def)

lemma same_but_indexE:
  assumes "same_but_index h h'" and "h a = Some c"
  obtains i where "h' a = Some (c\<lparr>M_index := i\<rparr>)"
proof -
  from assms have "map_option (\<lambda>c. c\<lparr>M_index := 0\<rparr>) (h' a) = Some (c\<lparr>M_index := 0\<rparr>)"
    by (simp add: same_but_index_def)
  then obtain d where d: "h' a = Some d" "d\<lparr>M_index := 0\<rparr> = c\<lparr>M_index := 0\<rparr>" by auto
  then have "d = c\<lparr>M_index := M_index d\<rparr>"
    by (metis channel.surjective channel.update_convs(5))
  with d(1) that show ?thesis by metis
qed

datatype chan_call = EnableReading | DisableReading | EnableWriting | DisableWriting | DisableAll

fun run_chan_call :: "('cb, 's) chan_op \<Rightarrow> chan_call \<Rightarrow> ('cb, 's) chan_op" where
  "run_chan_call upd EnableReading = enableReading upd"
| "run_chan_call upd DisableReading = disableReading upd"
| "run_chan_call upd EnableWriting = enableWriting upd"
| "run_chan_call upd DisableWriting = disableWriting upd"
| "run_chan_call upd DisableAll = disableAll upd"

fun events_after :: "chan_call \<Rightarrow> int32 \<Rightarrow> int32" where
  "events_after EnableReading = (\<lambda>ev. ev OR kReadEvent)"
| "events_after DisableReading = (\<lambda>ev. ev AND NOT kReadEvent)"
| "events_after EnableWriting = (\<lambda>ev. ev OR kWriteEvent)"
| "events_after DisableWriting = (\<lambda>ev. ev AND NOT kWriteEvent)"
| "events_after DisableAll = (\<lambda>ev. kNoneEvent)"

lemma run_chan_call_set_events: "run_chan_call upd k = set_events upd (events_after k)"
  by (cases k) (simp_all add: enableReading_def disableReading_def enableWriting_def
      disableWriting_def disableAll_def)

definition run_chan_calls :: "('cb, 's) chan_op \<Rightarrow> chan_call list \<Rightarrow> ('cb, 's) chan_op" where
  "run_chan_calls upd ks a h p = foldr_res (\<lambda>k (h, p). run_chan_call upd k a h p) ks (h, p)"

text \<open>The heap after a channel was updated with the events it now asks for.\<close>

definition watched_channel :: "'cb channel \<Rightarrow> int32 \<Rightarrow> int \<Rightarrow> 'cb channel" where
  "watched_channel c ev i = c\<lparr>M_events := ev, M_addedToLoop := True, M_index := i\<rparr>"

definition watch :: "'cb channel_heap \<Rightarrow> nat \<Rightarrow> 'cb channel \<Rightarrow> int32 \<Rightarrow> int \<Rightarrow> 'cb channel_heap" where
  "watch h a c ev i = h(a \<mapsto> watched_channel c ev i)"

lemma watched_channel_simps [simp]:
  "M_fd (watched_channel c ev i) = M_fd c" "M_events (watched_channel c ev i) = ev"
  "M_index (watched_channel c ev i) = i" "M_addedToLoop (watched_channel c ev i)"
  "watched_channel (watched_channel c ev i) ev' j = watched_channel c ev' j"
  by (simp_all add: watched_channel_def)

lemma watch_same [simp]: "watch h a c ev i a = Some (watched_channel c ev i)"
  by (simp add: watch_def)

lemma watch_watch [simp]: "watch (watch h a c ev i) a (watched_channel c ev i) ev' j = watch h a c ev' j"
  by (simp add: watch_def)

text \<open>
  The contract. \<open>inv\<close> is the invariant that ties the poller to the channels, \<open>chan_map\<close> the
  descriptors it holds, \<open>parked\<close> says that it accepts the removal of a channel.
\<close>

locale poller =
  fixes inv :: "'cb channel_heap \<Rightarrow> 'p \<Rightarrow> bool"
    and chan_map :: "'p \<Rightarrow> int \<rightharpoonup> nat"
    and upd rem :: "('cb, 'p) chan_op"
    and parked :: "nat \<Rightarrow> 'cb channel_heap \<Rightarrow> 'p \<Rightarrow> bool"
  assumes registered: "inv h p \<Longrightarrow> chan_map p fd = Some a \<Longrightarrow>
      \<exists>c. h a = Some c \<and> M_fd c = fd \<and> 0 \<le> M_index c"
    and update_ok: "inv h p \<Longrightarrow> h a = Some c \<Longrightarrow> 0 \<le> M_fd c \<Longrightarrow> fits (chan_map p) a c \<Longrightarrow>
      c' = c\<lparr>M_events := ev, M_addedToLoop := True\<rparr> \<Longrightarrow>
      \<exists>p' i. upd a (h(a \<mapsto> c')) p = Inr (watch h a c ev i, p') \<and>
        inv (watch h a c ev i) p' \<and> chan_map p' = (chan_map p)(M_fd c \<mapsto> a) \<and>
        (ev = 0 \<and> 0 \<le> M_index c \<longrightarrow> parked a (watch h a c ev i) p')"
    and remove_ok: "inv h p \<Longrightarrow> h a = Some c \<Longrightarrow> chan_map p (M_fd c) = Some a \<Longrightarrow> M_events c = 0 \<Longrightarrow>
      parked a h p \<Longrightarrow> c' = c\<lparr>M_addedToLoop := False\<rparr> \<Longrightarrow>
      \<exists>h' p'. rem a (h(a \<mapsto> c')) p = Inr (h', p') \<and> inv h' p' \<and>
        same_but_index (h(a \<mapsto> c')) h' \<and> chan_map p' = (chan_map p)(M_fd c := None)"
begin

lemma set_events_ok:
  assumes "inv h p" and "h a = Some c" and "0 \<le> M_fd c" and "fits (chan_map p) a c"
  shows "\<exists>p' i. set_events upd f a h p = Inr (watch h a c (f (M_events c)) i, p') \<and>
    inv (watch h a c (f (M_events c)) i) p' \<and> chan_map p' = (chan_map p)(M_fd c \<mapsto> a) \<and>
    (f (M_events c) = 0 \<and> 0 \<le> M_index c \<longrightarrow> parked a (watch h a c (f (M_events c)) i) p')"
  using update_ok [OF assms refl, of "f (M_events c)"] assms(2)
  by (simp add: set_events_def update_def watch_def)

lemma calls_ok:
  assumes "inv h p" and "h a = Some c" and "0 \<le> M_fd c" and "fits (chan_map p) a c" and "ks \<noteq> []"
  shows "\<exists>p' i. run_chan_calls upd ks a h p =
      Inr (watch h a c (fold events_after ks (M_events c)) i, p') \<and>
    inv (watch h a c (fold events_after ks (M_events c)) i) p' \<and>
    (\<forall>fd. chan_map p' fd = (if fd = M_fd c then Some a else chan_map p fd))"
  using assms(5,1-4)
proof (induction ks arbitrary: h p c rule: list_nonempty_induct)
  case (single k)
  from set_events_ok [OF single, of "events_after k"] show ?case
    by (auto simp: run_chan_calls_def run_chan_call_set_events)
next
  case (cons k ks)
  from set_events_ok [OF cons.prems, of "events_after k"] obtain p1 i where
    1: "run_chan_call upd k a h p = Inr (watch h a c (events_after k (M_events c)) i, p1)"
      "inv (watch h a c (events_after k (M_events c)) i) p1"
      "chan_map p1 = (chan_map p)(M_fd c \<mapsto> a)"
    by (auto simp: run_chan_call_set_events)
  let ?c = "watched_channel c (events_after k (M_events c)) i"
  have "fits (chan_map p1) a ?c" using 1(3) by (simp add: fits_def)
  from cons.IH [OF 1(2) watch_same _ this] cons.prems(3) obtain p2 j where
    "run_chan_calls upd ks a (watch h a c (events_after k (M_events c)) i) p1 =
       Inr (watch h a c (fold events_after (k # ks) (M_events c)) j, p2)"
    "inv (watch h a c (fold events_after (k # ks) (M_events c)) j) p2"
    "\<forall>fd. chan_map p2 fd = (if fd = M_fd c then Some a else chan_map p1 fd)" by auto
  with 1 show ?case by (intro exI [of _ p2] exI [of _ j]) (simp add: run_chan_calls_def)
qed

text \<open>A registered channel can be switched off and taken out.\<close>

lemma disable_remove:
  assumes "inv h p" and "h a = Some c" and "0 \<le> M_fd c" and "chan_map p (M_fd c) = Some a"
  shows "\<exists>h1 p1 h2 p2. disableAll upd a h p = Inr (h1, p1) \<and>
    remove_channel rem a h1 p1 = Inr (h2, p2) \<and> inv h2 p2 \<and>
    same_but_index (h(a \<mapsto> c\<lparr>M_events := 0, M_addedToLoop := False\<rparr>)) h2 \<and>
    chan_map p2 = (chan_map p)(M_fd c := None)"
proof -
  have idx: "0 \<le> M_index c" using registered [OF assms(1,4)] assms(2) by auto
  have "fits (chan_map p) a c" using assms(4) by (simp add: fits_def)
  from set_events_ok [OF assms(1-3) this, of "\<lambda>_. kNoneEvent"] idx obtain p1 j where
    1: "disableAll upd a h p = Inr (watch h a c 0 j, p1)" "inv (watch h a c 0 j) p1"
      "chan_map p1 = (chan_map p)(M_fd c \<mapsto> a)" "parked a (watch h a c 0 j) p1"
    by (auto simp: disableAll_def kNoneEvent_def)
  let ?d = "(watched_channel c 0 j)\<lparr>M_addedToLoop := False\<rparr>"
  from remove_ok [OF 1(2) watch_same _ _ 1(4) refl] 1(3) obtain h2 p2 where
    2: "rem a ((watch h a c 0 j)(a \<mapsto> ?d)) p1 = Inr (h2, p2)" "inv h2 p2"
      "same_but_index ((watch h a c 0 j)(a \<mapsto> ?d)) h2" "chan_map p2 = (chan_map p)(M_fd c := None)"
    by auto
  have "remove_channel rem a (watch h a c 0 j) p1 = Inr (h2, p2)"
    using 2(1) by (simp add: remove_channel_def isNoneEvent_def kNoneEvent_def)
  moreover have "same_but_index (h(a \<mapsto> c\<lparr>M_events := 0, M_addedToLoop := False\<rparr>)) h2"
    using 2(3) by (simp add: same_but_index_def watch_def watched_channel_def)
  ultimately show ?thesis using 1(1) 2 by blast
qed

text \<open>The life of a channel: any calls, then \<^verbatim>\<open>disableAll\<close> and \<^verbatim>\<open>remove\<close>.\<close>

lemma lifecycle:
  assumes "inv h p" and "h a = Some c" and "0 \<le> M_fd c" and "fits (chan_map p) a c" and "ks \<noteq> []"
  shows "\<exists>h1 p1 h2 p2. run_chan_calls upd (ks @ [DisableAll]) a h p = Inr (h1, p1) \<and>
    remove_channel rem a h1 p1 = Inr (h2, p2) \<and> inv h2 p2 \<and>
    same_but_index (h(a \<mapsto> c\<lparr>M_events := 0, M_addedToLoop := False\<rparr>)) h2 \<and>
    chan_map p2 = (chan_map p)(M_fd c := None)"
proof -
  from calls_ok [OF assms] obtain q i where
    1: "run_chan_calls upd ks a h p = Inr (watch h a c (fold events_after ks (M_events c)) i, q)"
      "inv (watch h a c (fold events_after ks (M_events c)) i) q"
      "chan_map q = (chan_map p)(M_fd c \<mapsto> a)"
    by (fastforce simp: fun_eq_iff)
  from disable_remove [OF 1(2) watch_same] assms(3) 1(3) obtain h1 p1 h2 p2 where
    2: "disableAll upd a (watch h a c (fold events_after ks (M_events c)) i) q = Inr (h1, p1)"
      "remove_channel rem a h1 p1 = Inr (h2, p2)" "inv h2 p2"
      "same_but_index ((watch h a c (fold events_after ks (M_events c)) i)
        (a \<mapsto> (watched_channel c (fold events_after ks (M_events c)) i)\<lparr>M_events := 0, M_addedToLoop := False\<rparr>)) h2"
      "chan_map p2 = (chan_map p)(M_fd c := None)" by auto
  have "run_chan_calls upd (ks @ [DisableAll]) a h p = Inr (h1, p1)"
    using 1(1) 2(1) by (simp add: run_chan_calls_def foldr_res_append)
  moreover have "same_but_index (h(a \<mapsto> c\<lparr>M_events := 0, M_addedToLoop := False\<rparr>)) h2"
    using 2(4) by (simp add: same_but_index_def watch_def watched_channel_def)
  ultimately show ?thesis using 2 by blast
qed

end

text \<open>A poller for which the kernel watches, for every channel, exactly the events it asks for.\<close>

locale watching_poller = poller +
  fixes watched :: "'b \<Rightarrow> int \<Rightarrow> int32"
  assumes watched_exact:
    "inv h p \<Longrightarrow> chan_map p fd = Some a \<Longrightarrow> h a = Some c \<Longrightarrow> watched p fd = M_events c"
begin

lemma calls_watched:
  assumes "inv h p" and "h a = Some c" and "0 \<le> M_fd c" and "fits (chan_map p) a c" and "ks \<noteq> []"
  shows "\<exists>h' p'. run_chan_calls upd ks a h p = Inr (h', p') \<and> inv h' p' \<and>
    watched p' (M_fd c) = fold events_after ks (M_events c)"
proof -
  from calls_ok [OF assms] obtain p' i where
    1: "run_chan_calls upd ks a h p = Inr (watch h a c (fold events_after ks (M_events c)) i, p')"
      "inv (watch h a c (fold events_after ks (M_events c)) i) p'" "chan_map p' (M_fd c) = Some a"
    by auto
  with watched_exact [OF 1(2,3) watch_same] show ?thesis by auto
qed

end

end
