(* ===== verification/EPollPoller.thy ===== *)
theory EPollPoller
  imports Poller
begin

text \<open>
  The class \<^verbatim>\<open>EPollPoller\<close> (include/EPollPoller.h, src/EPollPoller.cpp).

  The system calls are parameters: \<open>epoll_ctl\<close> maps the calls made so far, with their results,
  and a new call to its result; \<^verbatim>\<open>epoll_wait\<close> is the value it returns and the events it stores.
  \<open>interest\<close> reads the interest list of the epoll instance off the calls that succeeded, and
  \<open>epoll_documented\<close> is what epoll_ctl(2) promises for open descriptors.
\<close>

section \<open>EPollPoller\<close>

definition EPOLL_CTL_ADD :: int where "EPOLL_CTL_ADD = 1"
definition EPOLL_CTL_DEL :: int where "EPOLL_CTL_DEL = 2"
definition EPOLL_CTL_MOD :: int where "EPOLL_CTL_MOD = 3"

lemmas ctl_ops = EPOLL_CTL_ADD_def EPOLL_CTL_DEL_def EPOLL_CTL_MOD_def

definition kNew :: int where "kNew = -1"
definition kAdded :: int where "kAdded = 1"
definition kDeleted :: int where "kDeleted = 2"

lemmas index_states = kNew_def kAdded_def kDeleted_def

definition kInitEventListSize :: nat where "kInitEventListSize = 16"

record epoll_event =
  ev_events :: int32
  ev_ptr :: nat

record ctl_call =
  ctl_op :: int
  ctl_fd :: int
  ctl_event :: epoll_event

type_synonym ctl_history = "(ctl_call \<times> int) list"

type_synonym epoll_ctl = "ctl_history \<Rightarrow> ctl_call \<Rightarrow> int"

record epoll_poller = poller_base +
  M_epollfd :: int
  M_eventlist :: "epoll_event list"
  ctl_calls :: ctl_history    \<comment> \<open>the calls of epoll_ctl on M_epollfd\<close>

definition no_event :: epoll_event where "no_event = \<lparr>ev_events = 0, ev_ptr = 0\<rparr>"

definition new_EPollPoller :: "int \<Rightarrow> epoll_poller res" where
  "new_EPollPoller epoll_create1 =
     (if epoll_create1 < 0 then Inl (Fatal ''EPollPoller::EPollPoller'')
      else Inr \<lparr>M_channels = Map.empty, M_epollfd = epoll_create1,
        M_eventlist = replicate kInitEventListSize no_event, ctl_calls = []\<rparr>)"

text \<open>The destructor closes the descriptor.\<close>

definition delete_EPollPoller :: "epoll_poller \<Rightarrow> int list" where
  "delete_EPollPoller p = [M_epollfd p]"

definition operationToString :: "int \<Rightarrow> string res" where
  "operationToString operation =
     (if operation = EPOLL_CTL_ADD then Inr ''ADD''
      else if operation = EPOLL_CTL_DEL then Inr ''DEL''
      else if operation = EPOLL_CTL_MOD then Inr ''MOD''
      else Inl (AssertFailed ''false && ERROR op''))"

definition epoll_update :: "epoll_ctl \<Rightarrow> int \<Rightarrow> ('cb, epoll_poller) chan_op" where
  "epoll_update ctl operation a h p =
     with_channel h a (\<lambda>c.
       let event = \<lparr>ev_events = M_events c, ev_ptr = a\<rparr>;
           req = \<lparr>ctl_op = operation, ctl_fd = M_fd c, ctl_event = event\<rparr>;
           r = ctl (ctl_calls p) req;
           p' = p\<lparr>ctl_calls := ctl_calls p @ [(req, r)]\<rparr>
       in if r < 0 then
            if operation = EPOLL_CTL_DEL then Inr (h, p') else Inl (Fatal ''epoll_ctl'')
          else Inr (h, p'))"

definition epoll_fillActiveChannels ::
  "int \<Rightarrow> 'cb channel_heap \<Rightarrow> epoll_poller \<Rightarrow> nat list \<Rightarrow> ('cb channel_heap \<times> nat list) res" where
  "epoll_fillActiveChannels numEvents h p activeChannels =
     assertr (nat numEvents \<le> length (M_eventlist p)) ''numEvents <= M_events.size()''
       (foldr_res (\<lambda>ev (h, active).
          with_channel h (ev_ptr ev) (\<lambda>c.
            assertr (M_channels p (M_fd c) \<noteq> None) ''it != M_channels.end()''
              (Inr (h(ev_ptr ev \<mapsto> set_revents (ev_events ev) c), active @ [ev_ptr ev]))))
          (take (nat numEvents) (M_eventlist p)) (h, activeChannels))"

text \<open>\<open>epoll_wait\<close> is the number it returns and the events it stores at the front of the list.\<close>

definition epoll_poll :: "int \<times> epoll_event list \<Rightarrow> timestamp \<Rightarrow> 'cb channel_heap \<Rightarrow> epoll_poller \<Rightarrow>
    nat list \<Rightarrow> (timestamp \<times> 'cb channel_heap \<times> epoll_poller \<times> nat list) res" where
  "epoll_poll epoll_wait tnow h p activeChannels =
     (let numEvents = fst epoll_wait;
          p = p\<lparr>M_eventlist := snd epoll_wait @ drop (length (snd epoll_wait)) (M_eventlist p)\<rparr>
      in if numEvents > 0 then
           bindr (epoll_fillActiveChannels numEvents h p activeChannels) (\<lambda>(h, active).
             Inr (tnow, h,
               if nat numEvents = length (M_eventlist p)
               then p\<lparr>M_eventlist := M_eventlist p @ replicate (length (M_eventlist p)) no_event\<rparr>
               else p, active))
         else Inr (tnow, h, p, activeChannels))"

definition epoll_updateChannel :: "epoll_ctl \<Rightarrow> bool \<Rightarrow> ('cb, epoll_poller) chan_op" where
  "epoll_updateChannel ctl inLoop a h p =
     assertInLoopThread inLoop (with_channel h a (\<lambda>c.
       let index = M_index c; fd = M_fd c in
       if index = kNew \<or> index = kDeleted then
         bindr
           (if index = kNew then
              assertr (M_channels p fd = None) ''M_channels.find(fd) == M_channels.end()''
                (Inr (p\<lparr>M_channels := (M_channels p)(fd \<mapsto> a)\<rparr>))
            else
              assertr (M_channels p fd \<noteq> None) ''M_channels.find(fd) != M_channels.end()''
                (assertr (M_channels p fd = Some a) ''M_channels[fd] == channel'' (Inr p)))
           (epoll_update ctl EPOLL_CTL_ADD a (h(a \<mapsto> set_index kAdded c)))
       else
         assertr (M_channels p fd \<noteq> None) ''M_channels.find(fd) != M_channels.end()''
           (assertr (index = kAdded) ''index == kAdded''
             (if isNoneEvent c then
                bindr (epoll_update ctl EPOLL_CTL_DEL a h p) (\<lambda>(h, p).
                  with_channel h a (\<lambda>c. Inr (h(a \<mapsto> set_index kDeleted c), p)))
              else epoll_update ctl EPOLL_CTL_MOD a h p))))"

definition epoll_removeChannel :: "epoll_ctl \<Rightarrow> bool \<Rightarrow> ('cb, epoll_poller) chan_op" where
  "epoll_removeChannel ctl inLoop a h p =
     assertInLoopThread inLoop (with_channel h a (\<lambda>c.
       let fd = M_fd c; index = M_index c in
       assertr (M_channels p fd \<noteq> None) ''M_channels.find(fd) != M_channels.end()''
       (assertr (M_channels p fd = Some a) ''M_channels[fd] == channel''
       (assertr (isNoneEvent c) ''channel->isNoneEvent()''
       (assertr (index = kAdded \<or> index = kDeleted) ''index == kAdded || index == kDeleted''
         (let p = p\<lparr>M_channels := (M_channels p)(fd := None)\<rparr> in
          bindr (if index = kAdded then epoll_update ctl EPOLL_CTL_DEL a h p else Inr (h, p)) (\<lambda>(h, p).
            with_channel h a (\<lambda>c. Inr (h(a \<mapsto> set_index kNew c), p)))))))))"

section \<open>The interest list of the kernel\<close>

definition apply_ctl :: "ctl_call \<Rightarrow> (int \<rightharpoonup> epoll_event) \<Rightarrow> (int \<rightharpoonup> epoll_event)" where
  "apply_ctl req m =
     (if ctl_op req = EPOLL_CTL_DEL then m(ctl_fd req := None) else m(ctl_fd req \<mapsto> ctl_event req))"

definition interest :: "ctl_history \<Rightarrow> int \<rightharpoonup> epoll_event" where
  "interest calls = foldl (\<lambda>m (req, r). if r < 0 then m else apply_ctl req m) Map.empty calls"

text \<open>epoll_ctl(2): an open descriptor that is not in the list can be added; one that is there can
  be changed and deleted.\<close>

definition epoll_documented :: "epoll_ctl \<Rightarrow> bool" where
  "epoll_documented ctl \<longleftrightarrow>
     (\<forall>calls req.
       (ctl_op req = EPOLL_CTL_ADD \<and> interest calls (ctl_fd req) = None \<longrightarrow> 0 \<le> ctl calls req) \<and>
       ((ctl_op req = EPOLL_CTL_MOD \<or> ctl_op req = EPOLL_CTL_DEL) \<and>
          interest calls (ctl_fd req) \<noteq> None \<longrightarrow> 0 \<le> ctl calls req))"

text \<open>A kernel that answers as documented: it fails with -1 in the other cases.\<close>

definition kernel_ctl :: epoll_ctl where
  "kernel_ctl calls req =
     (if (interest calls (ctl_fd req) = None) = (ctl_op req = EPOLL_CTL_ADD) then 0 else -1)"

lemma epoll_documented_kernel_ctl: "epoll_documented kernel_ctl"
  by (auto simp: epoll_documented_def kernel_ctl_def ctl_ops)

lemma interest_Nil [simp]: "interest [] = Map.empty"
  by (simp add: interest_def)

lemma interest_snoc [simp]:
  "interest (calls @ [(req, r)]) = (if r < 0 then interest calls else apply_ctl req (interest calls))"
  by (simp add: interest_def)

section \<open>The invariant\<close>

text \<open>The state of one registered channel: in the kernel's list with its events, or asking for
  nothing and out of the list.\<close>

definition epoll_entry :: "ctl_history \<Rightarrow> 'cb channel_heap \<Rightarrow> int \<Rightarrow> nat \<Rightarrow> bool" where
  "epoll_entry calls h fd a \<longleftrightarrow>
     (case h a of None \<Rightarrow> False
      | Some c \<Rightarrow> M_fd c = fd \<and>
          (M_index c = kAdded \<and> interest calls fd = Some \<lparr>ev_events = M_events c, ev_ptr = a\<rparr> \<or>
           M_index c = kDeleted \<and> M_events c = 0 \<and> interest calls fd = None))"

definition epoll_inv :: "'cb channel_heap \<Rightarrow> epoll_poller \<Rightarrow> bool" where
  "epoll_inv h p \<longleftrightarrow>
     (\<forall>fd. case M_channels p fd of
        None \<Rightarrow> interest (ctl_calls p) fd = None
      | Some a \<Rightarrow> epoll_entry (ctl_calls p) h fd a)"

definition epoll_watched :: "epoll_poller \<Rightarrow> int \<Rightarrow> int32" where
  "epoll_watched p fd =
     (case interest (ctl_calls p) fd of None \<Rightarrow> 0 | Some ev \<Rightarrow> ev_events ev)"

lemma new_EPollPoller_inv: "new_EPollPoller fd = Inr p \<Longrightarrow> epoll_inv h p"
  by (auto simp: new_EPollPoller_def epoll_inv_def split: if_splits)

lemma epoll_inv_registered:
  assumes "epoll_inv h p" and "M_channels p fd = Some a"
  obtains c where "h a = Some c" "M_fd c = fd"
    "M_index c = kAdded \<and> interest (ctl_calls p) fd = Some \<lparr>ev_events = M_events c, ev_ptr = a\<rparr> \<or>
     M_index c = kDeleted \<and> M_events c = 0 \<and> interest (ctl_calls p) fd = None"
proof -
  have "epoll_entry (ctl_calls p) h fd a"
    using assms by (auto simp: epoll_inv_def dest: spec [of _ fd])
  with that show ?thesis by (auto simp: epoll_entry_def split: option.splits)
qed

lemma epoll_inv_at:
  assumes "epoll_inv h p" and "M_channels p fd = Some a" and "h a = Some c"
  shows "M_index c = kAdded \<and> interest (ctl_calls p) fd = Some \<lparr>ev_events = M_events c, ev_ptr = a\<rparr> \<or>
     M_index c = kDeleted \<and> M_events c = 0 \<and> interest (ctl_calls p) fd = None"
  by (rule epoll_inv_registered [OF assms(1,2)]) (use assms(3) in simp)

lemma epoll_inv_free:
  "epoll_inv h p \<Longrightarrow> M_channels p fd = None \<Longrightarrow> interest (ctl_calls p) fd = None"
  by (auto simp: epoll_inv_def dest: spec [of _ fd])

text \<open>A change of one channel and its descriptor keeps the invariant of the others.\<close>

lemma epoll_inv_change:
  assumes "epoll_inv h p"
    and "\<And>fd. fd \<noteq> M_fd c \<Longrightarrow> M_channels p' fd = M_channels p fd"
    and "\<And>fd. fd \<noteq> M_fd c \<Longrightarrow> interest (ctl_calls p') fd = interest (ctl_calls p) fd"
    and "M_channels p' (M_fd c) = Some a \<and> epoll_entry (ctl_calls p') (h(a \<mapsto> c')) (M_fd c) a \<or>
      M_channels p' (M_fd c) = None \<and> interest (ctl_calls p') (M_fd c) = None"
    and "h a = Some c"
  shows "epoll_inv (h(a \<mapsto> c')) p'"
  unfolding epoll_inv_def
proof
  fix fd
  show "case M_channels p' fd of
      None \<Rightarrow> interest (ctl_calls p') fd = None
    | Some b \<Rightarrow> epoll_entry (ctl_calls p') (h(a \<mapsto> c')) fd b"
  proof (cases "fd = M_fd c")
    case True
    with assms(4) show ?thesis by auto
  next
    case False
    with assms(1,2,3,5) show ?thesis
      by (auto simp: epoll_inv_def epoll_entry_def dest!: spec [of _ fd] split: option.splits)
  qed
qed

lemma epoll_inv_new_channel:
  assumes "epoll_inv h p" and "\<forall>fd. M_channels p fd \<noteq> Some a"
  shows "epoll_inv (h(a \<mapsto> c)) p"
  unfolding epoll_inv_def
proof
  fix fd
  show "case M_channels p fd of None \<Rightarrow> interest (ctl_calls p) fd = None
      | Some b \<Rightarrow> epoll_entry (ctl_calls p) (h(a \<mapsto> c)) fd b"
    using assms by (cases "M_channels p fd") (auto simp: epoll_inv_def epoll_entry_def dest: spec [of _ fd])
qed

section \<open>Registration succeeds\<close>

text \<open>The poller after a call of \<^verbatim>\<open>epoll_ctl\<close> that succeeds.\<close>

definition ctl_done :: "epoll_ctl \<Rightarrow> int \<Rightarrow> nat \<Rightarrow> 'cb channel \<Rightarrow> epoll_poller \<Rightarrow> epoll_poller" where
  "ctl_done ctl operation a c p =
     (let req = \<lparr>ctl_op = operation, ctl_fd = M_fd c, ctl_event = \<lparr>ev_events = M_events c, ev_ptr = a\<rparr>\<rparr>
      in p\<lparr>ctl_calls := ctl_calls p @ [(req, ctl (ctl_calls p) req)]\<rparr>)"

lemma ctl_done_channels [simp]: "M_channels (ctl_done ctl operation a c p) = M_channels p"
  by (simp add: ctl_done_def Let_def)

lemma epoll_update_ok:
  assumes "epoll_documented ctl" and "h a = Some c"
    and "operation = EPOLL_CTL_ADD \<and> interest (ctl_calls p) (M_fd c) = None \<or>
      operation \<in> {EPOLL_CTL_MOD, EPOLL_CTL_DEL} \<and> interest (ctl_calls p) (M_fd c) \<noteq> None"
  shows "epoll_update ctl operation a h p = Inr (h, ctl_done ctl operation a c p)"
    and "interest (ctl_calls (ctl_done ctl operation a c p)) =
      (interest (ctl_calls p))(M_fd c :=
        if operation = EPOLL_CTL_DEL then None else Some \<lparr>ev_events = M_events c, ev_ptr = a\<rparr>)"
proof -
  let ?req = "\<lparr>ctl_op = operation, ctl_fd = M_fd c, ctl_event = \<lparr>ev_events = M_events c, ev_ptr = a\<rparr>\<rparr>"
  have "0 \<le> ctl (ctl_calls p) ?req"
    using assms(1,3) by (auto simp: epoll_documented_def dest!: spec2 [of _ "ctl_calls p" ?req])
  then show "epoll_update ctl operation a h p = Inr (h, ctl_done ctl operation a c p)"
    and "interest (ctl_calls (ctl_done ctl operation a c p)) =
      (interest (ctl_calls p))(M_fd c :=
        if operation = EPOLL_CTL_DEL then None else Some \<lparr>ev_events = M_events c, ev_ptr = a\<rparr>)"
    using assms(2) by (simp_all add: epoll_update_def ctl_done_def Let_def apply_ctl_def)
qed

lemma epoll_update_law:
  assumes doc: "epoll_documented ctl" and inv: "epoll_inv h p" and h: "h a = Some c"
    and fits: "fits (M_channels p) a c"
    and c': "c' = c\<lparr>M_events := ev, M_addedToLoop := True\<rparr>"
  shows "\<exists>p' i. epoll_updateChannel ctl True a (h(a \<mapsto> c')) p = Inr (watch h a c ev i, p') \<and>
    epoll_inv (watch h a c ev i) p' \<and> M_channels p' = (M_channels p)(M_fd c \<mapsto> a)"
proof -
  let ?w = "watched_channel c ev"
  have entry: "epoll_inv (watch h a c ev i) p'"
    if "M_channels p' = (M_channels p)(M_fd c \<mapsto> a)"
      "interest (ctl_calls p') = (interest (ctl_calls p))(M_fd c := e)"
      "i = kAdded \<and> e = Some \<lparr>ev_events = ev, ev_ptr = a\<rparr> \<or> i = kDeleted \<and> ev = 0 \<and> e = None" for p' i e
    unfolding watch_def
    by (rule epoll_inv_change [OF inv _ _ _ h]) (use that in \<open>auto simp: epoll_entry_def\<close>)
  consider (new) "M_index c = kNew" "M_channels p (M_fd c) = None" "interest (ctl_calls p) (M_fd c) = None"
    | (deleted) "M_index c = kDeleted" "M_channels p (M_fd c) = Some a" "interest (ctl_calls p) (M_fd c) = None"
    | (added) "M_index c = kAdded" "M_channels p (M_fd c) = Some a" "interest (ctl_calls p) (M_fd c) \<noteq> None"
  proof (cases "M_channels p (M_fd c) = Some a")
    case True
    with epoll_inv_at [OF inv True h] deleted added show ?thesis by auto
  next
    case False
    with fits epoll_inv_free [OF inv] new show ?thesis by (auto simp: fits_def kNew_def)
  qed
  then show ?thesis
  proof cases
    case new
    let ?p = "p\<lparr>M_channels := (M_channels p)(M_fd c \<mapsto> a)\<rparr>"
    note u = epoll_update_ok [OF doc, of "h(a \<mapsto> ?w kAdded)" a "?w kAdded" EPOLL_CTL_ADD ?p]
    have "epoll_updateChannel ctl True a (h(a \<mapsto> c')) p =
        Inr (watch h a c ev kAdded, ctl_done ctl EPOLL_CTL_ADD a (?w kAdded) ?p)"
      using u(1) new by (simp add: epoll_updateChannel_def c' set_index_def watch_def watched_channel_def)
    moreover have "epoll_inv (watch h a c ev kAdded) (ctl_done ctl EPOLL_CTL_ADD a (?w kAdded) ?p)"
      by (rule entry) (use u(2) new in \<open>auto simp: ctl_ops\<close>)
    ultimately show ?thesis by auto
  next
    case deleted
    note u = epoll_update_ok [OF doc, of "h(a \<mapsto> ?w kAdded)" a "?w kAdded" EPOLL_CTL_ADD p]
    have "epoll_updateChannel ctl True a (h(a \<mapsto> c')) p =
        Inr (watch h a c ev kAdded, ctl_done ctl EPOLL_CTL_ADD a (?w kAdded) p)"
      using u(1) deleted
      by (simp add: epoll_updateChannel_def c' set_index_def watch_def watched_channel_def index_states)
    moreover have "epoll_inv (watch h a c ev kAdded) (ctl_done ctl EPOLL_CTL_ADD a (?w kAdded) p)"
      by (rule entry) (use u(2) deleted in \<open>auto simp: ctl_ops\<close>)
    ultimately show ?thesis using deleted by (auto simp: fun_upd_idem)
  next
    case added
    have c'_eq: "c' = ?w kAdded" using added(1) by (cases c) (simp add: c' watched_channel_def)
    let ?op = "if ev = 0 then EPOLL_CTL_DEL else EPOLL_CTL_MOD"
    let ?i = "if ev = 0 then kDeleted else kAdded"
    note u = epoll_update_ok [OF doc, of "h(a \<mapsto> ?w kAdded)" a "?w kAdded" ?op p]
    have "epoll_updateChannel ctl True a (h(a \<mapsto> c')) p =
        Inr (watch h a c ev ?i, ctl_done ctl ?op a (?w kAdded) p)"
      using u(1) added unfolding c'_eq
      by (cases "ev = 0") (simp_all add: epoll_updateChannel_def set_index_def watch_def
          watched_channel_def index_states isNoneEvent_def kNoneEvent_def)
    moreover have "epoll_inv (watch h a c ev ?i) (ctl_done ctl ?op a (?w kAdded) p)"
      by (rule entry) (use u(2) added in \<open>auto simp: ctl_ops\<close>)
    ultimately show ?thesis using added by (auto simp: fun_upd_idem)
  qed
qed

lemma epoll_remove_law:
  assumes doc: "epoll_documented ctl" and inv: "epoll_inv h p" and h: "h a = Some c"
    and reg: "M_channels p (M_fd c) = Some a" and none: "M_events c = 0"
    and c': "c' = c\<lparr>M_addedToLoop := False\<rparr>"
  shows "\<exists>h' p'. epoll_removeChannel ctl True a (h(a \<mapsto> c')) p = Inr (h', p') \<and> epoll_inv h' p' \<and>
    same_but_index (h(a \<mapsto> c')) h' \<and> M_channels p' = (M_channels p)(M_fd c := None)"
proof -
  let ?p = "p\<lparr>M_channels := (M_channels p)(M_fd c := None)\<rparr>"
  let ?h = "h(a \<mapsto> set_index kNew c')"
  have entry: "epoll_inv ?h p'"
    if "M_channels p' = (M_channels p)(M_fd c := None)"
      "interest (ctl_calls p') = (interest (ctl_calls p))(M_fd c := None)" for p'
    by (rule epoll_inv_change [OF inv _ _ _ h]) (use that in auto)
  have same: "same_but_index (h(a \<mapsto> c')) ?h"
    using same_but_index_upd [of "h(a \<mapsto> c')" a c' kNew] by (simp add: set_index_def)
  from epoll_inv_at [OF inv reg h] consider
    (deleted) "M_index c = kDeleted" "interest (ctl_calls p) (M_fd c) = None"
    | (added) "M_index c = kAdded" "interest (ctl_calls p) (M_fd c) \<noteq> None" by auto
  then show ?thesis
  proof cases
    case deleted
    then have "epoll_removeChannel ctl True a (h(a \<mapsto> c')) p = Inr (?h, ?p)"
      using reg none
      by (simp add: epoll_removeChannel_def c' isNoneEvent_def kNoneEvent_def index_states)
    moreover have "epoll_inv ?h ?p" by (rule entry) (use deleted in \<open>simp_all add: fun_upd_idem\<close>)
    ultimately show ?thesis using same by auto
  next
    case added
    note u = epoll_update_ok [OF doc, of "h(a \<mapsto> c')" a c' EPOLL_CTL_DEL ?p]
    have "epoll_removeChannel ctl True a (h(a \<mapsto> c')) p = Inr (?h, ctl_done ctl EPOLL_CTL_DEL a c' ?p)"
      using u(1) reg none added
      by (simp add: epoll_removeChannel_def c' isNoneEvent_def kNoneEvent_def)
    moreover have "epoll_inv ?h (ctl_done ctl EPOLL_CTL_DEL a c' ?p)"
      by (rule entry) (use u(2) added in \<open>auto simp: c'\<close>)
    ultimately show ?thesis using same by auto
  qed
qed

section \<open>The contract of a poller\<close>

text \<open>With a kernel that keeps to the documentation, \<^verbatim>\<open>EPollPoller\<close> is a poller for which the kernel
  watches what the channels ask for.\<close>

locale epoll_kernel =
  fixes ctl :: epoll_ctl
  assumes documented: "epoll_documented ctl"

sublocale epoll_kernel \<subseteq> epoller: watching_poller epoll_inv M_channels
  "epoll_updateChannel ctl True" "epoll_removeChannel ctl True" "\<lambda>_ _ _. True" epoll_watched
proof
  fix h :: "'a channel_heap" and p fd a
  assume "epoll_inv h p" "M_channels p fd = Some a"
  then show "\<exists>c. h a = Some c \<and> M_fd c = fd \<and> 0 \<le> M_index c"
    by (auto simp: index_states elim: epoll_inv_registered)
next
  fix h :: "'a channel_heap" and p a c c' ev
  assume "epoll_inv h p" "h a = Some c" "0 \<le> M_fd c" "fits (M_channels p) a c"
    "c' = c\<lparr>M_events := ev, M_addedToLoop := True\<rparr>"
  then show "\<exists>p' i. epoll_updateChannel ctl True a (h(a \<mapsto> c')) p = Inr (watch h a c ev i, p') \<and>
      epoll_inv (watch h a c ev i) p' \<and> M_channels p' = (M_channels p)(M_fd c \<mapsto> a) \<and>
      (ev = 0 \<and> 0 \<le> M_index c \<longrightarrow> True)"
    using epoll_update_law [OF documented, of h p a c c' ev] by simp
next
  fix h :: "'a channel_heap" and p a c c'
  assume "epoll_inv h p" "h a = Some c" "M_channels p (M_fd c) = Some a" "M_events c = 0" True
    "c' = c\<lparr>M_addedToLoop := False\<rparr>"
  then show "\<exists>h' p'. epoll_removeChannel ctl True a (h(a \<mapsto> c')) p = Inr (h', p') \<and> epoll_inv h' p' \<and>
      same_but_index (h(a \<mapsto> c')) h' \<and> M_channels p' = (M_channels p)(M_fd c := None)"
    using epoll_remove_law [OF documented, of h p a c c'] by simp
next
  fix h :: "'a channel_heap" and p fd a c
  assume "epoll_inv h p" "M_channels p fd = Some a" "h a = Some c"
  then show "epoll_watched p fd = M_events c"
    by (auto simp: epoll_watched_def elim: epoll_inv_registered)
qed

context epoll_kernel
begin

lemmas channel_lifecycle = epoller.lifecycle
lemmas requested_events_watched = epoller.calls_watched

end

interpretation documented_kernel: epoll_kernel kernel_ctl
  by standard (rule epoll_documented_kernel_ctl)

section \<open>Delivery of events\<close>

text \<open>The channels with the events that were reported for them.\<close>

definition delivered :: "epoll_event list \<Rightarrow> 'cb channel_heap \<Rightarrow> 'cb channel_heap" where
  "delivered evs h = (\<lambda>a. case map_of (map (\<lambda>ev. (ev_ptr ev, ev_events ev)) evs) a of
     None \<Rightarrow> h a | Some r \<Rightarrow> map_option (set_revents r) (h a))"

lemma delivered_Nil [simp]: "delivered [] h = h"
  by (simp add: delivered_def)

lemma map_of_ptr_None:
  "a \<notin> ev_ptr ` set evs \<Longrightarrow> map_of (map (\<lambda>ev. (ev_ptr ev, ev_events ev)) evs) a = None"
  by (auto simp: map_of_eq_None_iff)

lemma delivered_Cons:
  assumes "h (ev_ptr ev) = Some c" and "ev_ptr ev \<notin> ev_ptr ` set evs"
  shows "delivered (ev # evs) h = delivered evs (h(ev_ptr ev \<mapsto> set_revents (ev_events ev) c))"
  using assms by (auto simp: delivered_def fun_eq_iff map_of_ptr_None split: option.splits)

lemma fill_delivers:
  assumes "\<forall>ev \<in> set evs. \<exists>c. h (ev_ptr ev) = Some c \<and> chans (M_fd c) \<noteq> None"
    and "distinct (map ev_ptr evs)"
  shows "foldr_res (\<lambda>ev (h, active).
      with_channel h (ev_ptr ev) (\<lambda>c. assertr (chans (M_fd c) \<noteq> None) msg
        (Inr (h(ev_ptr ev \<mapsto> set_revents (ev_events ev) c), active @ [ev_ptr ev])))) evs (h, active) =
    Inr (delivered evs h, active @ map ev_ptr evs)"
  using assms
proof (induction evs arbitrary: h active)
  case Nil
  then show ?case by simp
next
  case (Cons ev evs)
  from Cons.prems obtain c where c: "h (ev_ptr ev) = Some c" "chans (M_fd c) \<noteq> None"
    and notin: "ev_ptr ev \<notin> ev_ptr ` set evs" by auto
  let ?h = "h(ev_ptr ev \<mapsto> set_revents (ev_events ev) c)"
  have "\<forall>e \<in> set evs. \<exists>d. ?h (ev_ptr e) = Some d \<and> chans (M_fd d) \<noteq> None"
    using Cons.prems(1) notin by (auto simp: image_iff)
  from Cons.IH [OF this, of "active @ [ev_ptr ev]"] Cons.prems(2) c
  show ?case by (simp add: delivered_Cons [of h ev c evs, OF c(1) notin] fun_upd_def)
qed

lemma epoll_inv_eventlist [simp]: "epoll_inv h (p\<lparr>M_eventlist := evs\<rparr>) = epoll_inv h p"
  by (simp add: epoll_inv_def cong: option.case_cong)

lemma epoll_entry_delivered [simp]: "epoll_entry calls (delivered evs h) fd a = epoll_entry calls h fd a"
  by (auto simp: epoll_entry_def delivered_def set_revents_def split: option.splits)

lemma epoll_inv_delivered: "epoll_inv h p \<Longrightarrow> epoll_inv (delivered evs h) p"
  by (simp add: epoll_inv_def cong: option.case_cong)

text \<open>epoll_wait(2): the events it stores belong to distinct entries of the interest list, there
  are as many as it returns, and at most as many as there is room for.\<close>

definition epoll_wait_documented :: "epoll_poller \<Rightarrow> int \<times> epoll_event list \<Rightarrow> bool" where
  "epoll_wait_documented p r \<longleftrightarrow>
     length (snd r) = nat (fst r) \<and> length (snd r) \<le> length (M_eventlist p) \<and>
     distinct (map ev_ptr (snd r)) \<and>
     (\<forall>ev \<in> set (snd r). \<exists>fd e. interest (ctl_calls p) fd = Some e \<and> ev_ptr e = ev_ptr ev)"

lemma interest_channel:
  assumes "epoll_inv h p" and "interest (ctl_calls p) fd = Some e"
  shows "\<exists>c. h (ev_ptr e) = Some c \<and> M_channels p (M_fd c) \<noteq> None"
proof (cases "M_channels p fd")
  case None
  with epoll_inv_free [OF assms(1)] assms(2) show ?thesis by simp
next
  case (Some a)
  then obtain c where "h a = Some c" "M_fd c = fd" "e = \<lparr>ev_events = M_events c, ev_ptr = a\<rparr>"
    using assms(2) by (auto elim!: epoll_inv_registered [OF assms(1)])
  with Some show ?thesis by simp
qed

section \<open>Properties\<close>

text \<open>C6. Whatever sequence of enable and disable calls is made on a channel, \<^verbatim>\<open>EPollPoller\<close> accepts
  every one of them and at the end the kernel watches the descriptor for exactly the events the
  calls add up to.\<close>

theorem epoll_watches_requested_events:
  assumes "epoll_documented ctl" and "epoll_inv h p" and "h a = Some c" and "0 \<le> M_fd c"
    and "fits (M_channels p) a c" and "ks \<noteq> []"
  shows "\<exists>h' p'. run_chan_calls (epoll_updateChannel ctl True) ks a h p = Inr (h', p') \<and>
    epoll_inv h' p' \<and> epoll_watched p' (M_fd c) = fold events_after ks (M_events c)"
  using epoll_kernel.intro [OF assms(1)] assms(2-)
  by (rule epoll_kernel.requested_events_watched)

definition fresh_channel :: "nat channel" where
  "fresh_channel = new_Channel 0 5"

definition sample_poller :: epoll_poller where
  "sample_poller = \<lparr>M_channels = Map.empty, M_epollfd = 3,
     M_eventlist = replicate 16 no_event, ctl_calls = []\<rparr>"

theorem epoll_watches_requested_events_witness:
  "\<exists>h' p'. run_chan_calls (epoll_updateChannel kernel_ctl True)
      [EnableReading, EnableWriting, DisableAll, EnableReading] 9 [9 \<mapsto> fresh_channel] sample_poller
      = Inr (h', p') \<and> epoll_inv h' p' \<and>
    epoll_watched p' (M_fd fresh_channel) =
      fold events_after [EnableReading, EnableWriting, DisableAll, EnableReading] (M_events fresh_channel)"
  by (rule epoll_watches_requested_events [OF epoll_documented_kernel_ctl,
        of "[9 \<mapsto> fresh_channel]" sample_poller 9])
    (simp_all add: epoll_inv_def sample_poller_def fits_def fresh_channel_def new_Channel_def)

text \<open>C21. When \<^verbatim>\<open>epoll_wait\<close> reports events, the poll fails no assertion: the reported channels are
  appended to the active channels in the reported order, each with exactly the events reported
  for it, every other channel is unchanged, and the room for events is doubled when it was
  used up.\<close>

theorem epoll_poll_delivers:
  assumes "epoll_inv h p" and "epoll_wait_documented p (n, evs)"
  shows "\<exists>p'. epoll_poll (n, evs) tnow h p active = Inr (tnow, delivered evs h, p', active @ map ev_ptr evs) \<and>
    epoll_inv (delivered evs h) p' \<and>
    length (M_eventlist p') =
      (if 0 < n \<and> length evs = length (M_eventlist p) then 2 else 1) * length (M_eventlist p)"
proof (cases "0 < n")
  case True
  let ?p = "p\<lparr>M_eventlist := evs @ drop (length evs) (M_eventlist p)\<rparr>"
  have len: "length evs = nat n" "length evs \<le> length (M_eventlist p)" and dist: "distinct (map ev_ptr evs)"
    and int: "\<forall>ev \<in> set evs. \<exists>fd e. interest (ctl_calls p) fd = Some e \<and> ev_ptr e = ev_ptr ev"
    using assms(2) by (auto simp: epoll_wait_documented_def)
  have "\<forall>ev \<in> set evs. \<exists>c. h (ev_ptr ev) = Some c \<and> M_channels p (M_fd c) \<noteq> None"
    using int interest_channel [OF assms(1)] by metis
  then have "epoll_fillActiveChannels n h ?p active = Inr (delivered evs h, active @ map ev_ptr evs)"
    using fill_delivers [of evs h "M_channels p", OF _ dist] len
    by (simp add: epoll_fillActiveChannels_def)
  with True len epoll_inv_delivered [OF assms(1)] show ?thesis
    by (auto simp: epoll_poll_def Let_def)
next
  case False
  with assms show ?thesis
    by (auto simp: epoll_wait_documented_def epoll_poll_def Let_def)
qed

definition sample_added :: epoll_poller where
  "sample_added = sample_poller\<lparr>M_channels := [5 \<mapsto> 9],
     ctl_calls := [(\<lparr>ctl_op = EPOLL_CTL_ADD, ctl_fd = 5, ctl_event = \<lparr>ev_events = 3, ev_ptr = 9\<rparr>\<rparr>, 0)]\<rparr>"

theorem epoll_poll_delivers_witness:
  "\<exists>p'. epoll_poll (1, [\<lparr>ev_events = 1, ev_ptr = 9\<rparr>]) (Timestamp 70)
      [9 \<mapsto> fresh_channel\<lparr>M_events := 3, M_index := kAdded\<rparr>] sample_added [] =
    Inr (Timestamp 70, delivered [\<lparr>ev_events = 1, ev_ptr = 9\<rparr>]
        [9 \<mapsto> fresh_channel\<lparr>M_events := 3, M_index := kAdded\<rparr>], p', [] @ map ev_ptr [\<lparr>ev_events = 1, ev_ptr = 9\<rparr>]) \<and>
    epoll_inv (delivered [\<lparr>ev_events = 1, ev_ptr = 9\<rparr>]
        [9 \<mapsto> fresh_channel\<lparr>M_events := 3, M_index := kAdded\<rparr>]) p' \<and>
    length (M_eventlist p') = (if 0 < (1 :: int) \<and> length [\<lparr>ev_events = 1, ev_ptr = 9\<rparr>] =
        length (M_eventlist sample_added) then 2 else 1) * length (M_eventlist sample_added)"
  by (rule epoll_poll_delivers)
    (simp_all add: epoll_inv_def epoll_entry_def sample_added_def sample_poller_def interest_def
      apply_ctl_def ctl_ops fresh_channel_def new_Channel_def epoll_wait_documented_def)

end
