(* ===== verification/PollPoller.thy ===== *)
theory PollPoller
  imports Poller
begin

text \<open>
  The class \<^verbatim>\<open>PollPoller\<close> (include/PollPoller.h, src/PollPoller.cpp). The system call \<^verbatim>\<open>poll\<close> is
  the value it returns and the \<^verbatim>\<open>revents\<close> it stores.
\<close>

section \<open>PollPoller\<close>

record pollfd =
  pfd_fd :: int
  pfd_events :: int16
  pfd_revents :: int16

record poll_poller = poller_base +
  M_pollfds :: "pollfd list"

definition new_PollPoller :: poll_poller where
  "new_PollPoller = \<lparr>M_channels = Map.empty, M_pollfds = []\<rparr>"

text \<open>The loop over the entries, until as many entries with events are seen as \<^verbatim>\<open>poll\<close> counted.\<close>

fun fill_pollfds :: "(int \<rightharpoonup> nat) \<Rightarrow> int \<Rightarrow> pollfd list \<Rightarrow> 'cb channel_heap \<times> nat list \<Rightarrow>
    ('cb channel_heap \<times> nat list) res" where
  "fill_pollfds chans numEvents [] s = Inr s"
| "fill_pollfds chans numEvents (pfd # pfds) (h, active) =
     (if numEvents > 0 then
        if sint (pfd_revents pfd) > 0 then
          (case chans (pfd_fd pfd) of
             None \<Rightarrow> Inl (AssertFailed ''ch != M_channels.end()'')
           | Some a \<Rightarrow> with_channel h a (\<lambda>c.
               assertr (M_fd c = pfd_fd pfd) ''channel->fd() == pfd->fd''
                 (fill_pollfds chans (numEvents - 1) pfds
                    (h(a \<mapsto> set_revents (scast (pfd_revents pfd)) c), active @ [a]))))
        else fill_pollfds chans numEvents pfds (h, active)
      else Inr (h, active))"

definition poll_fillActiveChannels ::
  "int \<Rightarrow> 'cb channel_heap \<Rightarrow> poll_poller \<Rightarrow> nat list \<Rightarrow> ('cb channel_heap \<times> nat list) res" where
  "poll_fillActiveChannels numEvents h p activeChannels =
     fill_pollfds (M_channels p) numEvents (M_pollfds p) (h, activeChannels)"

text \<open>\<open>poll\<close> is the number it returns and the \<^verbatim>\<open>revents\<close> it stores, one for each entry.\<close>

definition poll_poll :: "int \<times> int16 list \<Rightarrow> timestamp \<Rightarrow> 'cb channel_heap \<Rightarrow> poll_poller \<Rightarrow>
    nat list \<Rightarrow> (timestamp \<times> 'cb channel_heap \<times> poll_poller \<times> nat list) res" where
  "poll_poll poll tnow h p activeChannels =
     (let numEvents = fst poll;
          p = p\<lparr>M_pollfds := map2 (\<lambda>pfd r. pfd\<lparr>pfd_revents := r\<rparr>) (M_pollfds p) (snd poll)\<rparr>
      in if numEvents > 0 then
           bindr (poll_fillActiveChannels numEvents h p activeChannels) (\<lambda>(h, active).
             Inr (tnow, h, p, active))
         else Inr (tnow, h, p, activeChannels))"

definition poll_updateChannel :: "bool \<Rightarrow> ('cb, poll_poller) chan_op" where
  "poll_updateChannel inLoop a h p =
     assertInLoopThread inLoop (with_channel h a (\<lambda>c.
       if M_index c < 0 then
         assertr (M_channels p (M_fd c) = None) ''M_channels.find(channel->fd()) == M_channels.end()''
           (let pfd = \<lparr>pfd_fd = M_fd c, pfd_events = ucast (M_events c), pfd_revents = 0\<rparr>;
                pfds = M_pollfds p @ [pfd];
                idx = int (length pfds) - 1
            in Inr (h(a \<mapsto> set_index idx c),
                 p\<lparr>M_pollfds := pfds, M_channels := (M_channels p)(pfd_fd pfd \<mapsto> a)\<rparr>))
       else
         assertr (M_channels p (M_fd c) \<noteq> None) ''M_channels.find(channel->fd()) != M_channels.end()''
         (assertr (M_channels p (M_fd c) = Some a) ''M_channels[channel->fd()] == channel''
           (let idx = M_index c in
            assertr (0 \<le> idx \<and> idx < int (length (M_pollfds p))) ''0 <= idx && idx < M_pollfds.size()''
              (let pfd = M_pollfds p ! nat idx in
               assertr (pfd_fd pfd = M_fd c \<or> pfd_fd pfd = - M_fd c - 1)
                 ''pfd.fd == channel.fd() || pfd.fd == -channel.fd()-1''
                 (let pfd = pfd\<lparr>pfd_events := ucast (M_events c), pfd_revents := 0\<rparr>;
                      pfd = (if isNoneEvent c then pfd\<lparr>pfd_fd := - M_fd c - 1\<rparr> else pfd)
                  in Inr (h, p\<lparr>M_pollfds := (M_pollfds p)[nat idx := pfd]\<rparr>)))))))"

definition poll_removeChannel :: "bool \<Rightarrow> ('cb, poll_poller) chan_op" where
  "poll_removeChannel inLoop a h p =
     assertInLoopThread inLoop (with_channel h a (\<lambda>c.
       assertr (M_channels p (M_fd c) \<noteq> None) ''M_channels.find(channel->fd()) != M_channels.end()''
       (assertr (M_channels p (M_fd c) = Some a) ''M_channels[channel->fd] == channel''
       (assertr (isNoneEvent c) ''channel->isNoneEvent()''
         (let idx = M_index c in
          assertr (0 \<le> idx \<and> idx < int (length (M_pollfds p))) ''0 <= idx && idx < M_pollfds.size()''
            (let pfd = M_pollfds p ! nat idx in
             assertr (pfd_fd pfd = - M_fd c - 1 \<and>
                 scast (pfd_events pfd) = M_events c)
               ''pfd.fd == -channel->fd()-1 && pfd.events == channel->events()''
               (let chans = (M_channels p)(M_fd c := None) in
                if nat idx = length (M_pollfds p) - 1 then
                  Inr (h, p\<lparr>M_channels := chans, M_pollfds := butlast (M_pollfds p)\<rparr>)
                else
                  let end_pfd = last (M_pollfds p);
                      channelAtEnd = pfd_fd end_pfd;
                      pfds = (M_pollfds p)[nat idx := end_pfd, length (M_pollfds p) - 1 := pfd];
                      channelAtEnd = (if channelAtEnd < 0 then - channelAtEnd - 1 else channelAtEnd)
                  in case chans channelAtEnd of
                       None \<Rightarrow> Inl (DanglingPointer ''M_channels[channelAtEnd]'')
                     | Some b \<Rightarrow> with_channel h b (\<lambda>d.
                         Inr (h(b \<mapsto> set_index idx d),
                           p\<lparr>M_channels := chans, M_pollfds := butlast pfds\<rparr>)))))))))"

section \<open>The invariant\<close>

text \<open>The descriptor an entry stands for; an entry that is switched off holds \<open>-fd-1\<close>.\<close>

definition slot_fd :: "pollfd \<Rightarrow> int" where
  "slot_fd pfd = (if pfd_fd pfd < 0 then - pfd_fd pfd - 1 else pfd_fd pfd)"

text \<open>The channel \<open>a\<close> of descriptor \<open>fd\<close> has the entry with index \<open>i\<close>.\<close>

definition poll_entry :: "pollfd list \<Rightarrow> 'cb channel_heap \<Rightarrow> int \<Rightarrow> nat \<Rightarrow> nat \<Rightarrow> bool" where
  "poll_entry pfds h fd a i \<longleftrightarrow>
     (case h a of None \<Rightarrow> False
      | Some c \<Rightarrow> M_fd c = fd \<and> 0 \<le> fd \<and> M_index c = int i \<and> i < length pfds \<and>
          slot_fd (pfds ! i) = fd \<and> pfd_events (pfds ! i) = ucast (M_events c))"

text \<open>Channels and entries correspond to each other.\<close>

definition poll_inv :: "'cb channel_heap \<Rightarrow> poll_poller \<Rightarrow> bool" where
  "poll_inv h p \<longleftrightarrow>
     (\<forall>fd a. M_channels p fd = Some a \<longrightarrow> (\<exists>i. poll_entry (M_pollfds p) h fd a i)) \<and>
     (\<forall>i < length (M_pollfds p). \<exists>a. M_channels p (slot_fd (M_pollfds p ! i)) = Some a \<and>
        poll_entry (M_pollfds p) h (slot_fd (M_pollfds p ! i)) a i)"

text \<open>The entry of the channel is switched off.\<close>

definition switched_off :: "nat \<Rightarrow> 'cb channel_heap \<Rightarrow> poll_poller \<Rightarrow> bool" where
  "switched_off a h p \<longleftrightarrow>
     (\<exists>c. h a = Some c \<and> pfd_fd (M_pollfds p ! nat (M_index c)) = - M_fd c - 1)"

lemma new_PollPoller_inv: "poll_inv h new_PollPoller"
  by (simp add: poll_inv_def new_PollPoller_def)

lemma new_PollPoller_channels [simp]: "M_channels new_PollPoller = Map.empty"
  by (simp add: new_PollPoller_def)

lemma poll_inv_channel:
  "poll_inv h p \<Longrightarrow> M_channels p fd = Some a \<Longrightarrow> \<exists>i. poll_entry (M_pollfds p) h fd a i"
  by (simp add: poll_inv_def)

lemma poll_inv_slot:
  assumes "poll_inv h p" and "i < length (M_pollfds p)"
  obtains a where "M_channels p (slot_fd (M_pollfds p ! i)) = Some a"
    "poll_entry (M_pollfds p) h (slot_fd (M_pollfds p ! i)) a i"
  using assms by (auto simp: poll_inv_def)

lemma poll_entry_channel:
  "poll_entry pfds h fd a i \<Longrightarrow> \<exists>c. h a = Some c \<and> M_fd c = fd \<and> 0 \<le> fd \<and> M_index c = int i \<and>
     i < length pfds \<and> slot_fd (pfds ! i) = fd \<and> pfd_events (pfds ! i) = ucast (M_events c)"
  by (auto simp: poll_entry_def split: option.splits)

lemma slot_fd_cases: "slot_fd pfd = fd \<Longrightarrow> pfd_fd pfd = fd \<or> pfd_fd pfd = - fd - 1"
  by (auto simp: slot_fd_def split: if_splits)

lemma poll_inv_new_channel:
  assumes "poll_inv h p" and "\<forall>fd. M_channels p fd \<noteq> Some a"
  shows "poll_inv (h(a \<mapsto> c)) p"
proof -
  have "poll_entry (M_pollfds p) (h(a \<mapsto> c)) fd b i = poll_entry (M_pollfds p) h fd b i"
    if "M_channels p fd = Some b" for fd b i
    using assms(2) that by (auto simp: poll_entry_def)
  with assms(1) show ?thesis unfolding poll_inv_def by metis
qed

section \<open>Registration\<close>

lemma poll_inv_append:
  assumes inv: "poll_inv h p" and h: "h a = Some c" and free: "M_channels p (M_fd c) = None"
    and fd: "0 \<le> M_fd c"
  shows "poll_inv (watch h a c ev (int (length (M_pollfds p))))
    (p\<lparr>M_pollfds := M_pollfds p @ [\<lparr>pfd_fd = M_fd c, pfd_events = ucast ev, pfd_revents = 0\<rparr>],
       M_channels := (M_channels p)(M_fd c \<mapsto> a)\<rparr>)"
    (is "poll_inv ?h ?p")
proof -
  have old: "poll_entry (M_pollfds ?p) ?h fd b i"
    if "poll_entry (M_pollfds p) h fd b i" "M_channels p fd = Some b" for fd b i
    using that free h
    by (auto simp: poll_entry_def watch_def nth_append split: option.splits if_splits)
  have new: "poll_entry (M_pollfds ?p) ?h (M_fd c) a (length (M_pollfds p))"
    using fd by (simp add: poll_entry_def slot_fd_def)
  show ?thesis
    unfolding poll_inv_def
  proof (intro conjI allI impI)
    fix fd b
    assume "M_channels ?p fd = Some b"
    then show "\<exists>i. poll_entry (M_pollfds ?p) ?h fd b i"
      using new old poll_inv_channel [OF inv, of fd b] by (cases "fd = M_fd c") (simp_all, blast+)
  next
    fix i
    assume "i < length (M_pollfds ?p)"
    then consider "i = length (M_pollfds p)" | "i < length (M_pollfds p)" by fastforce
    then show "\<exists>b. M_channels ?p (slot_fd (M_pollfds ?p ! i)) = Some b \<and>
        poll_entry (M_pollfds ?p) ?h (slot_fd (M_pollfds ?p ! i)) b i"
    proof cases
      case 1
      with new fd show ?thesis by (auto simp: slot_fd_def)
    next
      case 2
      then obtain b where "M_channels p (slot_fd (M_pollfds p ! i)) = Some b"
        "poll_entry (M_pollfds p) h (slot_fd (M_pollfds p ! i)) b i"
        by (rule poll_inv_slot [OF inv])
      with old 2 free show ?thesis by (auto simp: nth_append)
    qed
  qed
qed

lemma poll_inv_replace:
  assumes inv: "poll_inv h p" and h: "h a = Some c" and reg: "M_channels p (M_fd c) = Some a"
    and i: "M_index c = int i" and pfd: "slot_fd pfd = M_fd c" "pfd_events pfd = ucast ev"
  shows "poll_inv (watch h a c ev (int i)) (p\<lparr>M_pollfds := (M_pollfds p)[i := pfd]\<rparr>)"
    (is "poll_inv ?h ?p")
proof -
  obtain j where j: "poll_entry (M_pollfds p) h (M_fd c) a j" using poll_inv_channel [OF inv reg] by blast
  then have at: "i < length (M_pollfds p)" "slot_fd (M_pollfds p ! i) = M_fd c" "0 \<le> M_fd c"
    using i h by (auto simp: poll_entry_def)
  have other: "poll_entry (M_pollfds ?p) ?h fd b k"
    if "poll_entry (M_pollfds p) h fd b k" "fd \<noteq> M_fd c" for fd b k
    using that at h
    by (auto simp: poll_entry_def watch_def nth_list_update split: option.splits if_splits)
  have entry: "poll_entry (M_pollfds ?p) ?h (M_fd c) a i"
    using at pfd by (simp add: poll_entry_def)
  show ?thesis
    unfolding poll_inv_def
  proof (intro conjI allI impI)
    fix fd b
    assume "M_channels ?p fd = Some b"
    then show "\<exists>k. poll_entry (M_pollfds ?p) ?h fd b k"
      using entry other reg poll_inv_channel [OF inv, of fd b]
      by (cases "fd = M_fd c") (simp_all, blast+)
  next
    fix k
    assume k: "k < length (M_pollfds ?p)"
    show "\<exists>b. M_channels ?p (slot_fd (M_pollfds ?p ! k)) = Some b \<and>
        poll_entry (M_pollfds ?p) ?h (slot_fd (M_pollfds ?p ! k)) b k"
    proof (cases "k = i")
      case True
      with entry at pfd reg show ?thesis by auto
    next
      case False
      from k have "k < length (M_pollfds p)" by simp
      then obtain b where b: "M_channels p (slot_fd (M_pollfds p ! k)) = Some b"
        "poll_entry (M_pollfds p) h (slot_fd (M_pollfds p ! k)) b k"
        by (rule poll_inv_slot [OF inv])
      have "slot_fd (M_pollfds p ! k) \<noteq> M_fd c"
        using b reg False i h by (auto simp: poll_entry_def)
      with b other False show ?thesis by auto
    qed
  qed
qed

lemma poll_update_law:
  assumes inv: "poll_inv h p" and h: "h a = Some c" and fd: "0 \<le> M_fd c"
    and fits: "fits (M_channels p) a c" and c': "c' = c\<lparr>M_events := ev, M_addedToLoop := True\<rparr>"
  shows "\<exists>p' i. poll_updateChannel True a (h(a \<mapsto> c')) p = Inr (watch h a c ev i, p') \<and>
    poll_inv (watch h a c ev i) p' \<and> M_channels p' = (M_channels p)(M_fd c \<mapsto> a) \<and>
    (ev = 0 \<and> 0 \<le> M_index c \<or> switched_off a h p \<and> M_channels p (M_fd c) = Some a \<longrightarrow>
      switched_off a (watch h a c ev i) p')"
proof (cases "M_channels p (M_fd c) = Some a")
  case True
  obtain i where "poll_entry (M_pollfds p) h (M_fd c) a i" using poll_inv_channel [OF inv True] by blast
  then have at: "M_index c = int i" "i < length (M_pollfds p)" "slot_fd (M_pollfds p ! i) = M_fd c"
    using h by (auto simp: poll_entry_def)
  define pfd where "pfd = (M_pollfds p ! i)\<lparr>pfd_events := ucast ev, pfd_revents := 0\<rparr>"
  define q where "q = (if ev = 0 then pfd\<lparr>pfd_fd := - M_fd c - 1\<rparr> else pfd)"
  have q: "slot_fd q = M_fd c" "pfd_events q = ucast ev"
    using at(3) fd by (auto simp: q_def pfd_def slot_fd_def)
  have w: "watch h a c ev (int i) = h(a \<mapsto> c')"
    using at(1) by (cases c) (simp add: watch_def watched_channel_def c')
  have "poll_updateChannel True a (h(a \<mapsto> c')) p =
      Inr (watch h a c ev (int i), p\<lparr>M_pollfds := (M_pollfds p)[i := q]\<rparr>)"
    unfolding w using at True slot_fd_cases [OF at(3)]
    by (auto simp: poll_updateChannel_def Let_def c' q_def pfd_def isNoneEvent_def kNoneEvent_def)
  moreover note poll_inv_replace [OF inv h True at(1) q]
  moreover have "switched_off a (watch h a c ev (int i)) (p\<lparr>M_pollfds := (M_pollfds p)[i := q]\<rparr>)"
    if "ev = 0 \<or> switched_off a h p"
    using that at(1,2) h by (auto simp: switched_off_def q_def pfd_def)
  ultimately show ?thesis using True by (auto simp: fun_upd_idem)
next
  case False
  with fits have new: "M_index c = -1" "M_channels p (M_fd c) = None" by (auto simp: fits_def)
  then have "poll_updateChannel True a (h(a \<mapsto> c')) p =
      Inr (watch h a c ev (int (length (M_pollfds p))),
        p\<lparr>M_pollfds := M_pollfds p @ [\<lparr>pfd_fd = M_fd c, pfd_events = ucast ev, pfd_revents = 0\<rparr>],
          M_channels := (M_channels p)(M_fd c \<mapsto> a)\<rparr>)"
    by (simp add: poll_updateChannel_def c' set_index_def watch_def watched_channel_def Let_def)
  with poll_inv_append [OF inv h new(2) fd] new show ?thesis by auto
qed

lemma poll_entry_unique:
  "poll_inv h p \<Longrightarrow> M_channels p fd = Some a \<Longrightarrow> poll_entry (M_pollfds p) h fd a i \<Longrightarrow>
   k < length (M_pollfds p) \<Longrightarrow> slot_fd (M_pollfds p ! k) = fd \<Longrightarrow> k = i"
  by (erule poll_inv_slot [where i = k]) (auto simp: poll_entry_def split: option.splits)

lemma poll_inv_pop:
  assumes inv: "poll_inv h p" and h: "h a = Some c" and reg: "M_channels p (M_fd c) = Some a"
    and i: "poll_entry (M_pollfds p) h (M_fd c) a (length (M_pollfds p) - 1)"
  shows "poll_inv (h(a \<mapsto> c'))
    (p\<lparr>M_channels := (M_channels p)(M_fd c := None), M_pollfds := butlast (M_pollfds p)\<rparr>)"
    (is "poll_inv ?h ?p")
proof -
  have ne: "M_pollfds p \<noteq> []" using i by (auto simp: poll_entry_def split: option.splits)
  have other: "poll_entry (M_pollfds ?p) ?h fd b k"
    if "poll_entry (M_pollfds p) h fd b k" "fd \<noteq> M_fd c" for fd b k
  proof -
    have "k \<noteq> length (M_pollfds p) - 1" using that i by (auto simp: poll_entry_def split: option.splits)
    moreover have "b \<noteq> a" using that h by (auto simp: poll_entry_def)
    ultimately show ?thesis using that by (auto simp: poll_entry_def nth_butlast split: option.splits)
  qed
  show ?thesis
    unfolding poll_inv_def
  proof (intro conjI allI impI)
    fix fd b
    assume "M_channels ?p fd = Some b"
    then show "\<exists>k. poll_entry (M_pollfds ?p) ?h fd b k"
      using other poll_inv_channel [OF inv, of fd b] by (cases "fd = M_fd c") (simp_all, blast)
  next
    fix k
    assume "k < length (M_pollfds ?p)"
    then have k: "k < length (M_pollfds p) - 1" "k < length (M_pollfds p)" by simp_all
    from poll_inv_slot [OF inv k(2)] obtain b where b: "M_channels p (slot_fd (M_pollfds p ! k)) = Some b"
      "poll_entry (M_pollfds p) h (slot_fd (M_pollfds p ! k)) b k" .
    have "slot_fd (M_pollfds p ! k) \<noteq> M_fd c"
      using poll_entry_unique [OF inv reg i k(2)] k(1) by auto
    with b other [OF b(2)] k show "\<exists>b. M_channels ?p (slot_fd (M_pollfds ?p ! k)) = Some b \<and>
        poll_entry (M_pollfds ?p) ?h (slot_fd (M_pollfds ?p ! k)) b k"
      by (simp add: nth_butlast)
  qed
qed

text \<open>The entry of another channel is moved into the gap.\<close>

lemma poll_inv_swap:
  assumes inv: "poll_inv h p" and h: "h a = Some c" and reg: "M_channels p (M_fd c) = Some a"
    and i: "poll_entry (M_pollfds p) h (M_fd c) a i" "i \<noteq> length (M_pollfds p) - 1"
    and b: "M_channels p (slot_fd (last (M_pollfds p))) = Some b" "h b = Some d"
      "poll_entry (M_pollfds p) h (slot_fd (last (M_pollfds p))) b (length (M_pollfds p) - 1)"
  shows "poll_inv (h(a \<mapsto> c', b \<mapsto> d\<lparr>M_index := int i\<rparr>))
    (p\<lparr>M_channels := (M_channels p)(M_fd c := None),
       M_pollfds := (butlast (M_pollfds p))[i := last (M_pollfds p)]\<rparr>)"
    (is "poll_inv ?h ?p")
proof -
  let ?n = "length (M_pollfds p) - 1"
  let ?e = "slot_fd (last (M_pollfds p))"
  have i': "i < ?n" "M_pollfds p \<noteq> []"
    using i by (auto simp: poll_entry_def split: option.splits)
  then have last: "last (M_pollfds p) = M_pollfds p ! ?n" by (simp add: last_conv_nth)
  have ne: "?e \<noteq> M_fd c" using poll_entry_unique [OF inv reg i(1), of ?n] i(2) i' last by auto
  have moved: "poll_entry (M_pollfds ?p) ?h ?e b i"
    using b(2,3) i' last by (auto simp: poll_entry_def)
  have other: "poll_entry (M_pollfds ?p) ?h fd x k"
    if "poll_entry (M_pollfds p) h fd x k" "fd \<noteq> M_fd c" "fd \<noteq> ?e" for fd x k
  proof -
    have "k \<noteq> i" "k \<noteq> ?n" "x \<noteq> a" "x \<noteq> b"
      using that i(1) b last h by (auto simp: poll_entry_def split: option.splits)
    with that i' show ?thesis by (auto simp: poll_entry_def nth_butlast split: option.splits)
  qed
  show ?thesis
    unfolding poll_inv_def
  proof (intro conjI allI impI)
    fix fd x
    assume x: "M_channels ?p fd = Some x"
    then show "\<exists>k. poll_entry (M_pollfds ?p) ?h fd x k"
      using other moved b(1) poll_inv_channel [OF inv, of fd x]
      by (cases "fd = M_fd c"; cases "fd = ?e") (simp_all, blast+)
  next
    fix k
    assume "k < length (M_pollfds ?p)"
    then have k: "k < ?n" "k < length (M_pollfds p)" by simp_all
    show "\<exists>x. M_channels ?p (slot_fd (M_pollfds ?p ! k)) = Some x \<and>
        poll_entry (M_pollfds ?p) ?h (slot_fd (M_pollfds ?p ! k)) x k"
    proof (cases "k = i")
      case True
      with moved b(1) ne i' show ?thesis by (simp add: nth_butlast)
    next
      case False
      from poll_inv_slot [OF inv k(2)] obtain x where x: "M_channels p (slot_fd (M_pollfds p ! k)) = Some x"
        "poll_entry (M_pollfds p) h (slot_fd (M_pollfds p ! k)) x k" .
      have "slot_fd (M_pollfds p ! k) \<noteq> M_fd c" "slot_fd (M_pollfds p ! k) \<noteq> ?e"
        using poll_entry_unique [OF inv reg i(1) k(2)] poll_entry_unique [OF inv b(1,3) k(2)] False k(1)
        by auto
      with x other [OF x(2)] k False show ?thesis by (simp add: nth_butlast)
    qed
  qed
qed

lemma poll_remove_law:
  assumes inv: "poll_inv h p" and h: "h a = Some c" and reg: "M_channels p (M_fd c) = Some a"
    and none: "M_events c = 0" and off: "switched_off a h p" and c': "c' = c\<lparr>M_addedToLoop := False\<rparr>"
  shows "\<exists>h' p'. poll_removeChannel True a (h(a \<mapsto> c')) p = Inr (h', p') \<and> poll_inv h' p' \<and>
    same_but_index (h(a \<mapsto> c')) h' \<and> M_channels p' = (M_channels p)(M_fd c := None)"
proof -
  obtain i where i: "poll_entry (M_pollfds p) h (M_fd c) a i" using poll_inv_channel [OF inv reg] by blast
  then have at: "M_index c = int i" "i < length (M_pollfds p)" "pfd_events (M_pollfds p ! i) = 0"
    "pfd_fd (M_pollfds p ! i) = - M_fd c - 1"
    using h none off by (auto simp: poll_entry_def switched_off_def)
  note pre = poll_removeChannel_def Let_def c' reg none isNoneEvent_def kNoneEvent_def
  let ?n = "length (M_pollfds p) - 1"
  show ?thesis
  proof (cases "i = ?n")
    case True
    then have t: "length (M_pollfds p) - Suc 0 = i" by simp
    have "poll_removeChannel True a (h(a \<mapsto> c')) p =
      Inr (h(a \<mapsto> c'), p\<lparr>M_channels := (M_channels p)(M_fd c := None), M_pollfds := butlast (M_pollfds p)\<rparr>)"
      using at by (simp add: pre t)
    with poll_inv_pop [OF inv h reg i [unfolded True]] show ?thesis by auto
  next
    case False
    have n: "?n < length (M_pollfds p)" "M_pollfds p \<noteq> []" using at(2) by auto
    then have last: "last (M_pollfds p) = M_pollfds p ! ?n" by (simp add: last_conv_nth)
    let ?e = "slot_fd (last (M_pollfds p))"
    from poll_inv_slot [OF inv n(1)] last obtain b where b: "M_channels p ?e = Some b"
      "poll_entry (M_pollfds p) h ?e b ?n" by auto
    then obtain d where d: "h b = Some d" "M_fd d = ?e" using poll_entry_channel by blast
    have ne: "?e \<noteq> M_fd c" using poll_entry_unique [OF inv reg i n(1)] False last by auto
    with d h have "b \<noteq> a" by auto
    have swap: "butlast ((M_pollfds p)[i := last (M_pollfds p), ?n := M_pollfds p ! i]) =
        (butlast (M_pollfds p))[i := last (M_pollfds p)]"
      using False at(2) by (simp add: butlast_list_update)
    have "poll_removeChannel True a (h(a \<mapsto> c')) p = Inr (h(a \<mapsto> c', b \<mapsto> d\<lparr>M_index := int i\<rparr>),
        p\<lparr>M_channels := (M_channels p)(M_fd c := None),
          M_pollfds := (butlast (M_pollfds p))[i := last (M_pollfds p)]\<rparr>)"
      using at False b(1) d \<open>b \<noteq> a\<close> ne swap
      by (simp add: pre slot_fd_def [symmetric] set_index_def)
    moreover have "same_but_index (h(a \<mapsto> c')) (h(a \<mapsto> c', b \<mapsto> d\<lparr>M_index := int i\<rparr>))"
      using \<open>b \<noteq> a\<close> d by (simp add: same_but_index_upd)
    ultimately show ?thesis using poll_inv_swap [OF inv h reg i False b(1) d(1) b(2), of c'] by auto
  qed
qed

section \<open>The contract of a poller\<close>

interpretation pp: poller poll_inv M_channels "poll_updateChannel True" "poll_removeChannel True" switched_off
proof
  fix h :: "'a channel_heap" and p :: poll_poller and fd a
  assume "poll_inv h p" "M_channels p fd = Some a"
  then show "\<exists>c. h a = Some c \<and> M_fd c = fd \<and> 0 \<le> M_index c"
    using poll_inv_channel poll_entry_channel by fastforce
next
  fix h :: "'a channel_heap" and p :: poll_poller and a c c' ev
  assume "poll_inv h p" "h a = Some c" "0 \<le> M_fd c" "fits (M_channels p) a c"
    "c' = c\<lparr>M_events := ev, M_addedToLoop := True\<rparr>"
  from poll_update_law [OF this]
  show "\<exists>p' i. poll_updateChannel True a (h(a \<mapsto> c')) p = Inr (watch h a c ev i, p') \<and>
      poll_inv (watch h a c ev i) p' \<and> M_channels p' = (M_channels p)(M_fd c \<mapsto> a) \<and>
      (ev = 0 \<and> 0 \<le> M_index c \<longrightarrow> switched_off a (watch h a c ev i) p')"
    by blast
next
  fix h :: "'a channel_heap" and p :: poll_poller and a c c'
  assume "poll_inv h p" "h a = Some c" "M_channels p (M_fd c) = Some a" "M_events c = 0"
    "switched_off a h p" "c' = c\<lparr>M_addedToLoop := False\<rparr>"
  then show "\<exists>h' p'. poll_removeChannel True a (h(a \<mapsto> c')) p = Inr (h', p') \<and> poll_inv h' p' \<and>
      same_but_index (h(a \<mapsto> c')) h' \<and> M_channels p' = (M_channels p)(M_fd c := None)"
    by (rule poll_remove_law)
qed

section \<open>A channel that was switched off\<close>

lemma run_chan_calls_Cons:
  "run_chan_calls upd (k # ks) a h p =
     bindr (run_chan_call upd k a h p) (\<lambda>(h, p). run_chan_calls upd ks a h p)"
  by (simp add: run_chan_calls_def split_def)

lemma switched_off_call:
  assumes "poll_inv h p" and "h a = Some c" and "M_channels p (M_fd c) = Some a" and "switched_off a h p"
  shows "\<exists>p' i. run_chan_call (poll_updateChannel True) k a h p =
      Inr (watch h a c (events_after k (M_events c)) i, p') \<and>
    poll_inv (watch h a c (events_after k (M_events c)) i) p' \<and>
    M_channels p' (M_fd c) = Some a \<and> switched_off a (watch h a c (events_after k (M_events c)) i) p'"
proof -
  have "0 \<le> M_fd c" using poll_inv_channel [OF assms(1,3)] assms(2) by (auto simp: poll_entry_def)
  from poll_update_law [OF assms(1,2) this _ refl, of "events_after k (M_events c)"] assms(2-)
  show ?thesis
    by (auto simp: fits_def run_chan_call_set_events set_events_def update_def)
qed

lemma switched_off_calls:
  assumes "poll_inv h p" and "h a = Some c" and "M_channels p (M_fd c) = Some a" and "switched_off a h p"
  shows "\<exists>h' p' c'. run_chan_calls (poll_updateChannel True) ks a h p = Inr (h', p') \<and>
    h' a = Some c' \<and> M_fd c' = M_fd c \<and> M_events c' = fold events_after ks (M_events c) \<and>
    switched_off a h' p'"
  using assms
proof (induction ks arbitrary: h p c)
  case Nil
  then show ?case by (simp add: run_chan_calls_def)
next
  case (Cons k ks)
  from switched_off_call [OF Cons.prems, of k] obtain p1 i where
    1: "run_chan_call (poll_updateChannel True) k a h p =
        Inr (watch h a c (events_after k (M_events c)) i, p1)"
      "poll_inv (watch h a c (events_after k (M_events c)) i) p1" "M_channels p1 (M_fd c) = Some a"
      "switched_off a (watch h a c (events_after k (M_events c)) i) p1" by blast
  from Cons.IH [OF 1(2) watch_same _ 1(4)] 1(1,3) show ?case by (simp add: run_chan_calls_Cons)
qed

section \<open>Properties\<close>


definition off_channel :: "nat channel" where
  "off_channel = (new_Channel 0 5)\<lparr>M_index := 0, M_addedToLoop := True\<rparr>"

definition off_poller :: poll_poller where
  "off_poller = \<lparr>M_channels = [5 \<mapsto> 9], M_pollfds = [\<lparr>pfd_fd = -6, pfd_events = 0, pfd_revents = 0\<rparr>]\<rparr>"


end
