(* ===== verification/DefaultPoller.thy ===== *)
theory DefaultPoller
  imports EPollPoller PollPoller
begin

text \<open>
  The choice of the poller (src/DefaultPoller.cpp) and the virtual calls of \<^verbatim>\<open>Poller\<close>: a
  \<^verbatim>\<open>Poller*\<close> is the datatype \<open>any_poller\<close> and a virtual call is a case distinction on it.
\<close>

section \<open>Virtual dispatch\<close>

datatype any_poller = PollPoller poll_poller | EPollPoller epoll_poller

definition newDefaultPoller :: "bool \<Rightarrow> int \<Rightarrow> any_poller res" where
  "newDefaultPoller MUDUO_USE_POLL epoll_create1 =
     (if MUDUO_USE_POLL then Inr (PollPoller new_PollPoller)
      else bindr (new_EPollPoller epoll_create1) (\<lambda>p. Inr (EPollPoller p)))"

fun virtual_updateChannel :: "epoll_ctl \<Rightarrow> bool \<Rightarrow> ('cb, any_poller) chan_op" where
  "virtual_updateChannel ctl inLoop a h (PollPoller p) =
     bindr (poll_updateChannel inLoop a h p) (\<lambda>(h, p). Inr (h, PollPoller p))"
| "virtual_updateChannel ctl inLoop a h (EPollPoller p) =
     bindr (epoll_updateChannel ctl inLoop a h p) (\<lambda>(h, p). Inr (h, EPollPoller p))"

fun virtual_removeChannel :: "epoll_ctl \<Rightarrow> bool \<Rightarrow> ('cb, any_poller) chan_op" where
  "virtual_removeChannel ctl inLoop a h (PollPoller p) =
     bindr (poll_removeChannel inLoop a h p) (\<lambda>(h, p). Inr (h, PollPoller p))"
| "virtual_removeChannel ctl inLoop a h (EPollPoller p) =
     bindr (epoll_removeChannel ctl inLoop a h p) (\<lambda>(h, p). Inr (h, EPollPoller p))"

fun virtual_hasChannel :: "bool \<Rightarrow> nat \<Rightarrow> 'cb channel_heap \<Rightarrow> any_poller \<Rightarrow> bool res" where
  "virtual_hasChannel inLoop a h (PollPoller p) = hasChannel inLoop a h p"
| "virtual_hasChannel inLoop a h (EPollPoller p) = hasChannel inLoop a h p"

text \<open>The results of both system calls are given; the poller uses its own.\<close>

fun virtual_poll :: "int \<times> int16 list \<Rightarrow> int \<times> epoll_event list \<Rightarrow> timestamp \<Rightarrow> 'cb channel_heap \<Rightarrow>
    any_poller \<Rightarrow> nat list \<Rightarrow> (timestamp \<times> 'cb channel_heap \<times> any_poller \<times> nat list) res" where
  "virtual_poll poll epoll_wait tnow h (PollPoller p) activeChannels =
     bindr (poll_poll poll tnow h p activeChannels) (\<lambda>(t, h, p, active). Inr (t, h, PollPoller p, active))"
| "virtual_poll poll epoll_wait tnow h (EPollPoller p) activeChannels =
     bindr (epoll_poll epoll_wait tnow h p activeChannels)
       (\<lambda>(t, h, p, active). Inr (t, h, EPollPoller p, active))"

text \<open>The virtual destructor and the descriptors it closes.\<close>

fun virtual_delete :: "any_poller \<Rightarrow> int list" where
  "virtual_delete (PollPoller p) = []"
| "virtual_delete (EPollPoller p) = delete_EPollPoller p"

section \<open>The contract of a poller\<close>

fun virtual_inv :: "'cb channel_heap \<Rightarrow> any_poller \<Rightarrow> bool" where
  "virtual_inv h (PollPoller p) = poll_inv h p"
| "virtual_inv h (EPollPoller p) = epoll_inv h p"

fun virtual_channels :: "any_poller \<Rightarrow> int \<rightharpoonup> nat" where
  "virtual_channels (PollPoller p) = M_channels p"
| "virtual_channels (EPollPoller p) = M_channels p"

fun virtual_parked :: "nat \<Rightarrow> 'cb channel_heap \<Rightarrow> any_poller \<Rightarrow> bool" where
  "virtual_parked a h (PollPoller p) = switched_off a h p"
| "virtual_parked a h (EPollPoller p) = True"

lemma newDefaultPoller_inv: "newDefaultPoller use_poll fd = Inr p \<Longrightarrow> virtual_inv h p"
  by (auto simp: newDefaultPoller_def new_PollPoller_inv new_EPollPoller_inv split: if_splits)

lemma newDefaultPoller_channels: "newDefaultPoller use_poll fd = Inr p \<Longrightarrow> virtual_channels p = Map.empty"
  by (auto simp: newDefaultPoller_def new_PollPoller_def new_EPollPoller_def split: if_splits)

lemma epoll_update_fd: "epoll_update ctl operation a h p = Inr (h', p') \<Longrightarrow> M_epollfd p' = M_epollfd p"
  by (auto simp: epoll_update_def Let_def split: if_splits)

lemma virtual_delete_kept:
  "virtual_updateChannel ctl b a h p = Inr (h', p') \<Longrightarrow> virtual_delete p' = virtual_delete p"
  "virtual_removeChannel ctl b a h p = Inr (h', p') \<Longrightarrow> virtual_delete p' = virtual_delete p"
  by (cases p;
      auto simp: epoll_updateChannel_def epoll_removeChannel_def Let_def delete_EPollPoller_def
        dest!: epoll_update_fd split: if_splits)+

lemma set_events_delete_kept:
  "set_events (virtual_updateChannel ctl b) f a h p = Inr (h', p') \<Longrightarrow> virtual_delete p' = virtual_delete p"
  "remove_channel (virtual_removeChannel ctl b) a h p = Inr (h', p') \<Longrightarrow> virtual_delete p' = virtual_delete p"
  by (auto simp: set_events_def update_def remove_channel_def intro: virtual_delete_kept)

lemma virtual_inv_new_channel:
  "virtual_inv h p \<Longrightarrow> \<forall>fd. virtual_channels p fd \<noteq> Some a \<Longrightarrow> virtual_inv (h(a \<mapsto> c)) p"
  by (cases p) (simp_all add: poll_inv_new_channel epoll_inv_new_channel)

lemma virtual_hasChannel_iff:
  "h a = Some c \<Longrightarrow> virtual_hasChannel True a h p = Inr (virtual_channels p (M_fd c) = Some a)"
  by (cases p) (simp_all add: hasChannel_def)

sublocale epoll_kernel \<subseteq> vpoller: poller virtual_inv virtual_channels
  "virtual_updateChannel ctl True" "virtual_removeChannel ctl True" virtual_parked
proof
  fix h :: "'a channel_heap" and p fd a
  assume "virtual_inv h p" "virtual_channels p fd = Some a"
  then show "\<exists>c. h a = Some c \<and> M_fd c = fd \<and> 0 \<le> M_index c"
    by (cases p) (simp_all add: pp.registered epoller.registered)
next
  fix h :: "'a channel_heap" and p a c c' ev
  assume *: "virtual_inv h p" "h a = Some c" "0 \<le> M_fd c" "fits (virtual_channels p) a c"
    "c' = c\<lparr>M_events := ev, M_addedToLoop := True\<rparr>"
  show "\<exists>p' i. virtual_updateChannel ctl True a (h(a \<mapsto> c')) p = Inr (watch h a c ev i, p') \<and>
      virtual_inv (watch h a c ev i) p' \<and> virtual_channels p' = (virtual_channels p)(M_fd c \<mapsto> a) \<and>
      (ev = 0 \<and> 0 \<le> M_index c \<longrightarrow> virtual_parked a (watch h a c ev i) p')"
  proof (cases p)
    case (PollPoller q)
    with * pp.update_ok [of h q a c c' ev] show ?thesis by fastforce
  next
    case (EPollPoller q)
    with * epoller.update_ok [of h q a c c' ev] show ?thesis by fastforce
  qed
next
  fix h :: "'a channel_heap" and p a c c'
  assume *: "virtual_inv h p" "h a = Some c" "virtual_channels p (M_fd c) = Some a" "M_events c = 0"
    "virtual_parked a h p" "c' = c\<lparr>M_addedToLoop := False\<rparr>"
  show "\<exists>h' p'. virtual_removeChannel ctl True a (h(a \<mapsto> c')) p = Inr (h', p') \<and> virtual_inv h' p' \<and>
      same_but_index (h(a \<mapsto> c')) h' \<and> virtual_channels p' = (virtual_channels p)(M_fd c := None)"
  proof (cases p)
    case (PollPoller q)
    with * pp.remove_ok [of h q a c c'] show ?thesis by fastforce
  next
    case (EPollPoller q)
    with * epoller.remove_ok [of h q a c c'] show ?thesis by fastforce
  qed
qed

context epoll_kernel
begin

lemmas virtual_lifecycle = vpoller.lifecycle
lemmas virtual_set_events = vpoller.set_events_ok
lemmas virtual_disable_remove = vpoller.disable_remove

end

section \<open>Properties\<close>


definition sample_heap :: "nat channel_heap" where
  "sample_heap = [9 \<mapsto> new_Channel 0 5]"


end
