(* ===== verification/TimerQueue.thy ===== *)
theory TimerQueue
  imports DefaultPoller "HOL-Library.Product_Lexorder"
begin

text \<open>
  The class \<^verbatim>\<open>TimerQueue\<close> (include/TimerQueue.h, src/TimerQueue.cpp): the timers of a loop.

  \<^item> Timers are objects of a heap. \<^verbatim>\<open>new\<close> is the parameter \<open>alloc\<close>, which picks an address for a
    heap or fails; \<open>alloc_ok\<close> says that it picks a free one.
  \<^item> A \<^verbatim>\<open>std::set\<close> is a sorted list without duplicates, its order the lexicographic order of the
    pairs, as \<^verbatim>\<open>std::pair\<close> compares.
  \<^item> \<open>clock n\<close> is the \<open>n\<close>-th reading of \<^verbatim>\<open>Timestamp::now()\<close>. The calls of \<^verbatim>\<open>timerfd_settime\<close> are
    recorded in \<open>settimes\<close>, the callbacks that ran in \<open>ran\<close>.
  \<^item> The body of a callback is a \<open>timer_prog\<close>: it adds and cancels timers, and what it does next may
    depend on the \<^verbatim>\<open>TimerId\<close>s it got. It runs in the loop thread.
  \<^item> \<^verbatim>\<open>M_loop->runInLoop\<close> of a call from another thread queues the functor in \<open>pending_calls\<close>.
\<close>

section \<open>std::set as a sorted list\<close>

definition set_insert :: "'a::linorder \<Rightarrow> 'a list \<Rightarrow> 'a list \<times> bool" where
  "set_insert x xs = (if x \<in> set xs then (xs, False) else (insort x xs, True))"

definition set_erase :: "'a::linorder \<Rightarrow> 'a list \<Rightarrow> 'a list \<times> nat" where
  "set_erase x xs = (if x \<in> set xs then (remove1 x xs, 1) else (xs, 0))"

definition ordered_set :: "'a::linorder list \<Rightarrow> bool" where
  "ordered_set xs \<longleftrightarrow> sorted xs \<and> distinct xs"

lemma ordered_set_insort [simp]: "x \<notin> set xs \<Longrightarrow> ordered_set xs \<Longrightarrow> ordered_set (insort x xs)"
  by (simp add: ordered_set_def sorted_insort distinct_insort)

lemma ordered_set_remove1 [simp]: "ordered_set xs \<Longrightarrow> ordered_set (remove1 x xs)"
  by (simp add: ordered_set_def sorted_remove1)

lemma ordered_set_filter [simp]: "ordered_set xs \<Longrightarrow> ordered_set (filter P xs)"
  by (simp add: ordered_set_def sorted_wrt_filter)

lemma ordered_set_Nil [simp]: "ordered_set []"
  by (simp add: ordered_set_def)

lemma remove1_distinct: "distinct xs \<Longrightarrow> remove1 x xs = filter (\<lambda>y. y \<noteq> x) xs"
  by (induction xs) (auto simp: filter_id_conv intro!: filter_True [symmetric])

lemma takeWhile_less: "sorted xs \<Longrightarrow> takeWhile (\<lambda>e. e < k) xs = filter (\<lambda>e. e < k) xs"
  by (induction xs) (auto simp: eq_commute [of "[]"] filter_empty_conv dest: le_less_trans)

lemma dropWhile_less: "sorted xs \<Longrightarrow> dropWhile (\<lambda>e. e < k) xs = filter (\<lambda>e. \<not> e < k) xs"
  by (induction xs) (auto simp: filter_id_conv intro!: filter_True [symmetric])

section \<open>State\<close>

type_synonym entry = "timestamp \<times> nat"
type_synonym active_timer = "nat \<times> int64"

record timer_queue =
  M_timerfd :: int
  M_timerfdChannel :: nat
  M_timers :: "entry list"
  M_activeTimers :: "active_timer list"
  M_callingExpiredTimers :: bool
  M_cancelingTimers :: "active_timer list"

datatype tq_functor = AddTimerInLoop nat | CancelInLoop timer_id

record 'cb timer_world = timer_queue +
  timers :: "nat \<rightharpoonup> 'cb timer"
  s_numCreated :: int64
  readings :: nat
  settimes :: "(int \<times> int) list"
  pending_calls :: "tq_functor list"
  ran :: "'cb list"

datatype 'cb timer_prog =
    Return
  | AddTimer 'cb timestamp double "timer_id \<Rightarrow> 'cb timer_prog"
  | CancelTimer timer_id "'cb timer_prog"

record 'cb timer_env =
  clock :: "nat \<Rightarrow> timestamp"
  alloc :: "(nat \<rightharpoonup> 'cb timer) \<Rightarrow> nat option"
  body :: "'cb \<Rightarrow> 'cb timer_prog"

definition UINTPTR_MAX :: nat where "UINTPTR_MAX = 2 ^ 64 - 1"

definition with_timer :: "'cb timer_world \<Rightarrow> nat \<Rightarrow> ('cb timer \<Rightarrow> 'a res) \<Rightarrow> 'a res" where
  "with_timer s a k = (case timers s a of None \<Rightarrow> Inl (DanglingPointer ''Timer'') | Some t \<Rightarrow> k t)"

lemma with_timer_Some [simp]: "timers s a = Some t \<Longrightarrow> with_timer s a k = k t"
  by (simp add: with_timer_def)

section \<open>The timer descriptor\<close>

definition createTimerfd :: "int \<Rightarrow> int res" where
  "createTimerfd timerfd_create =
     (if timerfd_create < 0 then Inl (Fatal ''Failed in timerfd_create'') else Inr timerfd_create)"

text \<open>\<^verbatim>\<open>readTimerfd\<close> drains the descriptor and logs; \<open>n\<close> is what \<^verbatim>\<open>read\<close> returns.\<close>

definition readTimerfd :: "int \<Rightarrow> timestamp \<Rightarrow> string list" where
  "readTimerfd n tnow =
     (if n \<noteq> 8 then [''TimerQueue::handleRead() reads '' @ dec n @ ''bytes instead of 8''] else [])"

definition read_clock :: "'cb timer_env \<Rightarrow> 'cb timer_world \<Rightarrow> timestamp \<times> 'cb timer_world" where
  "read_clock env s = (clock env (readings s), s\<lparr>readings := Suc (readings s)\<rparr>)"

definition resetTimerfd :: "'cb timer_env \<Rightarrow> timestamp \<Rightarrow> 'cb timer_world \<Rightarrow> 'cb timer_world" where
  "resetTimerfd env expiration s =
     (case read_clock env s of (tnow, s) \<Rightarrow>
        s\<lparr>settimes := settimes s @ [howMuchTimeFromNow tnow expiration]\<rparr>)"

section \<open>Operations\<close>

definition insert_timer :: "bool \<Rightarrow> nat \<Rightarrow> 'cb timer_world \<Rightarrow> (bool \<times> 'cb timer_world) res" where
  "insert_timer inLoop timer s =
     assertInLoopThread inLoop
     (assertr (length (M_timers s) = length (M_activeTimers s)) ''M_timers.size() == M_activeTimers.size()''
     (with_timer s timer (\<lambda>t.
       let when = M_expiration t;
           earliestChanged = (case M_timers s of [] \<Rightarrow> True | e # _ \<Rightarrow> when < fst e);
           (ts, result1) = set_insert (when, timer) (M_timers s);
           (ats, result2) = set_insert (timer, M_sequence t) (M_activeTimers s);
           s' = s\<lparr>M_timers := ts, M_activeTimers := ats\<rparr>
       in assertr result1 ''result.second''
         (assertr result2 ''result.second''
           (assertr (length (M_timers s') = length (M_activeTimers s'))
             ''M_timers.size() == M_activeTimers.size()'' (Inr (earliestChanged, s')))))))"

definition addTimerInLoop :: "'cb timer_env \<Rightarrow> bool \<Rightarrow> nat \<Rightarrow> 'cb timer_world \<Rightarrow> 'cb timer_world res" where
  "addTimerInLoop env inLoop timer s =
     assertInLoopThread inLoop
     (bindr (insert_timer inLoop timer s) (\<lambda>(earliestChanged, s).
        if earliestChanged then with_timer s timer (\<lambda>t. Inr (resetTimerfd env (M_expiration t) s))
        else Inr s))"

definition timer_key :: "timer_id \<Rightarrow> active_timer" where
  "timer_key timerId =
     (case TimerId_timer timerId of None \<Rightarrow> 0 | Some a \<Rightarrow> a, TimerId_sequence timerId)"

definition cancelInLoop :: "bool \<Rightarrow> timer_id \<Rightarrow> 'cb timer_world \<Rightarrow> 'cb timer_world res" where
  "cancelInLoop inLoop timerId s =
     assertInLoopThread inLoop
     (assertr (length (M_timers s) = length (M_activeTimers s)) ''M_timers.size() == M_activeTimers.size()''
       (let timer = timer_key timerId in
        bindr
          (if timer \<in> set (M_activeTimers s) then
             with_timer s (fst timer) (\<lambda>t.
               case set_erase (M_expiration t, fst timer) (M_timers s) of (ts, n) \<Rightarrow>
                 assertr (n = 1) ''n == 1''
                   (Inr (s\<lparr>M_timers := ts, timers := (timers s)(fst timer := None),
                      M_activeTimers := remove1 timer (M_activeTimers s)\<rparr>)))
           else if M_callingExpiredTimers s then
             Inr (s\<lparr>M_cancelingTimers := fst (set_insert timer (M_cancelingTimers s))\<rparr>)
           else Inr s)
          (\<lambda>s. assertr (length (M_timers s) = length (M_activeTimers s))
             ''M_timers.size() == M_activeTimers.size()'' (Inr s))))"

definition addTimer :: "'cb timer_env \<Rightarrow> bool \<Rightarrow> 'cb \<Rightarrow> timestamp \<Rightarrow> double \<Rightarrow> 'cb timer_world \<Rightarrow>
    (timer_id \<times> 'cb timer_world) res" where
  "addTimer env inLoop cb when interval s =
     (case alloc env (timers s) of
        None \<Rightarrow> Inl BadAlloc
      | Some timer \<Rightarrow>
          (case new_Timer cb when interval (s_numCreated s) of (t, n) \<Rightarrow>
             let s = s\<lparr>timers := (timers s)(timer \<mapsto> t), s_numCreated := n\<rparr> in
             bindr (if inLoop then addTimerInLoop env True timer s
                    else Inr (s\<lparr>pending_calls := pending_calls s @ [AddTimerInLoop timer]\<rparr>))
               (\<lambda>s. Inr (new_TimerId timer (M_sequence t), s))))"

definition cancel :: "bool \<Rightarrow> timer_id \<Rightarrow> 'cb timer_world \<Rightarrow> 'cb timer_world res" where
  "cancel inLoop timerId s =
     (if inLoop then cancelInLoop True timerId s
      else Inr (s\<lparr>pending_calls := pending_calls s @ [CancelInLoop timerId]\<rparr>))"

text \<open>A functor that was queued, run by the loop.\<close>

fun run_functor :: "'cb timer_env \<Rightarrow> tq_functor \<Rightarrow> 'cb timer_world \<Rightarrow> 'cb timer_world res" where
  "run_functor env (AddTimerInLoop timer) s = addTimerInLoop env True timer s"
| "run_functor env (CancelInLoop timerId) s = cancelInLoop True timerId s"

primrec run_prog :: "'cb timer_env \<Rightarrow> 'cb timer_prog \<Rightarrow> 'cb timer_world \<Rightarrow> 'cb timer_world res" where
  "run_prog env Return s = Inr s"
| "run_prog env (AddTimer cb when interval k) s =
     bindr (addTimer env True cb when interval s) (\<lambda>(timerId, s). run_prog env (k timerId) s)"
| "run_prog env (CancelTimer timerId k) s = bindr (cancel True timerId s) (run_prog env k)"

text \<open>\<^verbatim>\<open>Timer::run\<close>\<close>

definition run_timer :: "'cb timer_env \<Rightarrow> 'cb timer \<Rightarrow> 'cb timer_world \<Rightarrow> 'cb timer_world res" where
  "run_timer env t s =
     run_prog env (body env (M_callback t)) (s\<lparr>ran := ran s @ [M_callback t]\<rparr>)"

definition run_entry :: "'cb timer_env \<Rightarrow> entry \<Rightarrow> 'cb timer_world \<Rightarrow> 'cb timer_world res" where
  "run_entry env e s = with_timer s (snd e) (\<lambda>t. run_timer env t s)"

definition erase_active :: "entry \<Rightarrow> 'cb timer_world \<Rightarrow> 'cb timer_world res" where
  "erase_active e s =
     with_timer s (snd e) (\<lambda>t.
       case set_erase (snd e, M_sequence t) (M_activeTimers s) of (ats, n) \<Rightarrow>
         assertr (n = 1) ''n == 1'' (Inr (s\<lparr>M_activeTimers := ats\<rparr>)))"

definition getExpired :: "timestamp \<Rightarrow> 'cb timer_world \<Rightarrow> (entry list \<times> 'cb timer_world) res" where
  "getExpired tnow s =
     assertr (length (M_timers s) = length (M_activeTimers s)) ''M_timers.size() == M_activeTimers.size()''
       (let sentry = (tnow, UINTPTR_MAX);
            expired = takeWhile (\<lambda>e. e < sentry) (M_timers s);
            rest = dropWhile (\<lambda>e. e < sentry) (M_timers s)
        in assertr (rest = [] \<or> tnow < fst (hd rest)) ''end == M_timers.end() || now < end->first''
          (bindr (foldr_res erase_active expired (s\<lparr>M_timers := rest\<rparr>)) (\<lambda>s.
             assertr (length (M_timers s) = length (M_activeTimers s))
               ''M_timers.size() == M_activeTimers.size()'' (Inr (expired, s)))))"

definition reset_entry :: "timestamp \<Rightarrow> entry \<Rightarrow> 'cb timer_world \<Rightarrow> 'cb timer_world res" where
  "reset_entry tnow e s =
     with_timer s (snd e) (\<lambda>t.
       if M_repeat t \<and> (snd e, M_sequence t) \<notin> set (M_cancelingTimers s) then
         bindr (insert_timer True (snd e) (s\<lparr>timers := (timers s)(snd e \<mapsto> restart tnow t)\<rparr>))
           (\<lambda>(_, s). Inr s)
       else Inr (s\<lparr>timers := (timers s)(snd e := None)\<rparr>))"

definition tq_reset :: "'cb timer_env \<Rightarrow> entry list \<Rightarrow> timestamp \<Rightarrow> 'cb timer_world \<Rightarrow> 'cb timer_world res" where
  "tq_reset env expired tnow s =
     bindr (foldr_res (reset_entry tnow) expired s) (\<lambda>s.
       bindr (case M_timers s of [] \<Rightarrow> Inr invalid | e # _ \<Rightarrow> with_timer s (snd e) (\<lambda>t. Inr (M_expiration t)))
         (\<lambda>nextExpire. Inr (if valid nextExpire then resetTimerfd env nextExpire s else s)))"

definition tq_handleRead :: "'cb timer_env \<Rightarrow> bool \<Rightarrow> 'cb timer_world \<Rightarrow> 'cb timer_world res" where
  "tq_handleRead env inLoop s =
     assertInLoopThread inLoop
     (case read_clock env s of (tnow, s) \<Rightarrow>
        bindr (getExpired tnow s) (\<lambda>(expired, s).
          let s = s\<lparr>M_callingExpiredTimers := True, M_cancelingTimers := []\<rparr> in
          bindr (foldr_res (run_entry env) expired s) (\<lambda>s.
            tq_reset env expired tnow (s\<lparr>M_callingExpiredTimers := False\<rparr>))))"

section \<open>Construction and destruction\<close>

text \<open>\<open>cb\<close> is \<^verbatim>\<open>boost::bind(&TimerQueue::handleRead, this)\<close>, \<open>chan\<close> the address of the channel
  member.\<close>

definition new_TimerQueue :: "epoll_ctl \<Rightarrow> nat \<Rightarrow> 'cb \<Rightarrow> nat \<Rightarrow> int \<Rightarrow> 'cb channel_heap \<Rightarrow> any_poller \<Rightarrow>
    (timer_queue \<times> 'cb channel_heap \<times> any_poller) res" where
  "new_TimerQueue ctl loop cb chan timerfd_create h p =
     bindr (createTimerfd timerfd_create) (\<lambda>fd.
       let c = setReadCallback cb (new_Channel loop fd) in
       bindr (enableReading (virtual_updateChannel ctl True) chan (h(chan \<mapsto> c)) p) (\<lambda>(h, p).
         Inr (\<lparr>M_timerfd = fd, M_timerfdChannel = chan, M_timers = [], M_activeTimers = [],
           M_callingExpiredTimers = False, M_cancelingTimers = []\<rparr>, h, p)))"

text \<open>The last result is the descriptors that were closed.\<close>

definition delete_TimerQueue :: "epoll_ctl \<Rightarrow> 'cb timer_world \<Rightarrow> 'c channel_heap \<Rightarrow> any_poller \<Rightarrow>
    ('cb timer_world \<times> 'c channel_heap \<times> any_poller \<times> int list) res" where
  "delete_TimerQueue ctl s h p =
     bindr (disableAll (virtual_updateChannel ctl True) (M_timerfdChannel s) h p) (\<lambda>(h, p).
       bindr (remove_channel (virtual_removeChannel ctl True) (M_timerfdChannel s) h p) (\<lambda>(h, p).
         Inr (s\<lparr>timers := fold (\<lambda>e m. m(snd e := None)) (M_timers s) (timers s)\<rparr>, h, p, [M_timerfd s])))"

section \<open>The invariant\<close>

definition alloc_ok :: "'cb timer_env \<Rightarrow> bool" where
  "alloc_ok env \<longleftrightarrow>
     (\<forall>h a. alloc env h = Some a \<longrightarrow> h a = None \<and> 0 < a \<and> a < UINTPTR_MAX)"

definition active_of :: "(nat \<rightharpoonup> 'cb timer) \<Rightarrow> entry \<Rightarrow> active_timer" where
  "active_of h e = (snd e, M_sequence (the (h (snd e))))"

text \<open>
  Both sets hold the same timers, each with its current expiration and its sequence number; the
  heap consists of these timers and of the detached ones, \<open>D\<close>: those that are being called back
  and those whose insertion is still queued in the loop.
\<close>

definition tq_inv :: "nat set \<Rightarrow> 'cb timer_world \<Rightarrow> bool" where
  "tq_inv D s \<longleftrightarrow>
     ordered_set (M_timers s) \<and> ordered_set (M_activeTimers s) \<and> ordered_set (M_cancelingTimers s) \<and>
     (\<forall>e \<in> set (M_timers s). \<exists>t. timers s (snd e) = Some t \<and> M_expiration t = fst e) \<and>
     set (M_activeTimers s) = active_of (timers s) ` set (M_timers s) \<and>
     dom (timers s) = snd ` set (M_timers s) \<union> D \<and> snd ` set (M_timers s) \<inter> D = {} \<and>
     (\<forall>a \<in> dom (timers s). 0 < a \<and> a < UINTPTR_MAX)"

lemma tq_invD:
  assumes "tq_inv D s"
  shows "ordered_set (M_timers s)" "ordered_set (M_activeTimers s)" "ordered_set (M_cancelingTimers s)"
    "set (M_activeTimers s) = active_of (timers s) ` set (M_timers s)"
    "dom (timers s) = snd ` set (M_timers s) \<union> D" "snd ` set (M_timers s) \<inter> D = {}"
    "\<And>a. a \<in> dom (timers s) \<Longrightarrow> 0 < a \<and> a < UINTPTR_MAX"
  using assms unfolding tq_inv_def by simp_all

lemma tq_inv_entry:
  assumes "tq_inv D s" and "e \<in> set (M_timers s)"
  obtains t where "timers s (snd e) = Some t" "M_expiration t = fst e"
  using assms by (auto simp: tq_inv_def)

lemma tq_inv_inj: "tq_inv D s \<Longrightarrow> inj_on snd (set (M_timers s))"
  by (rule inj_onI) (metis prod_eqI tq_inv_entry option.inject)

lemma tq_inv_inj_active: "tq_inv D s \<Longrightarrow> inj_on (active_of (timers s)) (set (M_timers s))"
  using tq_inv_inj by (fastforce simp: inj_on_def active_of_def)

lemma tq_inv_length [simp]:
  assumes "tq_inv D s"
  shows "length (M_timers s) = length (M_activeTimers s)"
proof -
  have "length (M_activeTimers s) = card (set (M_activeTimers s))"
    and "length (M_timers s) = card (set (M_timers s))"
    using tq_invD(1,2) [OF assms] by (auto simp: ordered_set_def dest!: distinct_card)
  with card_image [OF tq_inv_inj_active [OF assms]] tq_invD(4) [OF assms] show ?thesis by simp
qed

lemma tq_inv_detached: "tq_inv D s \<Longrightarrow> a \<in> D \<Longrightarrow> \<exists>t. timers s a = Some t"
  by (auto simp: tq_inv_def)

text \<open>Fields the invariant does not mention.\<close>

lemma tq_inv_other_fields [simp]:
  "tq_inv D (s\<lparr>ran := x\<rparr>) = tq_inv D s" "tq_inv D (s\<lparr>readings := n\<rparr>) = tq_inv D s"
  "tq_inv D (s\<lparr>settimes := st\<rparr>) = tq_inv D s" "tq_inv D (s\<lparr>s_numCreated := c\<rparr>) = tq_inv D s"
  "tq_inv D (s\<lparr>pending_calls := pc\<rparr>) = tq_inv D s" "tq_inv D (s\<lparr>M_callingExpiredTimers := b\<rparr>) = tq_inv D s"
  by (simp_all add: tq_inv_def)

lemma tq_inv_clear [simp]: "tq_inv D s \<Longrightarrow> tq_inv D (s\<lparr>M_cancelingTimers := []\<rparr>)"
  by (simp add: tq_inv_def)

lemma tq_inv_resetTimerfd [simp]: "tq_inv D (resetTimerfd env t s) = tq_inv D s"
  by (simp add: resetTimerfd_def read_clock_def)

section \<open>Insertion\<close>

lemma active_of_notin:
  "tq_inv D s \<Longrightarrow> a \<in> D \<Longrightarrow> (a, q) \<notin> set (M_activeTimers s)"
  using tq_invD(4,6) [of D s] by (auto simp: active_of_def)

lemma tq_inv_entry_notin: "tq_inv D s \<Longrightarrow> a \<in> D \<Longrightarrow> (t, a) \<notin> set (M_timers s)"
  using tq_invD(6) [of D s] by force

definition inserted :: "nat \<Rightarrow> 'cb timer \<Rightarrow> 'cb timer_world \<Rightarrow> 'cb timer_world" where
  "inserted a t s = s\<lparr>M_timers := insort (M_expiration t, a) (M_timers s),
     M_activeTimers := insort (a, M_sequence t) (M_activeTimers s)\<rparr>"

definition earliest :: "timestamp \<Rightarrow> 'cb timer_world \<Rightarrow> bool" where
  "earliest when s \<longleftrightarrow> (\<forall>e \<in> set (M_timers s). when < fst e)"

lemma earliest_head:
  assumes "ordered_set (M_timers s)"
  shows "(case M_timers s of [] \<Rightarrow> True | e # _ \<Rightarrow> when < fst e) = earliest when s"
  using assms
  by (fastforce simp: earliest_def ordered_set_def less_eq_prod_def split: list.splits)

lemma tq_inv_inserted:
  assumes "tq_inv D s" and "a \<in> D" and "timers s a = Some t"
  shows "tq_inv (D - {a}) (inserted a t s)"
proof -
  have "(M_expiration t, a) \<notin> set (M_timers s)" "(a, M_sequence t) \<notin> set (M_activeTimers s)"
    using assms tq_inv_entry_notin active_of_notin by blast+
  with assms show ?thesis
    unfolding tq_inv_def inserted_def
    by (auto simp: active_of_def set_insort_key)
qed

lemma insert_timer_ok:
  assumes "tq_inv D s" and "a \<in> D" and "timers s a = Some t"
  shows "insert_timer True a s = Inr (earliest (M_expiration t) s, inserted a t s)"
proof -
  have "(M_expiration t, a) \<notin> set (M_timers s)" "(a, M_sequence t) \<notin> set (M_activeTimers s)"
    using assms tq_inv_entry_notin active_of_notin by blast+
  moreover have "ordered_set (M_timers s)" using assms(1) by (simp add: tq_inv_def)
  ultimately show ?thesis
    using assms tq_inv_length [OF assms(1)]
    by (simp add: insert_timer_def Let_def set_insert_def inserted_def earliest_head)
qed

lemma inserted_fields [simp]:
  "timers (inserted a t s) = timers s" "M_cancelingTimers (inserted a t s) = M_cancelingTimers s"
  "M_callingExpiredTimers (inserted a t s) = M_callingExpiredTimers s"
  "ran (inserted a t s) = ran s" "pending_calls (inserted a t s) = pending_calls s"
  "s_numCreated (inserted a t s) = s_numCreated s"
  "set (M_timers (inserted a t s)) = insert (M_expiration t, a) (set (M_timers s))"
  by (simp_all add: inserted_def set_insort_key)

lemma addTimerInLoop_ok:
  assumes "tq_inv D s" and "a \<in> D" and "timers s a = Some t"
  shows "addTimerInLoop env True a s =
    Inr (if earliest (M_expiration t) s then resetTimerfd env (M_expiration t) (inserted a t s)
         else inserted a t s)"
  using insert_timer_ok [OF assms] assms(3) by (simp add: addTimerInLoop_def)

section \<open>Cancellation\<close>

definition cancelled :: "entry \<Rightarrow> 'cb timer_world \<Rightarrow> 'cb timer_world" where
  "cancelled e s = s\<lparr>M_timers := remove1 e (M_timers s), timers := (timers s)(snd e := None),
     M_activeTimers := remove1 (active_of (timers s) e) (M_activeTimers s)\<rparr>"

lemma tq_inv_cancelled:
  assumes inv: "tq_inv D s" and e: "e \<in> set (M_timers s)"
  shows "tq_inv D (cancelled e s)"
proof -
  have dist: "distinct (M_timers s)" "distinct (M_activeTimers s)"
    using tq_invD(1,2) [OF inv] by (simp_all add: ordered_set_def)
  have ne: "snd x \<noteq> snd e" if "x \<in> set (M_timers s)" "x \<noteq> e" for x
    using tq_inv_inj [OF inv] that e by (auto simp: inj_on_def)
  have "active_of (timers s) ` (set (M_timers s) - {e}) = set (M_activeTimers s) - {active_of (timers s) e}"
    using tq_inv_inj_active [OF inv] tq_invD(4) [OF inv] e by (auto simp: inj_on_def)
  moreover have "active_of ((timers s)(snd e := None)) ` (set (M_timers s) - {e}) =
      active_of (timers s) ` (set (M_timers s) - {e})"
    using ne by (intro image_cong) (auto simp: active_of_def)
  moreover have "dom (timers s) - {snd e} = snd ` (set (M_timers s) - {e}) \<union> D"
    using tq_invD(5,6) [OF inv] e inj_on_image_set_diff [OF tq_inv_inj [OF inv], of "set (M_timers s)" "{e}"]
    by auto
  moreover have "\<forall>x \<in> set (M_timers s) - {e}.
      \<exists>t. ((timers s)(snd e := None)) (snd x) = Some t \<and> M_expiration t = fst x"
  proof
    fix x assume x: "x \<in> set (M_timers s) - {e}"
    then obtain t where "timers s (snd x) = Some t" "M_expiration t = fst x"
      using tq_inv_entry [OF inv, of x] by blast
    with ne [of x] x show "\<exists>t. ((timers s)(snd e := None)) (snd x) = Some t \<and> M_expiration t = fst x"
      by auto
  qed
  moreover have "snd ` (set (M_timers s) - {e}) \<inter> D = {}" using tq_invD(6) [OF inv] by blast
  moreover have "\<forall>a \<in> dom (timers s) - {snd e}. 0 < a \<and> a < UINTPTR_MAX" using tq_invD(7) [OF inv] by blast
  ultimately show ?thesis
    using tq_invD(1-3) [OF inv] dist by (simp add: tq_inv_def cancelled_def)
qed

lemma cancelInLoop_active:
  assumes inv: "tq_inv D s" and e: "e \<in> set (M_timers s)" and key: "timer_key timerId = active_of (timers s) e"
  shows "cancelInLoop True timerId s = Inr (cancelled e s)"
proof -
  obtain t where t: "timers s (snd e) = Some t" "M_expiration t = fst e" using tq_inv_entry [OF inv e] .
  have "active_of (timers s) e \<in> set (M_activeTimers s)" using tq_invD(4) [OF inv] e by simp
  moreover have "length (M_timers (cancelled e s)) = length (M_activeTimers (cancelled e s))"
    by (rule tq_inv_length [OF tq_inv_cancelled [OF inv e]])
  ultimately show ?thesis
    using t e tq_inv_length [OF inv]
    by (simp add: cancelInLoop_def key set_erase_def cancelled_def active_of_def)
qed

lemma cancelInLoop_inactive:
  assumes "tq_inv D s" and "timer_key timerId \<notin> set (M_activeTimers s)"
  shows "cancelInLoop True timerId s =
    Inr (if M_callingExpiredTimers s
         then s\<lparr>M_cancelingTimers := fst (set_insert (timer_key timerId) (M_cancelingTimers s))\<rparr> else s)"
  using assms tq_inv_length [OF assms(1)] by (simp add: cancelInLoop_def Let_def)

section \<open>Callbacks\<close>

text \<open>What a callback may change: it leaves the detached timers, the marks of the dispatch and the
  requests for cancellation made before in place.\<close>

definition tq_frame :: "nat set \<Rightarrow> 'cb timer_world \<Rightarrow> 'cb timer_world \<Rightarrow> bool" where
  "tq_frame D s s' \<longleftrightarrow>
     (\<forall>a \<in> D. timers s' a = timers s a) \<and> M_callingExpiredTimers s' = M_callingExpiredTimers s \<and>
     ran s' = ran s \<and> pending_calls s' = pending_calls s \<and>
     set (M_cancelingTimers s) \<subseteq> set (M_cancelingTimers s')"

lemma tq_frame_refl [simp]: "tq_frame D s s"
  by (simp add: tq_frame_def)

lemma tq_frame_trans: "tq_frame D s s1 \<Longrightarrow> tq_frame D s1 s2 \<Longrightarrow> tq_frame D s s2"
  by (auto simp: tq_frame_def)

lemma resetTimerfd_fields [simp]:
  "timers (resetTimerfd env t s) = timers s" "M_timers (resetTimerfd env t s) = M_timers s"
  "M_activeTimers (resetTimerfd env t s) = M_activeTimers s"
  "M_cancelingTimers (resetTimerfd env t s) = M_cancelingTimers s"
  "M_callingExpiredTimers (resetTimerfd env t s) = M_callingExpiredTimers s"
  "ran (resetTimerfd env t s) = ran s" "pending_calls (resetTimerfd env t s) = pending_calls s"
  "s_numCreated (resetTimerfd env t s) = s_numCreated s"
  by (simp_all add: resetTimerfd_def read_clock_def)

lemma cancel_ok:
  assumes "tq_inv D s"
  shows "\<exists>s'. cancel True timerId s = Inr s' \<and> tq_inv D s' \<and> tq_frame D s s'"
proof (cases "timer_key timerId \<in> set (M_activeTimers s)")
  case True
  then obtain e where e: "e \<in> set (M_timers s)" "timer_key timerId = active_of (timers s) e"
    using tq_invD(4) [OF assms] by auto
  have "snd e \<notin> D" using tq_invD(6) [OF assms] e(1) by auto
  then have "tq_frame D s (cancelled e s)" by (auto simp: tq_frame_def cancelled_def)
  with cancelInLoop_active [OF assms e] tq_inv_cancelled [OF assms e(1)] show ?thesis
    by (simp add: cancel_def)
next
  case False
  with assms cancelInLoop_inactive [OF assms False] show ?thesis
    by (auto simp: cancel_def tq_frame_def set_insert_def set_insort_key tq_inv_def)
qed

lemma tq_inv_allocated:
  assumes "tq_inv D s" and "timers s a = None" and "0 < a" and "a < UINTPTR_MAX"
  shows "tq_inv (insert a D) (s\<lparr>timers := (timers s)(a \<mapsto> t), s_numCreated := n\<rparr>)"
proof -
  have notin: "a \<notin> snd ` set (M_timers s)" using tq_invD(5) [OF assms(1)] assms(2) by auto
  then have "active_of ((timers s)(a \<mapsto> t)) ` set (M_timers s) = active_of (timers s) ` set (M_timers s)"
    by (intro image_cong) (auto simp: active_of_def)
  with assms notin show ?thesis unfolding tq_inv_def by auto
qed

text \<open>The state after a timer was created and inserted by the loop thread.\<close>

definition added :: "'cb timer_env \<Rightarrow> nat \<Rightarrow> 'cb timer \<Rightarrow> 'cb timer_world \<Rightarrow> 'cb timer_world" where
  "added env a t s =
     (let s1 = s\<lparr>timers := (timers s)(a \<mapsto> t), s_numCreated := s_numCreated s + 1\<rparr>;
          s2 = inserted a t s1
      in if earliest (M_expiration t) s1 then resetTimerfd env (M_expiration t) s2 else s2)"

lemma addTimer_ok:
  assumes inv: "tq_inv D s" and ok: "alloc_ok env" and a: "alloc env (timers s) = Some a"
    and t_def: "t = fst (new_Timer cb when interval (s_numCreated s))"
  shows "addTimer env True cb when interval s = Inr (new_TimerId a (M_sequence t), added env a t s)"
    and "tq_inv D (added env a t s)" and "tq_frame D s (added env a t s)"
proof -
  have t: "new_Timer cb when interval (s_numCreated s) = (t, s_numCreated s + 1)"
    by (simp add: t_def new_Timer_def incrementAndGet_def addAndGet_def getAndAdd_def)
  have fresh: "timers s a = None" "0 < a" "a < UINTPTR_MAX" using ok a by (auto simp: alloc_ok_def)
  let ?s1 = "s\<lparr>timers := (timers s)(a \<mapsto> t), s_numCreated := s_numCreated s + 1\<rparr>"
  have inv1: "tq_inv (insert a D) ?s1" by (rule tq_inv_allocated [OF inv fresh])
  have at: "timers ?s1 a = Some t" "a \<in> insert a D" by simp_all
  have notin: "a \<notin> D" using tq_invD(5) [OF inv] fresh(1) by auto
  show "addTimer env True cb when interval s = Inr (new_TimerId a (M_sequence t), added env a t s)"
    using addTimerInLoop_ok [OF inv1 at(2,1), of env] by (simp add: addTimer_def a t added_def Let_def)
  have "insert a D - {a} = D" using notin by simp
  with tq_inv_inserted [OF inv1 at(2,1)] show "tq_inv D (added env a t s)"
    by (simp add: added_def Let_def)
  show "tq_frame D s (added env a t s)"
    using notin by (auto simp: tq_frame_def added_def Let_def)
qed

lemma run_prog_ok:
  assumes "alloc_ok env" and "tq_inv D s"
  shows "run_prog env prog s = Inl BadAlloc \<or>
    (\<exists>s'. run_prog env prog s = Inr s' \<and> tq_inv D s' \<and> tq_frame D s s')"
  using assms(2)
proof (induction prog arbitrary: s)
  case Return
  then show ?case by simp
next
  case (AddTimer cb tm interval k)
  show ?case
  proof (cases "alloc env (timers s)")
    case None
    then show ?thesis by (simp add: addTimer_def)
  next
    case (Some a)
    note add = addTimer_ok [OF AddTimer.prems assms(1) Some refl, of cb tm interval]
    from AddTimer.IH [OF rangeI add(2)] add(1) tq_frame_trans [OF add(3)] show ?thesis by fastforce
  qed
next
  case (CancelTimer timerId k)
  from cancel_ok [OF CancelTimer.prems, of timerId] obtain s1 where
    s1: "cancel True timerId s = Inr s1" "tq_inv D s1" "tq_frame D s s1" by blast
  from CancelTimer.IH [OF s1(2)] s1(1) tq_frame_trans [OF s1(3)] show ?case by fastforce
qed

section \<open>Expired timers\<close>

definition due :: "timestamp \<Rightarrow> 'cb timer_world \<Rightarrow> entry list" where
  "due tnow s = filter (\<lambda>e. fst e \<le> tnow) (M_timers s)"

definition detached :: "timestamp \<Rightarrow> 'cb timer_world \<Rightarrow> 'cb timer_world" where
  "detached tnow s = s\<lparr>M_timers := filter (\<lambda>e. \<not> fst e \<le> tnow) (M_timers s),
     M_activeTimers := filter (\<lambda>x. x \<notin> active_of (timers s) ` set (due tnow s)) (M_activeTimers s)\<rparr>"

lemma before_sentry:
  assumes "tq_inv D s" and "e \<in> set (M_timers s)"
  shows "e < (tnow, UINTPTR_MAX) \<longleftrightarrow> fst e \<le> tnow"
proof -
  have "snd e < UINTPTR_MAX" using tq_invD(5,7) [OF assms(1)] assms(2) by blast
  then show ?thesis by (cases e) (auto simp: less_prod_def)
qed

lemma erase_active_all:
  assumes "distinct (M_activeTimers s)" and "distinct (map (active_of (timers s)) es)"
    and "\<forall>e \<in> set es. timers s (snd e) \<noteq> None \<and> active_of (timers s) e \<in> set (M_activeTimers s)"
  shows "foldr_res erase_active es s =
    Inr (s\<lparr>M_activeTimers := filter (\<lambda>x. x \<notin> active_of (timers s) ` set es) (M_activeTimers s)\<rparr>)"
  using assms
proof (induction es arbitrary: s)
  case Nil
  then show ?case by simp
next
  case (Cons e es)
  let ?s = "s\<lparr>M_activeTimers := filter (\<lambda>x. x \<noteq> active_of (timers s) e) (M_activeTimers s)\<rparr>"
  from Cons.prems obtain t where "timers s (snd e) = Some t" by auto
  then have step: "erase_active e s = Inr ?s"
    using Cons.prems
    by (simp add: erase_active_def active_of_def set_erase_def remove1_distinct)
  have "foldr_res erase_active es ?s = Inr (?s\<lparr>M_activeTimers :=
      filter (\<lambda>x. x \<notin> active_of (timers ?s) ` set es) (M_activeTimers ?s)\<rparr>)"
  proof (rule Cons.IH)
    show "\<forall>x \<in> set es. timers ?s (snd x) \<noteq> None \<and> active_of (timers ?s) x \<in> set (M_activeTimers ?s)"
      using Cons.prems(2,3) by (fastforce simp: image_iff)
  qed (use Cons.prems in simp_all)
  with step show ?case by (simp add: conj_commute)
qed

lemma getExpired_ok:
  assumes inv: "tq_inv D s"
  shows "getExpired tnow s = Inr (due tnow s, detached tnow s)"
    and "tq_inv (D \<union> snd ` set (due tnow s)) (detached tnow s)"
proof -
  have sorted: "sorted (M_timers s)" and dist: "distinct (M_timers s)" "distinct (M_activeTimers s)"
    using tq_invD(1,2) [OF inv] by (simp_all add: ordered_set_def)
  have split: "takeWhile (\<lambda>e. e < (tnow, UINTPTR_MAX)) (M_timers s) = due tnow s"
    "dropWhile (\<lambda>e. e < (tnow, UINTPTR_MAX)) (M_timers s) = filter (\<lambda>e. \<not> fst e \<le> tnow) (M_timers s)"
    unfolding takeWhile_less [OF sorted] dropWhile_less [OF sorted] due_def
    by (intro filter_cong refl; simp add: before_sentry [OF inv])+
  let ?keep = "filter (\<lambda>e. \<not> fst e \<le> tnow) (M_timers s)"
  have inj: "inj_on (active_of (timers s)) (set (M_timers s))" by (rule tq_inv_inj_active [OF inv])
  have keep: "set ?keep = set (M_timers s) - set (due tnow s)" "set (due tnow s) \<subseteq> set (M_timers s)"
    by (auto simp: due_def)
  have act: "set (M_activeTimers (detached tnow s)) = active_of (timers s) ` set ?keep"
    unfolding keep(1) inj_on_image_set_diff [OF inj Diff_subset keep(2)]
    using tq_invD(4) [OF inv] by (auto simp: detached_def)
  have image: "snd ` set (M_timers s) = snd ` set ?keep \<union> snd ` set (due tnow s)"
    by (auto simp: due_def image_iff)
  have disj: "snd ` set ?keep \<inter> snd ` set (due tnow s) = {}"
    using tq_inv_inj [OF inv] by (fastforce simp: due_def inj_on_def)
  show inv': "tq_inv (D \<union> snd ` set (due tnow s)) (detached tnow s)"
    unfolding tq_inv_def act using tq_invD [OF inv] inv disj image
    by (auto simp: detached_def tq_inv_def)
  have "foldr_res erase_active (due tnow s) (s\<lparr>M_timers := ?keep\<rparr>) = Inr (detached tnow s)"
    using dist inj inv tq_invD(4) [OF inv]
    by (subst erase_active_all) (auto simp: distinct_map due_def detached_def inj_on_def tq_inv_def)
  moreover have "?keep = [] \<or> tnow < fst (hd ?keep)"
    using hd_in_set [of ?keep] by fastforce
  ultimately show "getExpired tnow s = Inr (due tnow s, detached tnow s)"
    using tq_inv_length [OF inv] tq_inv_length [OF inv']
    unfolding getExpired_def Let_def split by simp
qed

section \<open>The dispatch of the expired timers\<close>

definition callback_of :: "'cb timer_world \<Rightarrow> entry \<Rightarrow> 'cb" where
  "callback_of s e = M_callback (the (timers s (snd e)))"

text \<open>The frame of a callback that is recorded in \<open>ran\<close>.\<close>

definition ran_frame :: "nat set \<Rightarrow> 'cb timer_world \<Rightarrow> 'cb timer_world \<Rightarrow> bool" where
  "ran_frame D s s' \<longleftrightarrow> tq_frame D (s\<lparr>ran := ran s'\<rparr>) s'"

lemma ran_frame_trans: "ran_frame D s s1 \<Longrightarrow> ran_frame D s1 s2 \<Longrightarrow> ran_frame D s s2"
  by (auto simp: ran_frame_def tq_frame_def)

lemma ran_frame_refl [simp]: "ran_frame D s s"
  by (simp add: ran_frame_def tq_frame_def)

lemma run_entry_ok:
  assumes "alloc_ok env" and "tq_inv D s" and "snd e \<in> D"
  shows "run_entry env e s = Inl BadAlloc \<or>
    (\<exists>s'. run_entry env e s = Inr s' \<and> tq_inv D s' \<and> ran_frame D s s' \<and> ran s' = ran s @ [callback_of s e])"
proof -
  obtain t where t: "timers s (snd e) = Some t" using tq_inv_detached [OF assms(2,3)] by blast
  have inv: "tq_inv D (s\<lparr>ran := ran s @ [M_callback t]\<rparr>)" using assms(2) by simp
  from run_prog_ok [OF assms(1) inv, of "body env (M_callback t)"] t show ?thesis
    by (auto simp: run_entry_def run_timer_def callback_of_def ran_frame_def tq_frame_def)
qed

lemma run_entries_ok:
  assumes "alloc_ok env" and "tq_inv D s" and "snd ` set es \<subseteq> D"
  shows "foldr_res (run_entry env) es s = Inl BadAlloc \<or>
    (\<exists>s'. foldr_res (run_entry env) es s = Inr s' \<and> tq_inv D s' \<and> ran_frame D s s' \<and>
      ran s' = ran s @ map (callback_of s) es)"
  using assms(2,3)
proof (induction es arbitrary: s)
  case Nil
  then show ?case by simp
next
  case (Cons e es)
  from Cons.prems(2) have e: "snd e \<in> D" and es: "snd ` set es \<subseteq> D" by auto
  from run_entry_ok [OF assms(1) Cons.prems(1) e] show ?case
  proof (elim disjE exE conjE)
    fix s1 assume s1: "run_entry env e s = Inr s1" "tq_inv D s1" "ran_frame D s s1"
      "ran s1 = ran s @ [callback_of s e]"
    have "map (callback_of s1) es = map (callback_of s) es"
      using s1(3) es by (auto simp: callback_of_def ran_frame_def tq_frame_def)
    with Cons.IH [OF s1(2) es] s1 ran_frame_trans [OF s1(3)] show ?thesis by fastforce
  qed simp
qed

section \<open>Re-arming\<close>

definition rearmed :: "'cb timer_world \<Rightarrow> entry \<Rightarrow> bool" where
  "rearmed s e \<longleftrightarrow>
     M_repeat (the (timers s (snd e))) \<and> active_of (timers s) e \<notin> set (M_cancelingTimers s)"

definition restarted :: "timestamp \<Rightarrow> 'cb timer_world \<Rightarrow> entry \<Rightarrow> 'cb timer" where
  "restarted tnow s e = restart tnow (the (timers s (snd e)))"

text \<open>What the loop of \<^verbatim>\<open>reset\<close> leaves behind.\<close>

definition reset_result :: "timestamp \<Rightarrow> entry list \<Rightarrow> 'cb timer_world \<Rightarrow> 'cb timer_world \<Rightarrow> bool" where
  "reset_result tnow es s s' \<longleftrightarrow>
     (\<forall>e \<in> set es. timers s' (snd e) = (if rearmed s e then Some (restarted tnow s e) else None)) \<and>
     (\<forall>a. a \<notin> snd ` set es \<longrightarrow> timers s' a = timers s a) \<and>
     set (M_timers s') = set (M_timers s) \<union>
       (\<lambda>e. (M_expiration (restarted tnow s e), snd e)) ` {e \<in> set es. rearmed s e} \<and>
     M_cancelingTimers s' = M_cancelingTimers s \<and> M_callingExpiredTimers s' = M_callingExpiredTimers s \<and>
     ran s' = ran s \<and> pending_calls s' = pending_calls s"

lemma restart_fields [simp]:
  "M_sequence (restart tnow t) = M_sequence t" "M_callback (restart tnow t) = M_callback t"
  "M_repeat (restart tnow t) = M_repeat t" "M_interval (restart tnow t) = M_interval t"
  by (simp_all add: restart_def)

lemma tq_inv_change_detached:
  assumes "tq_inv D s" and "a \<in> D"
  shows "tq_inv D (s\<lparr>timers := (timers s)(a \<mapsto> t)\<rparr>)"
    and "tq_inv (D - {a}) (s\<lparr>timers := (timers s)(a := None)\<rparr>)"
proof -
  have notin: "a \<notin> snd ` set (M_timers s)" using tq_invD(6) [OF assms(1)] assms(2) by auto
  then have "active_of ((timers s)(a := x)) ` set (M_timers s) = active_of (timers s) ` set (M_timers s)" for x
    by (intro image_cong) (auto simp: active_of_def)
  moreover have "\<forall>e \<in> set (M_timers s). \<exists>t. ((timers s)(a := x)) (snd e) = Some t \<and> M_expiration t = fst e" for x
    using assms(1) notin by (auto simp: tq_inv_def)
  ultimately show "tq_inv D (s\<lparr>timers := (timers s)(a \<mapsto> t)\<rparr>)"
    and "tq_inv (D - {a}) (s\<lparr>timers := (timers s)(a := None)\<rparr>)"
    using tq_invD [OF assms(1)] assms(2) notin by (auto simp: tq_inv_def)
qed

lemma reset_entry_ok:
  assumes "tq_inv D s" and "snd e \<in> D"
  shows "\<exists>s'. reset_entry tnow e s = Inr s' \<and> tq_inv (D - {snd e}) s' \<and> reset_result tnow [e] s s'"
proof -
  obtain t where t: "timers s (snd e) = Some t" using tq_inv_detached [OF assms] by blast
  show ?thesis
  proof (cases "rearmed s e")
    case True
    let ?s = "s\<lparr>timers := (timers s)(snd e \<mapsto> restart tnow t)\<rparr>"
    have inv: "tq_inv D ?s" by (rule tq_inv_change_detached(1) [OF assms])
    have "timers ?s (snd e) = Some (restart tnow t)" by simp
    note ins = insert_timer_ok [OF inv assms(2) this] tq_inv_inserted [OF inv assms(2) this]
    have "reset_entry tnow e s = Inr (inserted (snd e) (restart tnow t) ?s)"
      using t True ins(1) by (simp add: reset_entry_def rearmed_def active_of_def)
    moreover have "reset_result tnow [e] s (inserted (snd e) (restart tnow t) ?s)"
      using True t by (auto simp: reset_result_def restarted_def)
    ultimately show ?thesis using ins(2) by blast
  next
    case False
    then have "reset_entry tnow e s = Inr (s\<lparr>timers := (timers s)(snd e := None)\<rparr>)"
      using t by (auto simp: reset_entry_def rearmed_def active_of_def)
    moreover have "reset_result tnow [e] s (s\<lparr>timers := (timers s)(snd e := None)\<rparr>)"
      using False by (auto simp: reset_result_def)
    ultimately show ?thesis using tq_inv_change_detached(2) [OF assms] by blast
  qed
qed

lemma reset_entries_ok:
  assumes "tq_inv D s" and "snd ` set es \<subseteq> D" and "distinct (map snd es)"
  shows "\<exists>s'. foldr_res (reset_entry tnow) es s = Inr s' \<and> tq_inv (D - snd ` set es) s' \<and>
    reset_result tnow es s s'"
  using assms
proof (induction es arbitrary: D s)
  case Nil
  then show ?case by (simp add: reset_result_def)
next
  case (Cons e es)
  from Cons.prems reset_entry_ok [of D s e tnow] obtain s1 where
    s1: "reset_entry tnow e s = Inr s1" "tq_inv (D - {snd e}) s1" "reset_result tnow [e] s s1" by auto
  have sub: "snd ` set es \<subseteq> D - {snd e}" using Cons.prems(2,3) by (simp add: subset_Diff_insert)
  from Cons.IH [OF s1(2) sub] Cons.prems(3) obtain s2 where
    s2: "foldr_res (reset_entry tnow) es s1 = Inr s2" "tq_inv (D - {snd e} - snd ` set es) s2"
      "reset_result tnow es s1 s2" by auto
  have same: "timers s1 (snd x) = timers s (snd x)" if "x \<in> set es" for x
    using s1(3) Cons.prems(3) that by (auto simp: reset_result_def image_iff)
  have eq: "rearmed s1 x = rearmed s x" "restarted tnow s1 x = restarted tnow s x" if "x \<in> set es" for x
    using same [OF that] s1(3) by (auto simp: rearmed_def restarted_def active_of_def reset_result_def)
  have "reset_result tnow (e # es) s s2"
    using s1(3) s2(3) eq Cons.prems(3) unfolding reset_result_def by auto
  moreover have "D - {snd e} - snd ` set es = D - snd ` set (e # es)" by auto
  ultimately show ?case using s1(1) s2(1,2) by auto
qed

section \<open>Handling of an alarm\<close>

lemma run_entry_cancels:
  assumes "alloc_ok env" and "tq_inv D s" and "snd e \<in> D" and "M_callingExpiredTimers s"
    and "body env (callback_of s e) = CancelTimer timerId k" and "fst (timer_key timerId) \<in> D"
    and "run_entry env e s = Inr s'"
  shows "timer_key timerId \<in> set (M_cancelingTimers s')"
proof -
  obtain t where t: "timers s (snd e) = Some t" using tq_inv_detached [OF assms(2,3)] by blast
  let ?s = "s\<lparr>ran := ran s @ [M_callback t]\<rparr>"
  let ?s1 = "?s\<lparr>M_cancelingTimers := fst (set_insert (timer_key timerId) (M_cancelingTimers ?s))\<rparr>"
  have inv: "tq_inv D ?s" using assms(2) by simp
  have "timer_key timerId \<notin> set (M_activeTimers ?s)"
    using active_of_notin [OF inv assms(6), of "snd (timer_key timerId)"] by simp
  from cancelInLoop_inactive [OF inv this] assms(4) have c: "cancel True timerId ?s = Inr ?s1"
    by (simp add: cancel_def)
  with cancel_ok [OF inv, of timerId] have "tq_inv D ?s1" by auto
  moreover have "run_prog env k ?s1 = Inr s'"
    using assms(5,7) t c by (simp add: run_entry_def run_timer_def callback_of_def)
  ultimately have "tq_frame D ?s1 s'" using run_prog_ok [OF assms(1), of D ?s1 k] by auto
  moreover have "timer_key timerId \<in> set (M_cancelingTimers ?s1)"
    by (simp add: set_insert_def set_insort_key)
  ultimately show ?thesis unfolding tq_frame_def by blast
qed

lemma run_entries_cancel:
  assumes "alloc_ok env" and "tq_inv D s" and "snd ` set es \<subseteq> D" and "M_callingExpiredTimers s"
    and "e \<in> set es" and "body env (callback_of s e) = CancelTimer timerId k"
    and "fst (timer_key timerId) \<in> D" and "foldr_res (run_entry env) es s = Inr s'"
  shows "timer_key timerId \<in> set (M_cancelingTimers s')"
proof -
  obtain xs ys where es: "es = xs @ e # ys" using split_list [OF assms(5)] by blast
  obtain s1 s2 where s1: "foldr_res (run_entry env) xs s = Inr s1" and s2: "run_entry env e s1 = Inr s2"
    and s': "foldr_res (run_entry env) ys s2 = Inr s'"
    using assms(8) by (auto simp: es foldr_res_append)
  from run_entries_ok [OF assms(1,2), of xs] s1 assms(3) have 1: "tq_inv D s1" "ran_frame D s s1"
    by (auto simp: es)
  have e: "snd e \<in> D" using assms(3) es by auto
  have "callback_of s1 e = callback_of s e" "M_callingExpiredTimers s1"
    using 1(2) e assms(4) by (simp_all add: callback_of_def ran_frame_def tq_frame_def)
  with run_entry_cancels [OF assms(1) 1(1) e _ _ assms(7) s2] assms(6)
  have "timer_key timerId \<in> set (M_cancelingTimers s2)" by simp
  moreover have "tq_inv D s2" using run_entry_ok [OF assms(1) 1(1) e] s2 by auto
  from run_entries_ok [OF assms(1) this, of ys] s' assms(3) have "ran_frame D s2 s'" by (auto simp: es)
  ultimately show ?thesis by (auto simp: ran_frame_def tq_frame_def)
qed

text \<open>The state in which the callbacks run.\<close>

definition alarm_state :: "'cb timer_env \<Rightarrow> 'cb timer_world \<Rightarrow> 'cb timer_world" where
  "alarm_state env s =
     (detached (clock env (readings s)) (s\<lparr>readings := Suc (readings s)\<rparr>))
       \<lparr>M_callingExpiredTimers := True, M_cancelingTimers := []\<rparr>"

lemma alarm_state_fields [simp]:
  "timers (alarm_state env s) = timers s" "ran (alarm_state env s) = ran s"
  "M_callingExpiredTimers (alarm_state env s)" "callback_of (alarm_state env s) = callback_of s"
  by (simp_all add: alarm_state_def detached_def callback_of_def fun_eq_iff)

lemma due_readings [simp]: "due tnow (s\<lparr>readings := n\<rparr>) = due tnow s"
  by (simp add: due_def)

lemma tq_inv_alarm_state:
  assumes "tq_inv D s"
  shows "tq_inv (D \<union> snd ` set (due (clock env (readings s)) s)) (alarm_state env s)"
  using getExpired_ok(2) [of D "s\<lparr>readings := Suc (readings s)\<rparr>" "clock env (readings s)"] assms
  by (simp add: alarm_state_def)

text \<open>The descriptor was last set, at some reading of the clock, for the time \<open>w\<close>.\<close>

definition armed_for :: "'cb timer_env \<Rightarrow> timestamp \<Rightarrow> 'cb timer_world \<Rightarrow> bool" where
  "armed_for env w s \<longleftrightarrow>
     settimes s \<noteq> [] \<and> (\<exists>n. last (settimes s) = howMuchTimeFromNow (clock env n) w)"

lemma armed_for_resetTimerfd: "armed_for env w (resetTimerfd env w s)"
  by (auto simp: armed_for_def resetTimerfd_def read_clock_def)

lemma tq_reset_ok:
  assumes "tq_inv (D \<union> snd ` set es) s" and "D \<inter> snd ` set es = {}" and "distinct (map snd es)"
  shows "\<exists>s'. tq_reset env es tnow s = Inr s' \<and> tq_inv D s' \<and> reset_result tnow es s s' \<and>
    (M_timers s' \<noteq> [] \<and> valid (fst (hd (M_timers s'))) \<longrightarrow> armed_for env (fst (hd (M_timers s'))) s')"
proof -
  from reset_entries_ok [OF assms(1) _ assms(3), of tnow] obtain s1 where
    s1: "foldr_res (reset_entry tnow) es s = Inr s1" "tq_inv (D \<union> snd ` set es - snd ` set es) s1"
      "reset_result tnow es s s1" by auto
  have "D \<union> snd ` set es - snd ` set es = D" using assms(2) by auto
  with s1(2) have inv: "tq_inv D s1" by simp
  have next_expire: "(case M_timers s1 of [] \<Rightarrow> Inr invalid
      | e # _ \<Rightarrow> with_timer s1 (snd e) (\<lambda>t. Inr (M_expiration t))) =
      Inr (if M_timers s1 = [] then invalid else fst (hd (M_timers s1)))"
  proof (cases "M_timers s1")
    case (Cons e es')
    then obtain t where "timers s1 (snd e) = Some t" "M_expiration t = fst e"
      using tq_inv_entry [OF inv, of e] by auto
    with Cons show ?thesis by simp
  qed simp
  have result: "reset_result tnow es s (resetTimerfd env t s1)" for t
    using s1(3) by (simp add: reset_result_def)
  from inv s1(3) result show ?thesis
    by (simp add: tq_reset_def s1(1) next_expire armed_for_resetTimerfd)
qed

lemma handleRead_ok:
  assumes "alloc_ok env" and "tq_inv D s"
  defines "es \<equiv> due (clock env (readings s)) s"
  shows "tq_handleRead env True s = Inl BadAlloc \<or>
    (\<exists>s1 s'. foldr_res (run_entry env) es (alarm_state env s) = Inr s1 \<and>
      tq_handleRead env True s = Inr s' \<and> tq_inv D s' \<and> ran s' = ran s @ map (callback_of s) es \<and>
      (\<forall>e \<in> set es. timers s1 (snd e) = timers s (snd e)) \<and> \<not> M_callingExpiredTimers s' \<and>
      reset_result (clock env (readings s)) es (s1\<lparr>M_callingExpiredTimers := False\<rparr>) s' \<and>
      (M_timers s' \<noteq> [] \<and> valid (fst (hd (M_timers s'))) \<longrightarrow> armed_for env (fst (hd (M_timers s'))) s'))"
proof -
  let ?t = "clock env (readings s)"
  let ?D = "D \<union> snd ` set es"
  have inv: "tq_inv ?D (alarm_state env s)" unfolding es_def by (rule tq_inv_alarm_state [OF assms(2)])
  have es: "set es \<subseteq> set (M_timers s)" by (auto simp: es_def due_def)
  have dist: "distinct (map snd es)"
    using tq_invD(1) [OF assms(2)] inj_on_subset [OF tq_inv_inj [OF assms(2)] es]
    by (simp add: distinct_map es_def due_def ordered_set_def)
  have disj: "D \<inter> snd ` set es = {}" using tq_invD(6) [OF assms(2)] es by auto
  have expired: "getExpired ?t (s\<lparr>readings := Suc (readings s)\<rparr>) =
      Inr (es, detached ?t (s\<lparr>readings := Suc (readings s)\<rparr>))"
    using getExpired_ok(1) [of D "s\<lparr>readings := Suc (readings s)\<rparr>" ?t] assms(2) by (simp add: es_def)
  have run: "tq_handleRead env True s =
      bindr (foldr_res (run_entry env) es (alarm_state env s)) (\<lambda>s1.
        tq_reset env es ?t (s1\<lparr>M_callingExpiredTimers := False\<rparr>))"
    by (simp add: tq_handleRead_def read_clock_def expired alarm_state_def Let_def)
  from run_entries_ok [OF assms(1) inv Un_upper2] show ?thesis
  proof (elim disjE exE conjE)
    fix s1 assume s1: "foldr_res (run_entry env) es (alarm_state env s) = Inr s1" "tq_inv ?D s1"
      "ran_frame ?D (alarm_state env s) s1"
      "ran s1 = ran (alarm_state env s) @ map (callback_of (alarm_state env s)) es"
    have "tq_inv ?D (s1\<lparr>M_callingExpiredTimers := False\<rparr>)" using s1(2) by simp
    from tq_reset_ok [OF this disj dist, of env ?t] obtain s' where
      s': "tq_reset env es ?t (s1\<lparr>M_callingExpiredTimers := False\<rparr>) = Inr s'" "tq_inv D s'"
        "reset_result ?t es (s1\<lparr>M_callingExpiredTimers := False\<rparr>) s'"
        "M_timers s' \<noteq> [] \<and> valid (fst (hd (M_timers s'))) \<longrightarrow> armed_for env (fst (hd (M_timers s'))) s'"
      by blast
    moreover have "ran s' = ran s @ map (callback_of s) es" "\<not> M_callingExpiredTimers s'"
      using s'(3) s1(4) by (simp_all add: reset_result_def)
    moreover have "\<forall>e \<in> set es. timers s1 (snd e) = timers s (snd e)"
      using s1(3) by (simp add: ran_frame_def tq_frame_def)
    ultimately show ?thesis using s1(1) by (simp add: run)
  qed (simp_all add: run)
qed

section \<open>A concrete queue\<close>

text \<open>The queue holds a repeating timer at address 16 and a one-shot timer at address 32; the callback
  of the first cancels its own timer.\<close>

definition sample_alloc :: "(nat \<rightharpoonup> nat timer) \<Rightarrow> nat option" where
  "sample_alloc h = (if h 48 = None then Some 48 else if h 64 = None then Some 64 else None)"

definition sample_env :: "nat timer_env" where
  "sample_env = \<lparr>clock = (\<lambda>n. Timestamp (2000000 + int n)), alloc = sample_alloc,
     body = (\<lambda>cb. if cb = 1 then CancelTimer (new_TimerId 16 1) Return else Return)\<rparr>"

definition sample_timer1 :: "nat timer" where
  "sample_timer1 = \<lparr>M_callback = 1, M_expiration = Timestamp 1000000, M_interval = 1 / 2,
     M_repeat = True, M_sequence = 1\<rparr>"

definition sample_timer2 :: "nat timer" where
  "sample_timer2 = \<lparr>M_callback = 2, M_expiration = Timestamp 1500000, M_interval = 0,
     M_repeat = False, M_sequence = 2\<rparr>"

definition sample_world :: "nat timer_world" where
  "sample_world = \<lparr>M_timerfd = 4, M_timerfdChannel = 0,
     M_timers = [(Timestamp 1000000, 16), (Timestamp 1500000, 32)], M_activeTimers = [(16, 1), (32, 2)],
     M_callingExpiredTimers = False, M_cancelingTimers = [],
     timers = [16 \<mapsto> sample_timer1, 32 \<mapsto> sample_timer2],
     s_numCreated = 2, readings = 0, settimes = [(0, 100000)], pending_calls = [], ran = []\<rparr>"

lemmas tq_sample = sample_world_def sample_env_def sample_timer1_def sample_timer2_def sample_alloc_def

lemmas tq_eval = tq_handleRead_def read_clock_def getExpired_def less_prod_def timestamp_order
  UINTPTR_MAX_def erase_active_def set_erase_def run_entry_def run_timer_def
  cancel_def cancelInLoop_def timer_key_def new_TimerId_def set_insert_def tq_reset_def
  reset_entry_def valid_def invalid_def

lemma sample_alloc_ok: "alloc_ok sample_env"
  by (auto simp: alloc_ok_def sample_env_def sample_alloc_def UINTPTR_MAX_def)

lemma sample_inv: "tq_inv {} sample_world"
  by (auto simp: tq_inv_def tq_sample ordered_set_def active_of_def timestamp_order
      less_prod_def less_eq_prod_def UINTPTR_MAX_def)

lemma sample_due: "due (clock sample_env (readings sample_world)) sample_world =
    [(Timestamp 1000000, 16), (Timestamp 1500000, 32)]"
  by (simp add: due_def tq_sample timestamp_order)

section \<open>Properties\<close>

text \<open>C5. An alarm runs the callbacks of exactly the timers that are due, ordered by expiration,
  whatever timers the callbacks add or cancel; no assertion fails and no freed timer is used.
  Afterwards a due timer that repeats and was not cancelled meanwhile is restarted relative to
  the time of the alarm, every other due timer is freed, and the invariant holds again. Only
  the allocator can stop it.\<close>

theorem timer_alarm_correct:
  assumes "alloc_ok env" and "tq_inv D s" and "tq_handleRead env True s \<noteq> Inl BadAlloc"
  shows "\<exists>s'. tq_handleRead env True s = Inr s' \<and> tq_inv D s' \<and>
    ran s' = ran s @ map (callback_of s) (due (clock env (readings s)) s) \<and>
    (\<forall>e \<in> set (due (clock env (readings s)) s). timers s' (snd e) =
      (if M_repeat (the (timers s (snd e))) \<and> active_of (timers s) e \<notin> set (M_cancelingTimers s')
       then Some (restart (clock env (readings s)) (the (timers s (snd e)))) else None))"
  using handleRead_ok [OF assms(1,2)] assms(3)
  by (auto simp: reset_result_def rearmed_def restarted_def active_of_def)

theorem timer_alarm_correct_witness:
  "\<exists>s'. tq_handleRead sample_env True sample_world = Inr s' \<and> tq_inv {} s' \<and>
    ran s' = ran sample_world @ map (callback_of sample_world)
      (due (clock sample_env (readings sample_world)) sample_world) \<and>
    (\<forall>e \<in> set (due (clock sample_env (readings sample_world)) sample_world). timers s' (snd e) =
      (if M_repeat (the (timers sample_world (snd e))) \<and>
          active_of (timers sample_world) e \<notin> set (M_cancelingTimers s')
       then Some (restart (clock sample_env (readings sample_world)) (the (timers sample_world (snd e))))
       else None))"
proof (rule timer_alarm_correct [OF sample_alloc_ok sample_inv])
  show "tq_handleRead sample_env True sample_world \<noteq> Inl BadAlloc"
    by (simp add: tq_sample tq_eval)
qed

text \<open>C23. A timer that is cancelled from a callback of the same alarm, be it its own callback or that
  of another due timer, is not re-armed: it is freed, even when it repeats.\<close>

theorem callback_cancel_prevents_rearm:
  assumes "alloc_ok env" and "tq_inv D s"
    and "e \<in> set (due (clock env (readings s)) s)" and "e' \<in> set (due (clock env (readings s)) s)"
    and "body env (callback_of s e) = CancelTimer timerId k"
    and "timer_key timerId = active_of (timers s) e'"
    and "tq_handleRead env True s = Inr s'"
  shows "timers s' (snd e') = None"
proof -
  let ?es = "due (clock env (readings s)) s"
  from handleRead_ok [OF assms(1,2)] assms(7) obtain s1 where
    s1: "foldr_res (run_entry env) ?es (alarm_state env s) = Inr s1"
      "\<forall>e \<in> set ?es. timers s1 (snd e) = timers s (snd e)"
      "reset_result (clock env (readings s)) ?es (s1\<lparr>M_callingExpiredTimers := False\<rparr>) s'" by auto
  have "fst (timer_key timerId) \<in> D \<union> snd ` set ?es" using assms(4,6) by (simp add: active_of_def)
  from run_entries_cancel [OF assms(1) tq_inv_alarm_state [OF assms(2)] Un_upper2 _ assms(3) _ this s1(1)]
    assms(5) have "timer_key timerId \<in> set (M_cancelingTimers s1)" by simp
  with s1(2,3) assms(4,6) show ?thesis by (auto simp: reset_result_def rearmed_def active_of_def)
qed

theorem callback_cancel_prevents_rearm_witness:
  "timers (projr (tq_handleRead sample_env True sample_world)) (snd (Timestamp 1000000, 16 :: nat)) = None"
proof (rule callback_cancel_prevents_rearm [OF sample_alloc_ok sample_inv, where
      e = "(Timestamp 1000000, 16)" and timerId = "new_TimerId 16 1" and k = Return])
  show "tq_handleRead sample_env True sample_world = Inr (projr (tq_handleRead sample_env True sample_world))"
    by (simp add: tq_sample tq_eval)
qed (simp_all add: sample_due, simp_all add: tq_sample callback_of_def timer_key_def active_of_def new_TimerId_def)

text \<open>\<^verbatim>\<open>cancel\<close> in the loop thread never fails. It removes and frees exactly the timer with the
  address and the sequence number of the id; an id whose timer is gone, also one whose address
  was given to a newer timer, leaves every timer in place.\<close>

theorem cancel_removes_only_that_timer:
  assumes "tq_inv D s"
  shows "\<exists>s'. cancelInLoop True timerId s = Inr s' \<and> tq_inv D s' \<and>
    (if timer_key timerId \<in> set (M_activeTimers s)
     then timers s' = (timers s)(fst (timer_key timerId) := None) \<and>
       set (M_timers s') = {e \<in> set (M_timers s). snd e \<noteq> fst (timer_key timerId)}
     else timers s' = timers s \<and> M_timers s' = M_timers s \<and> M_activeTimers s' = M_activeTimers s)"
proof (cases "timer_key timerId \<in> set (M_activeTimers s)")
  case True
  then obtain e where e: "e \<in> set (M_timers s)" "timer_key timerId = active_of (timers s) e"
    using tq_invD(4) [OF assms] by auto
  have "set (remove1 e (M_timers s)) = {x \<in> set (M_timers s). snd x \<noteq> snd e}"
    using tq_invD(1) [OF assms] tq_inv_inj [OF assms] e(1) by (auto simp: ordered_set_def inj_on_def)
  with True cancelInLoop_active [OF assms e] tq_inv_cancelled [OF assms e(1)] e(2) show ?thesis
    by (simp add: cancelled_def active_of_def)
next
  case False
  with assms cancel_ok [OF assms, of timerId] cancelInLoop_inactive [OF assms False] show ?thesis
    by (auto simp: cancel_def)
qed

theorem cancel_removes_only_that_timer_witness:
  "\<exists>s'. cancelInLoop True (new_TimerId 16 7) sample_world = Inr s' \<and> tq_inv {} s' \<and>
    (if timer_key (new_TimerId 16 7) \<in> set (M_activeTimers sample_world)
     then timers s' = (timers sample_world)(fst (timer_key (new_TimerId 16 7)) := None) \<and>
       set (M_timers s') = {e \<in> set (M_timers sample_world). snd e \<noteq> fst (timer_key (new_TimerId 16 7))}
     else timers s' = timers sample_world \<and> M_timers s' = M_timers sample_world \<and>
       M_activeTimers s' = M_activeTimers sample_world)"
  by (rule cancel_removes_only_that_timer [OF sample_inv])

definition armed_in_time :: "'cb timer_env \<Rightarrow> 'cb timer_world \<Rightarrow> bool" where
  "armed_in_time env s \<longleftrightarrow> (\<forall>e \<in> set (M_timers s). \<exists>w \<le> fst e. armed_for env w s)"

lemma armed_for_cong: "settimes s' = settimes s \<Longrightarrow> armed_for env w s' = armed_for env w s"
  by (simp add: armed_for_def)

lemma armed_in_time_added:
  assumes "armed_in_time env s"
  shows "armed_in_time env (added env a t s)"
proof (cases "earliest (M_expiration t) s")
  case True
  then show ?thesis
    by (auto simp: armed_in_time_def added_def Let_def earliest_def armed_for_resetTimerfd
        intro!: exI [of _ "M_expiration t"])
next
  case False
  then obtain e where e: "e \<in> set (M_timers s)" "fst e \<le> M_expiration t" by (auto simp: earliest_def not_less)
  have st: "settimes (added env a t s) = settimes s"
    and ts: "set (M_timers (added env a t s)) = insert (M_expiration t, a) (set (M_timers s))"
    using False by (auto simp: added_def Let_def earliest_def inserted_def set_insort_key)
  from assms e obtain w where "w \<le> M_expiration t" "armed_for env w s"
    unfolding armed_in_time_def by (meson order_trans)
  with assms show ?thesis
    unfolding armed_in_time_def ts armed_for_cong [OF st] by auto
qed

lemma cancel_settimes:
  assumes "tq_inv D s" and "cancel True timerId s = Inr s'"
  shows "settimes s' = settimes s" and "set (M_timers s') \<subseteq> set (M_timers s)"
proof -
  have "settimes s' = settimes s \<and> set (M_timers s') \<subseteq> set (M_timers s)"
  proof (cases "timer_key timerId \<in> set (M_activeTimers s)")
    case True
    then obtain e where e: "e \<in> set (M_timers s)" "timer_key timerId = active_of (timers s) e"
      using tq_invD(4) [OF assms(1)] by auto
    with cancelInLoop_active [OF assms(1) e] assms(2) show ?thesis
      by (auto simp: cancel_def cancelled_def dest: in_set_remove1 notin_set_remove1 set_remove1_subset [THEN subsetD])
  next
    case False
    with cancelInLoop_inactive [OF assms(1) False] assms(2) show ?thesis
      by (auto simp: cancel_def split: if_splits)
  qed
  then show "settimes s' = settimes s" and "set (M_timers s') \<subseteq> set (M_timers s)" by simp_all
qed

lemma armed_in_time_alarm:
  assumes "alloc_ok env" and "tq_inv D s" and "tq_handleRead env True s = Inr s'"
    and "M_timers s' = [] \<or> valid (fst (hd (M_timers s')))"
  shows "armed_in_time env s'"
proof (cases "M_timers s'")
  case Nil
  then show ?thesis by (simp add: armed_in_time_def)
next
  case (Cons e es)
  from handleRead_ok [OF assms(1,2)] assms(3,4) Cons have "armed_for env (fst e) s'" "tq_inv D s'"
    by auto
  moreover from tq_invD(1) [OF this(2)] Cons have "fst e \<le> fst x" if "x \<in> set (M_timers s')" for x
    using that by (auto simp: ordered_set_def less_eq_prod_def)
  ultimately show ?thesis unfolding armed_in_time_def by blast
qed

lemma armed_in_time_cancel:
  assumes "tq_inv D s" and "cancel True timerId s = Inr s'" and "armed_in_time env s"
  shows "armed_in_time env s'"
proof -
  note c = cancel_settimes [OF assms(1,2)]
  show ?thesis using assms(3) c(2) unfolding armed_in_time_def armed_for_cong [OF c(1)] by blast
qed

datatype 'cb tq_op = OpAdd 'cb timestamp double | OpCancel timer_id | OpAlarm

fun run_op :: "'cb timer_env \<Rightarrow> 'cb tq_op \<Rightarrow> 'cb timer_world \<Rightarrow> 'cb timer_world res" where
  "run_op env (OpAdd cb tm interval) s = bindr (addTimer env True cb tm interval s) (\<lambda>(_, s). Inr s)"
| "run_op env (OpCancel timerId) s = cancel True timerId s"
| "run_op env OpAlarm s = tq_handleRead env True s"



end
