(* ===== verification/EventLoop.thy ===== *)
theory EventLoop
  imports TimerQueue
begin

text \<open>
  The class \<^verbatim>\<open>EventLoop\<close> (include/EventLoop.h, src/EventLoop.cpp).

  \<^item> A thread is its id; an operation takes the id of the calling thread. The channels of the loop
    are a heap beside the record of the loop, as in the theory of channels.
  \<^item> \<open>eventfd\<close> is the counter of the eventfd behind \<open>M_wakeupFd\<close>: eventfd(2) adds what is written,
    a read clears it and the descriptor is readable while it is not 0.
  \<^item> What a callback does is a \<open>loop_prog\<close>: it queues functors, quits, schedules and cancels timers;
    what it does next may depend on the ids of the timers. \<open>call_functor\<close> runs a functor, be it
    one of the user or one of the library's own.
  \<^item> \<open>loop\<close> takes one \<open>poll_input\<close> for every return of the poll and stops when \<open>M_quit\<close> is set; the
    result says whether it left the loop or waits in the poll when the inputs are used up.
\<close>

section \<open>State\<close>

datatype 'f loop_functor = User 'f | TimerTask tq_functor | TimerAlarm | WakeupRead

record 'f event_loop =
  M_self :: nat
  M_looping :: bool
  M_quit :: bool
  M_loopEventHandling :: bool
  M_callingPendingFunctors :: bool
  M_iteration :: int64
  M_threadId :: int
  M_pollReturnTime :: timestamp
  M_poller :: any_poller
  M_timerQueue :: "'f timer_world"
  M_wakeupFd :: int
  M_wakeupChannel :: nat
  M_activeChannels :: "nat list"
  M_currentActiveChannel :: "nat option"
  M_pendingFunctors :: "'f loop_functor list"
  M_loopContext :: any
  eventfd :: nat

definition kPollTimeMs :: int where "kPollTimeMs = 10000"

definition createEventfd :: "int \<Rightarrow> int res" where
  "createEventfd evtfd = (if evtfd < 0 then Inl (Fatal ''Failed in eventfd'') else Inr evtfd)"

definition isInLoopThread :: "int \<Rightarrow> 'f event_loop \<Rightarrow> bool" where
  "isInLoopThread tid l \<longleftrightarrow> M_threadId l = tid"

definition pollReturnTime :: "'f event_loop \<Rightarrow> timestamp" where "pollReturnTime l = M_pollReturnTime l"
definition iteration :: "'f event_loop \<Rightarrow> int64" where "iteration l = M_iteration l"
definition loop_eventHandling :: "'f event_loop \<Rightarrow> bool" where "loop_eventHandling l = M_loopEventHandling l"

text \<open>\<^verbatim>\<open>getMutableContext\<close> gives a pointer to the context; \<open>f\<close> is what is done through it.\<close>

definition loop_setContext :: "any \<Rightarrow> 'f event_loop \<Rightarrow> 'f event_loop" where
  "loop_setContext context l = l\<lparr>M_loopContext := context\<rparr>"

definition loop_getContext :: "'f event_loop \<Rightarrow> any" where "loop_getContext l = M_loopContext l"

definition loop_getMutableContext :: "(any \<Rightarrow> any) \<Rightarrow> 'f event_loop \<Rightarrow> 'f event_loop" where
  "loop_getMutableContext f l = l\<lparr>M_loopContext := f (M_loopContext l)\<rparr>"

section \<open>Queueing\<close>

definition wakeup :: "'f event_loop \<Rightarrow> 'f event_loop" where
  "wakeup l = l\<lparr>eventfd := eventfd l + 1\<rparr>"

definition loop_handleRead :: "'f event_loop \<Rightarrow> 'f event_loop" where
  "loop_handleRead l = l\<lparr>eventfd := 0\<rparr>"

text \<open>The critical section of \<^verbatim>\<open>queueInLoop\<close>.\<close>

definition push_functor :: "'f loop_functor \<Rightarrow> 'f event_loop \<Rightarrow> 'f event_loop" where
  "push_functor cb l = l\<lparr>M_pendingFunctors := M_pendingFunctors l @ [cb]\<rparr>"

definition queueInLoop :: "int \<Rightarrow> 'f loop_functor \<Rightarrow> 'f event_loop \<Rightarrow> 'f event_loop" where
  "queueInLoop tid cb l =
     (let l = push_functor cb l in
      if \<not> isInLoopThread tid l \<or> M_callingPendingFunctors l then wakeup l else l)"

definition runInLoop :: "('f loop_functor \<Rightarrow> 's \<times> 'f event_loop \<Rightarrow> ('s \<times> 'f event_loop) res) \<Rightarrow> int \<Rightarrow>
    'f loop_functor \<Rightarrow> 's \<times> 'f event_loop \<Rightarrow> ('s \<times> 'f event_loop) res" where
  "runInLoop call tid cb w =
     (if isInLoopThread tid (snd w) then call cb w else Inr (fst w, queueInLoop tid cb (snd w)))"

definition queueSize :: "'f event_loop \<Rightarrow> nat" where
  "queueSize l = length (M_pendingFunctors l)"

definition quit :: "int \<Rightarrow> 'f event_loop \<Rightarrow> 'f event_loop" where
  "quit tid l =
     (let l = l\<lparr>M_quit := True\<rparr> in if \<not> isInLoopThread tid l then wakeup l else l)"

section \<open>Timers\<close>

text \<open>The functors the timer queue passed to \<^verbatim>\<open>runInLoop\<close> from another thread.\<close>

definition forward_calls :: "int \<Rightarrow> 'f event_loop \<Rightarrow> 'f event_loop" where
  "forward_calls tid l =
     fold (\<lambda>c. queueInLoop tid (TimerTask c)) (pending_calls (M_timerQueue l))
       (l\<lparr>M_timerQueue := (M_timerQueue l)\<lparr>pending_calls := []\<rparr>\<rparr>)"

definition loop_addTimer :: "'f timer_env \<Rightarrow> int \<Rightarrow> 'f \<Rightarrow> timestamp \<Rightarrow> double \<Rightarrow> 'f event_loop \<Rightarrow>
    (timer_id \<times> 'f event_loop) res" where
  "loop_addTimer env tid cb time interval l =
     bindr (addTimer env (isInLoopThread tid l) cb time interval (M_timerQueue l)) (\<lambda>(timerId, q).
       Inr (timerId, forward_calls tid (l\<lparr>M_timerQueue := q\<rparr>)))"

definition runAt :: "'f timer_env \<Rightarrow> int \<Rightarrow> timestamp \<Rightarrow> 'f \<Rightarrow> 'f event_loop \<Rightarrow> (timer_id \<times> 'f event_loop) res" where
  "runAt env tid time cb l = loop_addTimer env tid cb time 0 l"

definition runAfter :: "'f timer_env \<Rightarrow> int \<Rightarrow> double \<Rightarrow> 'f \<Rightarrow> 'f event_loop \<Rightarrow> (timer_id \<times> 'f event_loop) res" where
  "runAfter env tid delay cb l =
     (case read_clock env (M_timerQueue l) of (tnow, q) \<Rightarrow>
        loop_addTimer env tid cb (addTime tnow delay) 0 (l\<lparr>M_timerQueue := q\<rparr>))"

definition runEvery :: "'f timer_env \<Rightarrow> int \<Rightarrow> double \<Rightarrow> 'f \<Rightarrow> 'f event_loop \<Rightarrow> (timer_id \<times> 'f event_loop) res" where
  "runEvery env tid interval cb l =
     (case read_clock env (M_timerQueue l) of (tnow, q) \<Rightarrow>
        loop_addTimer env tid cb (addTime tnow interval) interval (l\<lparr>M_timerQueue := q\<rparr>))"

definition loop_cancel :: "int \<Rightarrow> timer_id \<Rightarrow> 'f event_loop \<Rightarrow> 'f event_loop res" where
  "loop_cancel tid timerId l =
     bindr (cancel (isInLoopThread tid l) timerId (M_timerQueue l)) (\<lambda>q.
       Inr (forward_calls tid (l\<lparr>M_timerQueue := q\<rparr>)))"

section \<open>Channels\<close>

definition loop_updateChannel :: "epoll_ctl \<Rightarrow> int \<Rightarrow> ('f loop_functor, 'f event_loop) chan_op" where
  "loop_updateChannel ctl tid a h l =
     with_channel h a (\<lambda>c.
       assertr (ownerLoop c = M_self l) ''channel->ownerLoop() == this''
       (assertInLoopThread (isInLoopThread tid l)
         (bindr (virtual_updateChannel ctl (isInLoopThread tid l) a h (M_poller l)) (\<lambda>(h, p).
            Inr (h, l\<lparr>M_poller := p\<rparr>)))))"

definition loop_removeChannel :: "epoll_ctl \<Rightarrow> int \<Rightarrow> ('f loop_functor, 'f event_loop) chan_op" where
  "loop_removeChannel ctl tid a h l =
     with_channel h a (\<lambda>c.
       assertr (ownerLoop c = M_self l) ''channel->ownerLoop() == this''
       (assertInLoopThread (isInLoopThread tid l)
         (assertr (M_loopEventHandling l \<longrightarrow>
             M_currentActiveChannel l = Some a \<or> a \<notin> set (M_activeChannels l))
           ''M_currentActiveChannel == channel || find(M_activeChannels, channel) == end''
           (bindr (virtual_removeChannel ctl (isInLoopThread tid l) a h (M_poller l)) (\<lambda>(h, p).
              Inr (h, l\<lparr>M_poller := p\<rparr>))))))"

definition loop_hasChannel :: "int \<Rightarrow> nat \<Rightarrow> 'f loop_functor channel_heap \<Rightarrow> 'f event_loop \<Rightarrow> bool res" where
  "loop_hasChannel tid a h l =
     with_channel h a (\<lambda>c.
       assertr (ownerLoop c = M_self l) ''channel->ownerLoop() == this''
       (assertInLoopThread (isInLoopThread tid l)
         (virtual_hasChannel (isInLoopThread tid l) a h (M_poller l))))"

section \<open>Construction and destruction\<close>

text \<open>The descriptors and the environment variable the constructors read.\<close>

record loop_resources =
  use_poll :: bool
  epoll_fd :: int
  timer_fd :: int
  event_fd :: int
  timer_chan :: nat
  wakeup_chan :: nat

definition new_EventLoop :: "epoll_ctl \<Rightarrow> loop_resources \<Rightarrow> int \<Rightarrow> nat \<Rightarrow> (int \<rightharpoonup> nat) \<Rightarrow> 'f timer_world \<Rightarrow>
    'f loop_functor channel_heap \<Rightarrow> ((int \<rightharpoonup> nat) \<times> 'f loop_functor channel_heap \<times> 'f event_loop) res" where
  "new_EventLoop ctl r tid this t_loopInThisThread tw h =
     bindr (newDefaultPoller (use_poll r) (epoll_fd r)) (\<lambda>p.
     bindr (new_TimerQueue ctl this TimerAlarm (timer_chan r) (timer_fd r) h p) (\<lambda>(tq, h, p).
     bindr (createEventfd (event_fd r)) (\<lambda>fd.
       if t_loopInThisThread tid \<noteq> None then Inl (Fatal ''Another EventLoop exists in this thread'')
       else
         let l = \<lparr>M_self = this, M_looping = False, M_quit = False, M_loopEventHandling = False,
               M_callingPendingFunctors = False, M_iteration = 0, M_threadId = tid,
               M_pollReturnTime = invalid, M_poller = p,
               M_timerQueue = tw\<lparr>M_timerfd := M_timerfd tq, M_timerfdChannel := M_timerfdChannel tq,
                 M_timers := M_timers tq, M_activeTimers := M_activeTimers tq,
                 M_callingExpiredTimers := M_callingExpiredTimers tq,
                 M_cancelingTimers := M_cancelingTimers tq\<rparr>,
               M_wakeupFd = fd, M_wakeupChannel = wakeup_chan r, M_activeChannels = [],
               M_currentActiveChannel = None, M_pendingFunctors = [], M_loopContext = None, eventfd = 0\<rparr>;
             c = setReadCallback WakeupRead (new_Channel this fd)
         in bindr (enableReading (loop_updateChannel ctl tid) (wakeup_chan r) (h(wakeup_chan r \<mapsto> c)) l)
              (\<lambda>(h, l). Inr (t_loopInThisThread(tid \<mapsto> this), h, l)))))"

text \<open>The last result is the descriptors that were closed.\<close>

definition delete_EventLoop :: "epoll_ctl \<Rightarrow> int \<Rightarrow> (int \<rightharpoonup> nat) \<Rightarrow> 'f loop_functor channel_heap \<Rightarrow> 'f event_loop \<Rightarrow>
    ((int \<rightharpoonup> nat) \<times> 'f loop_functor channel_heap \<times> 'f event_loop \<times> int list) res" where
  "delete_EventLoop ctl tid t_loopInThisThread h l =
     bindr (disableAll (loop_updateChannel ctl tid) (M_wakeupChannel l) h l) (\<lambda>(h, l).
     bindr (remove_channel (loop_removeChannel ctl tid) (M_wakeupChannel l) h l) (\<lambda>(h, l).
       Inr (t_loopInThisThread(tid := None), h, l, [M_wakeupFd l])))"

definition getEventLoopOfCurrentThread :: "int \<Rightarrow> (int \<rightharpoonup> nat) \<Rightarrow> nat option" where
  "getEventLoopOfCurrentThread tid t_loopInThisThread = t_loopInThisThread tid"

section \<open>Callbacks\<close>

datatype 'f loop_prog =
    Done
  | QueueInLoop 'f "'f loop_prog"
  | QuitLoop "'f loop_prog"
  | RunAt timestamp 'f "timer_id \<Rightarrow> 'f loop_prog"
  | RunAfter double 'f "timer_id \<Rightarrow> 'f loop_prog"
  | RunEvery double 'f "timer_id \<Rightarrow> 'f loop_prog"
  | CancelLoopTimer timer_id "'f loop_prog"

type_synonym 'f loop_world = "'f loop_functor channel_heap \<times> 'f event_loop"

definition on_loop :: "('f event_loop \<Rightarrow> ('a \<times> 'f event_loop) res) \<Rightarrow> 'f loop_world \<Rightarrow>
    ('a \<Rightarrow> 'f loop_world \<Rightarrow> 'b res) \<Rightarrow> 'b res" where
  "on_loop f w k = bindr (f (snd w)) (\<lambda>(x, l). k x (fst w, l))"

text \<open>A callback runs in the loop thread.\<close>

primrec run_loop_prog :: "'f timer_env \<Rightarrow> int \<Rightarrow> 'f loop_prog \<Rightarrow> 'f loop_world \<Rightarrow> 'f loop_world res" where
  "run_loop_prog env tid Done w = Inr w"
| "run_loop_prog env tid (QueueInLoop f k) w =
     run_loop_prog env tid k (fst w, queueInLoop tid (User f) (snd w))"
| "run_loop_prog env tid (QuitLoop k) w = run_loop_prog env tid k (fst w, quit tid (snd w))"
| "run_loop_prog env tid (RunAt t f k) w =
     on_loop (runAt env tid t f) w (\<lambda>timerId. run_loop_prog env tid (k timerId))"
| "run_loop_prog env tid (RunAfter d f k) w =
     on_loop (runAfter env tid d f) w (\<lambda>timerId. run_loop_prog env tid (k timerId))"
| "run_loop_prog env tid (RunEvery i f k) w =
     on_loop (runEvery env tid i f) w (\<lambda>timerId. run_loop_prog env tid (k timerId))"
| "run_loop_prog env tid (CancelLoopTimer timerId k) w =
     bindr (loop_cancel tid timerId (snd w)) (\<lambda>l. run_loop_prog env tid k (fst w, l))"

fun call_functor :: "'f timer_env \<Rightarrow> ('f \<Rightarrow> 'f loop_prog) \<Rightarrow> int \<Rightarrow> 'f loop_functor \<Rightarrow> 'f loop_world \<Rightarrow>
    'f loop_world res" where
  "call_functor env loop_body tid (User f) w = run_loop_prog env tid (loop_body f) w"
| "call_functor env loop_body tid (TimerTask c) w =
     bindr (run_functor env c (M_timerQueue (snd w))) (\<lambda>q. Inr (fst w, (snd w)\<lparr>M_timerQueue := q\<rparr>))"
| "call_functor env loop_body tid TimerAlarm w =
     bindr (tq_handleRead env (isInLoopThread tid (snd w)) (M_timerQueue (snd w)))
       (\<lambda>q. Inr (fst w, (snd w)\<lparr>M_timerQueue := q\<rparr>))"
| "call_functor env loop_body tid WakeupRead w = Inr (fst w, loop_handleRead (snd w))"

section \<open>The loop\<close>

definition doPendingFunctors :: "('f loop_functor \<Rightarrow> 'f loop_world \<Rightarrow> 'f loop_world res) \<Rightarrow> 'f loop_world \<Rightarrow>
    'f loop_world res" where
  "doPendingFunctors call w =
     (let l = (snd w)\<lparr>M_callingPendingFunctors := True\<rparr>;
          functors = M_pendingFunctors l;
          l = l\<lparr>M_pendingFunctors := []\<rparr>
      in bindr (foldr_res call functors (fst w, l)) (\<lambda>w.
           Inr (fst w, (snd w)\<lparr>M_callingPendingFunctors := False\<rparr>)))"

record poll_input =
  poll_result :: "int \<times> int16 list"
  epoll_result :: "int \<times> epoll_event list"
  poll_time :: timestamp

definition handle_channel :: "('f loop_functor \<Rightarrow> 'f loop_world \<Rightarrow> 'f loop_world res) \<Rightarrow> (nat \<Rightarrow> bool) \<Rightarrow> nat \<Rightarrow>
    'f loop_world \<Rightarrow> 'f loop_world res" where
  "handle_channel call alive a w =
     (let l = (snd w)\<lparr>M_currentActiveChannel := Some a\<rparr>
      in handleEvent (\<lambda>f _. call f) alive a (M_pollReturnTime l) (fst w, l))"

definition loop_iteration :: "('f loop_functor \<Rightarrow> 'f loop_world \<Rightarrow> 'f loop_world res) \<Rightarrow> (nat \<Rightarrow> bool) \<Rightarrow> poll_input \<Rightarrow>
    'f loop_world \<Rightarrow> 'f loop_world res" where
  "loop_iteration call alive inp w =
     bindr (virtual_poll (poll_result inp) (epoll_result inp) (poll_time inp) (fst w) (M_poller (snd w)) [])
       (\<lambda>(t, h, p, active).
       let l = (snd w)\<lparr>M_pollReturnTime := t, M_poller := p, M_activeChannels := active,
             M_iteration := M_iteration (snd w) + 1, M_loopEventHandling := True\<rparr>
       in bindr (foldr_res (handle_channel call alive) active (h, l)) (\<lambda>w.
            doPendingFunctors call
              (fst w, (snd w)\<lparr>M_currentActiveChannel := None, M_loopEventHandling := False\<rparr>)))"

text \<open>The while loop: \<open>True\<close> when it ended, \<open>False\<close> when it waits in the poll.\<close>

fun loop_while :: "('f loop_functor \<Rightarrow> 'f loop_world \<Rightarrow> 'f loop_world res) \<Rightarrow> (nat \<Rightarrow> bool) \<Rightarrow> poll_input list \<Rightarrow>
    'f loop_world \<Rightarrow> (bool \<times> 'f loop_world) res" where
  "loop_while call alive inps w =
     (if M_quit (snd w) then Inr (True, w)
      else case inps of
        [] \<Rightarrow> Inr (False, w)
      | inp # inps' \<Rightarrow> bindr (loop_iteration call alive inp w) (loop_while call alive inps'))"

declare loop_while.simps [simp del]

definition loop :: "('f loop_functor \<Rightarrow> 'f loop_world \<Rightarrow> 'f loop_world res) \<Rightarrow> (nat \<Rightarrow> bool) \<Rightarrow> int \<Rightarrow> poll_input list \<Rightarrow>
    'f loop_world \<Rightarrow> (bool \<times> 'f loop_world) res" where
  "loop call alive tid inps w =
     assertr (\<not> M_looping (snd w)) ''!M_looping''
     (assertInLoopThread (isInLoopThread tid (snd w))
       (bindr (loop_while call alive inps (fst w, (snd w)\<lparr>M_looping := True, M_quit := False\<rparr>)) (\<lambda>(ended, w).
          Inr (ended, fst w, if ended then (snd w)\<lparr>M_looping := False\<rparr> else snd w))))"

definition printActiveChannels :: "'f loop_functor channel_heap \<Rightarrow> 'f event_loop \<Rightarrow> string list res" where
  "printActiveChannels h l =
     foldr_res (\<lambda>a out. with_channel h a (\<lambda>c. Inr (out @ [''{'' @ reventsToString c @ ''}''])))
       (M_activeChannels l) []"

section \<open>What a callback does to the queue\<close>

text \<open>A callback of the loop appends to the queue; when it does so while the pending functors are
  being run, it leaves the eventfd readable.\<close>

definition grows :: "'f event_loop \<Rightarrow> 'f event_loop \<Rightarrow> bool" where
  "grows l l' \<longleftrightarrow>
     (\<exists>xs. M_pendingFunctors l' = M_pendingFunctors l @ xs \<and> WakeupRead \<notin> set xs \<and>
        (M_callingPendingFunctors l \<and> xs \<noteq> [] \<longrightarrow> eventfd l < eventfd l')) \<and>
     eventfd l \<le> eventfd l' \<and> M_callingPendingFunctors l' = M_callingPendingFunctors l"

lemma grows_refl [simp]: "grows l l"
  by (simp add: grows_def)

lemma grows_trans:
  assumes "grows l1 l2" and "grows l2 l3"
  shows "grows l1 l3"
proof -
  from assms(1) obtain xs where xs: "M_pendingFunctors l2 = M_pendingFunctors l1 @ xs"
    "WakeupRead \<notin> set xs" "M_callingPendingFunctors l1 \<and> xs \<noteq> [] \<longrightarrow> eventfd l1 < eventfd l2"
    unfolding grows_def by blast
  from assms(2) obtain ys where ys: "M_pendingFunctors l3 = M_pendingFunctors l2 @ ys"
    "WakeupRead \<notin> set ys" "M_callingPendingFunctors l2 \<and> ys \<noteq> [] \<longrightarrow> eventfd l2 < eventfd l3"
    unfolding grows_def by blast
  from assms have "eventfd l1 \<le> eventfd l2" "eventfd l2 \<le> eventfd l3"
    "M_callingPendingFunctors l2 = M_callingPendingFunctors l1"
    "M_callingPendingFunctors l3 = M_callingPendingFunctors l2"
    by (simp_all add: grows_def)
  with xs ys show ?thesis unfolding grows_def by (intro conjI exI [of _ "xs @ ys"]) auto
qed

lemma grows_queueInLoop: "f \<noteq> WakeupRead \<Longrightarrow> grows l (queueInLoop tid f l)"
  by (auto simp: grows_def queueInLoop_def push_functor_def wakeup_def Let_def isInLoopThread_def)

lemma grows_fold:
  "(\<And>x l. x \<in> set xs \<Longrightarrow> grows l (f x l)) \<Longrightarrow> grows l (fold f xs l)"
proof (induction xs arbitrary: l)
  case (Cons x xs)
  then show ?case using grows_trans [of l "f x l"] by simp
qed simp

lemma grows_field [simp]:
  "grows (l\<lparr>M_timerQueue := q\<rparr>) l' = grows l l'" "grows l (l'\<lparr>M_timerQueue := q\<rparr>) = grows l l'"
  by (simp_all add: grows_def)

lemma grows_forward_calls: "grows l (forward_calls tid (l\<lparr>M_timerQueue := q\<rparr>))"
proof -
  have "grows (l\<lparr>M_timerQueue := q\<lparr>pending_calls := []\<rparr>\<rparr>)
      (fold (\<lambda>c. queueInLoop tid (TimerTask c)) (pending_calls q) (l\<lparr>M_timerQueue := q\<lparr>pending_calls := []\<rparr>\<rparr>))"
    by (rule grows_fold) (simp add: grows_queueInLoop)
  then show ?thesis by (simp add: forward_calls_def)
qed

lemma grows_quit: "grows l (quit tid l)"
  by (auto simp: grows_def quit_def wakeup_def Let_def)

lemma grows_addTimer: "loop_addTimer env tid cb t i l = Inr (timerId, l') \<Longrightarrow> grows l l'"
  by (auto simp: loop_addTimer_def grows_forward_calls)

lemma grows_run: 
  "runAt env tid t f l = Inr (timerId, l') \<Longrightarrow> grows l l'"
  "runAfter env tid d f l = Inr (timerId, l') \<Longrightarrow> grows l l'"
  "runEvery env tid d f l = Inr (timerId, l') \<Longrightarrow> grows l l'"
  by (auto simp: runAt_def runAfter_def runEvery_def read_clock_def dest: grows_addTimer)

lemma grows_cancel: "loop_cancel tid timerId l = Inr l' \<Longrightarrow> grows l l'"
  by (auto simp: loop_cancel_def grows_forward_calls)

lemma run_loop_prog_grows: "run_loop_prog env tid prog w = Inr w' \<Longrightarrow> grows (snd w) (snd w')"
proof (induction prog arbitrary: w)
  case (QueueInLoop f k)
  then show ?case using grows_trans [OF grows_queueInLoop [of "User f" "snd w" tid]] by fastforce
next
  case (QuitLoop k)
  then show ?case using grows_trans [OF grows_quit [of "snd w" tid]] by fastforce
next
  case (RunAt t f k)
  then show ?case by (auto simp: on_loop_def) (metis rangeI snd_conv grows_trans grows_run(1))
next
  case (RunAfter d f k)
  then show ?case by (auto simp: on_loop_def) (metis rangeI snd_conv grows_trans grows_run(2))
next
  case (RunEvery i f k)
  then show ?case by (auto simp: on_loop_def) (metis rangeI snd_conv grows_trans grows_run(3))
next
  case (CancelLoopTimer timerId k)
  then show ?case by (auto) (metis snd_conv grows_trans grows_cancel)
qed simp

section \<open>The contract of the callbacks\<close>

locale functor_calls =
  fixes call :: "'f loop_functor \<Rightarrow> 'f loop_world \<Rightarrow> 'f loop_world res"
  assumes call_grows: "f \<noteq> WakeupRead \<Longrightarrow> call f w = Inr w' \<Longrightarrow> grows (snd w) (snd w')"
    and call_wakeup: "call WakeupRead w = Inr w' \<Longrightarrow> M_pendingFunctors (snd w') = M_pendingFunctors (snd w)"
begin

lemma calls_grow:
  "WakeupRead \<notin> set fs \<Longrightarrow> foldr_res call fs w = Inr w' \<Longrightarrow> grows (snd w) (snd w')"
proof (induction fs arbitrary: w)
  case (Cons f fs)
  from Cons.prems obtain w1 where "call f w = Inr w1" "foldr_res call fs w1 = Inr w'" by auto
  moreover from this Cons.prems have "grows (snd w) (snd w1)" "grows (snd w1) (snd w')"
    using call_grows [of f w w1] Cons.IH [of w1] by auto
  ultimately show ?case by (blast intro: grows_trans)
qed simp

lemma drain:
  assumes "WakeupRead \<notin> set (M_pendingFunctors (snd w))" and "doPendingFunctors call w = Inr w'"
  shows "M_pendingFunctors (snd w') \<noteq> [] \<Longrightarrow> 0 < eventfd (snd w')"
    and "WakeupRead \<notin> set (M_pendingFunctors (snd w'))" and "\<not> M_callingPendingFunctors (snd w')"
proof -
  let ?w = "(fst w, (snd w)\<lparr>M_callingPendingFunctors := True, M_pendingFunctors := []\<rparr>)"
  from assms(2) obtain w1 where
    w1: "foldr_res call (M_pendingFunctors (snd w)) ?w = Inr w1"
      "w' = (fst w1, (snd w1)\<lparr>M_callingPendingFunctors := False\<rparr>)"
    by (auto simp: doPendingFunctors_def Let_def)
  from calls_grow [OF assms(1) w1(1)] w1(2)
  show "M_pendingFunctors (snd w') \<noteq> [] \<Longrightarrow> 0 < eventfd (snd w')"
    and "WakeupRead \<notin> set (M_pendingFunctors (snd w'))" and "\<not> M_callingPendingFunctors (snd w')"
    by (auto simp: grows_def)
qed

lemma call_no_wakeup:
  assumes "WakeupRead \<notin> set (M_pendingFunctors (snd w))" and "call f w = Inr w'"
  shows "WakeupRead \<notin> set (M_pendingFunctors (snd w'))"
proof (cases "f = WakeupRead")
  case True
  with assms call_wakeup [of w w'] show ?thesis by simp
next
  case False
  with assms call_grows [of f w w'] show ?thesis by (auto simp: grows_def)
qed

lemma handle_channel_no_wakeup:
  assumes "WakeupRead \<notin> set (M_pendingFunctors (snd w))" and "handle_channel call alive a w = Inr w'"
  shows "WakeupRead \<notin> set (M_pendingFunctors (snd w'))"
proof (rule handleEvent_invariant [where P = "\<lambda>l. WakeupRead \<notin> set (M_pendingFunctors l)"])
  show "call_keeps (\<lambda>l. WakeupRead \<notin> set (M_pendingFunctors l)) (\<lambda>f _. call f)"
    unfolding call_keeps_def using call_no_wakeup by blast
qed (use assms in \<open>simp_all add: handle_channel_def Let_def\<close>)

text \<open>At the end of an iteration the loop is about to be woken when functors are pending.\<close>

lemma iteration_wakes:
  assumes "WakeupRead \<notin> set (M_pendingFunctors (snd w))" and "loop_iteration call alive inp w = Inr w'"
  shows "(M_pendingFunctors (snd w') \<noteq> [] \<longrightarrow> 0 < eventfd (snd w')) \<and>
    WakeupRead \<notin> set (M_pendingFunctors (snd w'))"
proof -
  from assms(2) obtain t h p active w1 where
    w1: "foldr_res (handle_channel call alive) active (h, (snd w)\<lparr>M_pollReturnTime := t, M_poller := p,
          M_activeChannels := active, M_iteration := M_iteration (snd w) + 1, M_loopEventHandling := True\<rparr>) = Inr w1"
      "doPendingFunctors call (fst w1, (snd w1)\<lparr>M_currentActiveChannel := None, M_loopEventHandling := False\<rparr>) = Inr w'"
    by (auto simp: loop_iteration_def Let_def)
  have "WakeupRead \<notin> set (M_pendingFunctors (snd w1))"
    by (rule foldr_res_invariant [where P = "\<lambda>w. WakeupRead \<notin> set (M_pendingFunctors (snd w))", OF _ _ w1(1)])
      (use assms(1) handle_channel_no_wakeup in auto)
  with drain [OF _ w1(2)] show ?thesis by simp
qed

lemma loop_while_wakes:
  assumes "WakeupRead \<notin> set (M_pendingFunctors (snd w))" and "M_pendingFunctors (snd w) \<noteq> [] \<longrightarrow> 0 < eventfd (snd w)"
    and "loop_while call alive inps w = Inr (ended, w')"
  shows "M_pendingFunctors (snd w') \<noteq> [] \<longrightarrow> 0 < eventfd (snd w')"
  using assms
proof (induction inps arbitrary: w)
  case Nil
  then show ?case by (auto simp: loop_while.simps [of call alive "[]"] split: if_splits)
next
  case (Cons inp inps)
  show ?case
  proof (cases "M_quit (snd w)")
    case True
    with Cons.prems show ?thesis by (auto simp: loop_while.simps [of call alive "inp # inps"])
  next
    case False
    with Cons.prems(3) obtain w1 where "loop_iteration call alive inp w = Inr w1"
      "loop_while call alive inps w1 = Inr (ended, w')" by (auto simp: loop_while.simps [of call alive "inp # inps"])
    with iteration_wakes [OF Cons.prems(1)] Cons.IH [of w1] show ?thesis by blast
  qed
qed

end

interpretation progs: functor_calls "call_functor env loop_body tid" for env loop_body tid
proof
  fix f w w'
  assume "f \<noteq> WakeupRead" "call_functor env loop_body tid f w = Inr w'"
  then show "grows (snd w) (snd w')"
    by (cases f) (auto dest: run_loop_prog_grows)
next
  fix w w'
  assume "call_functor env loop_body tid WakeupRead w = Inr w'"
  then show "M_pendingFunctors (snd w') = M_pendingFunctors (snd w)"
    by (auto simp: loop_handleRead_def)
qed

section \<open>The loop as a poller for its own thread\<close>

definition loop_inv :: "int \<Rightarrow> 'f loop_functor channel_heap \<Rightarrow> 'f event_loop \<Rightarrow> bool" where
  "loop_inv tid h l \<longleftrightarrow> virtual_inv h (M_poller l) \<and> (\<forall>a c. h a = Some c \<longrightarrow> M_loop c = M_self l) \<and>
     M_threadId l = tid \<and> \<not> M_loopEventHandling l"

definition loop_channels :: "'f event_loop \<Rightarrow> int \<rightharpoonup> nat" where
  "loop_channels l = virtual_channels (M_poller l)"

definition loop_parked :: "nat \<Rightarrow> 'f loop_functor channel_heap \<Rightarrow> 'f event_loop \<Rightarrow> bool" where
  "loop_parked a h l = virtual_parked a h (M_poller l)"

locale loop_thread = epoll_kernel +
  fixes tid :: int

sublocale loop_thread \<subseteq> in_loop: poller "loop_inv tid" loop_channels
  "loop_updateChannel ctl tid" "loop_removeChannel ctl tid" loop_parked
proof
  fix h :: "'a loop_functor channel_heap" and l :: "'a event_loop" and fd a
  assume "loop_inv tid h l" "loop_channels l fd = Some a"
  then show "\<exists>c. h a = Some c \<and> M_fd c = fd \<and> 0 \<le> M_index c"
    using vpoller.registered [of h "M_poller l" fd a] by (simp add: loop_inv_def loop_channels_def)
next
  fix h :: "'a loop_functor channel_heap" and l :: "'a event_loop" and a c c' ev
  assume *: "loop_inv tid h l" "h a = Some c" "0 \<le> M_fd c" "fits (loop_channels l) a c"
    "c' = c\<lparr>M_events := ev, M_addedToLoop := True\<rparr>"
  with vpoller.update_ok [of h "M_poller l" a c c' ev] obtain p' i where
    "virtual_updateChannel ctl True a (h(a \<mapsto> c')) (M_poller l) = Inr (watch h a c ev i, p')"
    "virtual_inv (watch h a c ev i) p'" "virtual_channels p' = (loop_channels l)(M_fd c \<mapsto> a)"
    "ev = 0 \<and> 0 \<le> M_index c \<longrightarrow> virtual_parked a (watch h a c ev i) p'"
    by (auto simp: loop_inv_def loop_channels_def)
  with * show "\<exists>p' i. loop_updateChannel ctl tid a (h(a \<mapsto> c')) l = Inr (watch h a c ev i, p') \<and>
      loop_inv tid (watch h a c ev i) p' \<and> loop_channels p' = (loop_channels l)(M_fd c \<mapsto> a) \<and>
      (ev = 0 \<and> 0 \<le> M_index c \<longrightarrow> loop_parked a (watch h a c ev i) p')"
    by (intro exI [of _ "l\<lparr>M_poller := p'\<rparr>"] exI [of _ i])
      (auto simp: loop_inv_def loop_channels_def loop_parked_def loop_updateChannel_def isInLoopThread_def
        ownerLoop_def watch_def watched_channel_def)
next
  fix h :: "'a loop_functor channel_heap" and l :: "'a event_loop" and a c c'
  assume *: "loop_inv tid h l" "h a = Some c" "loop_channels l (M_fd c) = Some a" "M_events c = 0"
    "loop_parked a h l" "c' = c\<lparr>M_addedToLoop := False\<rparr>"
  with vpoller.remove_ok [of h "M_poller l" a c c'] obtain h' p' where
    1: "virtual_removeChannel ctl True a (h(a \<mapsto> c')) (M_poller l) = Inr (h', p')"
    "virtual_inv h' p'" "same_but_index (h(a \<mapsto> c')) h'" "virtual_channels p' = (loop_channels l)(M_fd c := None)"
    by (auto simp: loop_inv_def loop_channels_def loop_parked_def)
  have "M_loop d = M_self l" if "h' b = Some d" for b d
  proof -
    from same_but_indexE [OF same_but_index_sym [OF 1(3)] that] obtain i
      where "(h(a \<mapsto> c')) b = Some (d\<lparr>M_index := i\<rparr>)" .
    moreover have "\<forall>x y. (h(a \<mapsto> c')) x = Some y \<longrightarrow> M_loop y = M_self l"
      using *(1,2,6) by (auto simp: loop_inv_def)
    ultimately have "M_loop (d\<lparr>M_index := i\<rparr>) = M_self l" by blast
    then show ?thesis by simp
  qed
  with * 1 show "\<exists>h' p'. loop_removeChannel ctl tid a (h(a \<mapsto> c')) l = Inr (h', p') \<and> loop_inv tid h' p' \<and>
      same_but_index (h(a \<mapsto> c')) h' \<and> loop_channels p' = (loop_channels l)(M_fd c := None)"
    by (intro exI [of _ h'] exI [of _ "l\<lparr>M_poller := p'\<rparr>"])
      (auto simp: loop_inv_def loop_channels_def loop_removeChannel_def isInLoopThread_def ownerLoop_def)
qed

context loop_thread
begin

lemmas loop_set_events = in_loop.set_events_ok
lemmas loop_disable_remove = in_loop.disable_remove

end

interpretation documented_loop: loop_thread kernel_ctl 1
  by unfold_locales

section \<open>Construction and destruction succeed\<close>

text \<open>Registering a fresh channel for reading, and taking it out again.\<close>

lemma enableReading_fresh:
  assumes "epoll_documented ctl" and "loop_inv tid h l" and "0 \<le> fd" and "loop_channels l fd = None"
    and "h a = Some c" and "M_fd c = fd" and "M_index c = -1"
  shows "\<exists>l' i. enableReading (loop_updateChannel ctl tid) a h l =
      Inr (watch h a c (M_events c OR kReadEvent) i, l') \<and>
    loop_inv tid (watch h a c (M_events c OR kReadEvent) i) l' \<and>
    loop_channels l' = (loop_channels l)(fd \<mapsto> a) \<and> l' = l\<lparr>M_poller := M_poller l'\<rparr>"
proof -
  have kernel: "loop_thread ctl" using assms(1) by (simp add: loop_thread_def epoll_kernel_def)
  have fits: "fits (loop_channels l) a c" using assms(4,6,7) by (simp add: fits_def)
  from loop_thread.loop_set_events [OF kernel assms(2,5) _ fits, of "\<lambda>ev. ev OR kReadEvent"] assms(3,6)
  obtain l' i where l': "enableReading (loop_updateChannel ctl tid) a h l =
      Inr (watch h a c (M_events c OR kReadEvent) i, l')"
    "loop_inv tid (watch h a c (M_events c OR kReadEvent) i) l'"
    "loop_channels l' = (loop_channels l)(fd \<mapsto> a)"
    by (auto simp: enableReading_def)
  moreover from l'(1) have "l' = l\<lparr>M_poller := M_poller l'\<rparr>"
    by (auto simp: enableReading_def set_events_def update_def loop_updateChannel_def assertr_def
        assertInLoopThread_def split: if_splits)
  ultimately show ?thesis by blast
qed

lemma loop_frame:
  "disableAll (loop_updateChannel ctl tid) a h l = Inr (h', l') \<Longrightarrow> l' = l\<lparr>M_poller := M_poller l'\<rparr>"
  "remove_channel (loop_removeChannel ctl tid) a h l = Inr (h', l') \<Longrightarrow> l' = l\<lparr>M_poller := M_poller l'\<rparr>"
  by (auto simp: disableAll_def set_events_def update_def loop_updateChannel_def remove_channel_def
      loop_removeChannel_def assertr_def assertInLoopThread_def split: if_splits)

lemma loop_delete_kept:
  "set_events (loop_updateChannel ctl tid) f a h l = Inr (h', l') \<Longrightarrow> virtual_delete (M_poller l') = virtual_delete (M_poller l)"
  "remove_channel (loop_removeChannel ctl tid) a h l = Inr (h', l') \<Longrightarrow> virtual_delete (M_poller l') = virtual_delete (M_poller l)"
  by (auto simp: set_events_def update_def loop_updateChannel_def remove_channel_def loop_removeChannel_def assertr_def
      assertInLoopThread_def split: if_splits intro: virtual_delete_kept)

lemma new_TimerQueue_ok:
  assumes "epoll_documented ctl" and "virtual_inv (h(chan \<mapsto> setReadCallback cb (new_Channel self fd))) p"
    and "0 \<le> fd" and "virtual_channels p fd = None"
  shows "\<exists>p' i. new_TimerQueue ctl self cb chan fd h p =
      Inr (\<lparr>M_timerfd = fd, M_timerfdChannel = chan, M_timers = [], M_activeTimers = [],
        M_callingExpiredTimers = False, M_cancelingTimers = []\<rparr>,
        watch h chan (setReadCallback cb (new_Channel self fd)) kReadEvent i, p') \<and>
    virtual_inv (watch h chan (setReadCallback cb (new_Channel self fd)) kReadEvent i) p' \<and>
    virtual_channels p' = (virtual_channels p)(fd \<mapsto> chan) \<and> virtual_delete p' = virtual_delete p"
proof -
  let ?c = "setReadCallback cb (new_Channel self fd)"
  have c: "M_fd ?c = fd" "M_index ?c = -1" "M_events ?c = 0"
    by (simp_all add: setReadCallback_def new_Channel_def)
  have fits: "fits (virtual_channels p) chan ?c" using assms(4) c by (simp add: fits_def)
  have w: "watch (h(chan \<mapsto> ?c)) chan ?c ev i = watch h chan ?c ev i" for ev i by (simp add: watch_def)
  from epoll_kernel.virtual_set_events [OF epoll_kernel.intro [OF assms(1)] assms(2) _ _ fits,
      of "\<lambda>ev. ev OR kReadEvent"] assms(3) c
  show ?thesis by (auto simp: new_TimerQueue_def createTimerfd_def enableReading_def w dest: set_events_delete_kept)
qed

lemma new_EventLoop_ok:
  assumes doc: "epoll_documented ctl" and res: "use_poll r \<or> 0 \<le> epoll_fd r" "0 \<le> timer_fd r" "0 \<le> event_fd r"
      "timer_fd r \<noteq> event_fd r" "timer_chan r \<noteq> wakeup_chan r"
    and "t_loop tid = None"
  shows "\<exists>h l. new_EventLoop ctl r tid self t_loop tw Map.empty = Inr (t_loop(tid \<mapsto> self), h, l) \<and>
    loop_inv tid h l \<and> loop_channels l = [timer_fd r \<mapsto> timer_chan r, event_fd r \<mapsto> wakeup_chan r] \<and>
    (\<exists>c. h (wakeup_chan r) = Some c \<and> M_fd c = event_fd r) \<and>
    (\<exists>c. h (timer_chan r) = Some c \<and> M_fd c = timer_fd r) \<and>
    M_wakeupChannel l = wakeup_chan r \<and> M_timerfdChannel (M_timerQueue l) = timer_chan r \<and>
    M_timers (M_timerQueue l) = [] \<and> M_wakeupFd l = event_fd r \<and> M_timerfd (M_timerQueue l) = timer_fd r \<and>
    virtual_delete (M_poller l) = (if use_poll r then [] else [epoll_fd r])"
proof -
  obtain p where p: "newDefaultPoller (use_poll r) (epoll_fd r) = Inr p"
    using res(1) by (cases "use_poll r") (auto simp: newDefaultPoller_def new_EPollPoller_def)
  let ?tc = "setReadCallback TimerAlarm (new_Channel self (timer_fd r)) :: 'a loop_functor channel"
  let ?wc = "setReadCallback WakeupRead (new_Channel self (event_fd r)) :: 'a loop_functor channel"
  from new_TimerQueue_ok [OF doc newDefaultPoller_inv [OF p] res(2),
      where h = Map.empty and chan = "timer_chan r" and cb = TimerAlarm and self = self] newDefaultPoller_channels [OF p]
  obtain p1 i where
    1: "new_TimerQueue ctl self TimerAlarm (timer_chan r) (timer_fd r) Map.empty p =
        Inr (\<lparr>M_timerfd = timer_fd r, M_timerfdChannel = timer_chan r, M_timers = [], M_activeTimers = [],
          M_callingExpiredTimers = False, M_cancelingTimers = []\<rparr>, watch Map.empty (timer_chan r) ?tc kReadEvent i, p1)"
      "virtual_inv (watch Map.empty (timer_chan r) ?tc kReadEvent i) p1"
      "virtual_channels p1 = [timer_fd r \<mapsto> timer_chan r]" "virtual_delete p1 = virtual_delete p" by auto
  define l where "l = \<lparr>M_self = self, M_looping = False, M_quit = False, M_loopEventHandling = False,
      M_callingPendingFunctors = False, M_iteration = 0, M_threadId = tid,
      M_pollReturnTime = invalid, M_poller = p1,
      M_timerQueue = tw\<lparr>M_timerfd := timer_fd r, M_timerfdChannel := timer_chan r,
        M_timers := [], M_activeTimers := [], M_callingExpiredTimers := False, M_cancelingTimers := []\<rparr>,
      M_wakeupFd = event_fd r, M_wakeupChannel = wakeup_chan r, M_activeChannels = [],
      M_currentActiveChannel = None, M_pendingFunctors = [], M_loopContext = None, eventfd = 0\<rparr>"
  define h where "h = (watch Map.empty (timer_chan r) ?tc kReadEvent i)(wakeup_chan r \<mapsto> ?wc)"
  have "virtual_inv h p1" using virtual_inv_new_channel [OF 1(2)] 1(3) res(5) by (simp add: h_def)
  then have inv: "loop_inv tid h l"
    by (auto simp: loop_inv_def l_def h_def watch_def watched_channel_def setReadCallback_def new_Channel_def
        split: if_splits)
  have wc: "h (wakeup_chan r) = Some ?wc" "M_fd ?wc = event_fd r" "M_index ?wc = -1"
    by (simp_all add: h_def setReadCallback_def new_Channel_def)
  have chans: "loop_channels l = [timer_fd r \<mapsto> timer_chan r]" using 1(3) by (simp add: loop_channels_def l_def)
  then have free: "loop_channels l (event_fd r) = None" using res(4) by simp
  from enableReading_fresh [OF doc inv res(3) free wc] obtain l' j where
    2: "enableReading (loop_updateChannel ctl tid) (wakeup_chan r) h l =
        Inr (watch h (wakeup_chan r) ?wc (M_events ?wc OR kReadEvent) j, l')"
      "loop_inv tid (watch h (wakeup_chan r) ?wc (M_events ?wc OR kReadEvent) j) l'"
      "loop_channels l' = [timer_fd r \<mapsto> timer_chan r, event_fd r \<mapsto> wakeup_chan r]"
      "l' = l\<lparr>M_poller := M_poller l'\<rparr>"
    unfolding chans by blast
  let ?h' = "watch h (wakeup_chan r) ?wc (M_events ?wc OR kReadEvent) j"
  have "new_EventLoop ctl r tid self t_loop tw Map.empty = Inr (t_loop(tid \<mapsto> self), ?h', l')"
    using assms(7) res(3) 2(1) by (simp add: new_EventLoop_def p 1(1) createEventfd_def l_def h_def)
  moreover have "\<exists>c. ?h' (wakeup_chan r) = Some c \<and> M_fd c = event_fd r" using wc(2) by simp
  moreover have "\<exists>c. ?h' (timer_chan r) = Some c \<and> M_fd c = timer_fd r"
    using res(5) by (simp add: h_def watch_def setReadCallback_def new_Channel_def)
  moreover have "M_wakeupChannel l' = wakeup_chan r" "M_timerfdChannel (M_timerQueue l') = timer_chan r"
    "M_timers (M_timerQueue l') = []" "M_wakeupFd l' = event_fd r" "M_timerfd (M_timerQueue l') = timer_fd r"
    by (subst 2(4), simp add: l_def)+
  moreover have "virtual_delete (M_poller l') = (if use_poll r then [] else [epoll_fd r])"
    using loop_delete_kept(1) [OF 2(1) [unfolded enableReading_def]] 1(4) p
    by (auto simp: l_def newDefaultPoller_def new_EPollPoller_def delete_EPollPoller_def split: if_splits)
  ultimately show ?thesis using 2(2,3) by blast
qed

lemma delete_EventLoop_ok:
  assumes "epoll_documented ctl" and "loop_inv tid h l" and "h (M_wakeupChannel l) = Some c" and "0 \<le> M_fd c"
    and "loop_channels l (M_fd c) = Some (M_wakeupChannel l)"
  shows "\<exists>h' l'. delete_EventLoop ctl tid t_loop h l = Inr (t_loop(tid := None), h', l', [M_wakeupFd l]) \<and>
    loop_inv tid h' l' \<and> loop_channels l' = (loop_channels l)(M_fd c := None) \<and>
    same_but_index (h(M_wakeupChannel l \<mapsto> c\<lparr>M_events := 0, M_addedToLoop := False\<rparr>)) h' \<and>
    l' = l\<lparr>M_poller := M_poller l'\<rparr> \<and> virtual_delete (M_poller l') = virtual_delete (M_poller l)"
proof -
  have kernel: "loop_thread ctl" using assms(1) by (simp add: loop_thread_def epoll_kernel_def)
  from loop_thread.loop_disable_remove [OF kernel assms(2-5)] obtain h1 l1 h2 l2 where
    1: "disableAll (loop_updateChannel ctl tid) (M_wakeupChannel l) h l = Inr (h1, l1)"
      "remove_channel (loop_removeChannel ctl tid) (M_wakeupChannel l) h1 l1 = Inr (h2, l2)"
      "loop_inv tid h2 l2" "loop_channels l2 = (loop_channels l)(M_fd c := None)"
      "same_but_index (h(M_wakeupChannel l \<mapsto> c\<lparr>M_events := 0, M_addedToLoop := False\<rparr>)) h2" by blast
  have l1: "l1 = l\<lparr>M_poller := M_poller l1\<rparr>" by (rule loop_frame(1) [OF 1(1)])
  have "M_wakeupChannel l1 = M_wakeupChannel l" by (subst l1) simp
  moreover have l2: "l2 = l\<lparr>M_poller := M_poller l2\<rparr>"
    by (subst loop_frame(2) [OF 1(2)], subst l1) simp
  moreover have "M_wakeupFd l2 = M_wakeupFd l" by (subst l2) simp
  moreover have "virtual_delete (M_poller l2) = virtual_delete (M_poller l)"
    using loop_delete_kept(1) [OF 1(1) [unfolded disableAll_def]] loop_delete_kept(2) [OF 1(2)] by simp
  ultimately show ?thesis using 1 by (auto simp: delete_EventLoop_def)
qed

section \<open>Properties\<close>

text \<open>C25. The loop never goes to sleep on functors its own callbacks queued: when the poll is
  entered with functors pending, the eventfd is readable and the poll returns at once. This
  holds after every iteration, whatever the callbacks queue, schedule or cancel.\<close>

theorem loop_never_sleeps_on_queued_functors:
  assumes "WakeupRead \<notin> set (M_pendingFunctors (snd w))"
    and "M_pendingFunctors (snd w) \<noteq> [] \<longrightarrow> 0 < eventfd (snd w)"
    and "loop (call_functor env loop_body tid) alive tid inps w = Inr (ended, w')"
  shows "M_pendingFunctors (snd w') \<noteq> [] \<longrightarrow> 0 < eventfd (snd w')"
proof -
  from assms(3) obtain w1 where
    1: "loop_while (call_functor env loop_body tid) alive inps
          (fst w, (snd w)\<lparr>M_looping := True, M_quit := False\<rparr>) = Inr (ended, w1)"
      "w' = (fst w1, if ended then (snd w1)\<lparr>M_looping := False\<rparr> else snd w1)"
    by (auto simp: loop_def)
  from progs.loop_while_wakes [OF _ _ 1(1)] assms(1,2) 1(2) show ?thesis by simp
qed

definition sample_loop :: "nat event_loop" where
  "sample_loop = \<lparr>M_self = 7, M_looping = False, M_quit = False, M_loopEventHandling = False,
     M_callingPendingFunctors = False, M_iteration = 0, M_threadId = 1,
     M_pollReturnTime = invalid, M_poller = PollPoller new_PollPoller,
     M_timerQueue = sample_world, M_wakeupFd = 6, M_wakeupChannel = 3, M_activeChannels = [],
     M_currentActiveChannel = None, M_pendingFunctors = [User 1], M_loopContext = None, eventfd = 1\<rparr>"

definition sample_input :: poll_input where
  "sample_input = \<lparr>poll_result = (0, []), epoll_result = (0, []), poll_time = Timestamp 5\<rparr>"

definition sample_body :: "nat \<Rightarrow> nat loop_prog" where
  "sample_body f = (if f = 1 then QueueInLoop 2 Done else Done)"

lemma sample_loop_run:
  "loop (call_functor sample_env sample_body 1) (\<lambda>_. True) 1 [sample_input] (Map.empty, sample_loop) =
   Inr (False, Map.empty, sample_loop\<lparr>M_looping := True, M_iteration := 1, M_pollReturnTime := Timestamp 5,
     M_pendingFunctors := [User 2], eventfd := 2\<rparr>)"
  by (simp add: loop_def sample_loop_def sample_input_def sample_body_def loop_while.simps loop_iteration_def
      poll_poll_def new_PollPoller_def doPendingFunctors_def queueInLoop_def push_functor_def wakeup_def
      isInLoopThread_def)

theorem loop_never_sleeps_on_queued_functors_witness:
  "M_pendingFunctors (sample_loop\<lparr>M_looping := True, M_iteration := 1, M_pollReturnTime := Timestamp 5,
      M_pendingFunctors := [User 2], eventfd := 2\<rparr>) \<noteq> [] \<and>
   0 < eventfd (sample_loop\<lparr>M_looping := True, M_iteration := 1, M_pollReturnTime := Timestamp 5,
      M_pendingFunctors := [User 2], eventfd := 2\<rparr>)"
  using loop_never_sleeps_on_queued_functors [OF _ _ sample_loop_run] by (simp add: sample_loop_def)


definition sample_resources :: loop_resources where
  "sample_resources = \<lparr>use_poll = False, epoll_fd = 3, timer_fd = 4, event_fd = 5, timer_chan = 20, wakeup_chan = 21\<rparr>"


end
