(* ===== verification/LoopThreads.thy ===== *)
theory LoopThreads
  imports EventLoop
begin

text \<open>
  The threads around one event loop: the loop thread runs \<^verbatim>\<open>EventLoop::loop\<close>, any number of other
  threads call \<^verbatim>\<open>queueInLoop\<close>, \<^verbatim>\<open>runInLoop\<close> and \<^verbatim>\<open>quit\<close> (src/EventLoop.cpp). A state is the shared
  loop object with the position of the loop thread and the number of other threads that stand
  between the two halves of a call; a step is one critical section or one access to the shared
  fields of one thread, so all interleavings of these are covered. The halves of the calls are
  the definitions of the theory of the event loop: \<open>push_functor\<close> and \<open>wakeup\<close>.

  \<open>posted\<close>, \<open>executed\<close> and \<open>quits\<close> record the history: the functors queued, the functors run and
  the number of calls of \<^verbatim>\<open>quit\<close> that returned.
\<close>

section \<open>States and steps\<close>

datatype loop_pc =
    NotStarted   \<comment> \<open>before loop()\<close>
  | TestQuit     \<comment> \<open>at while(!M_quit)\<close>
  | Polling      \<comment> \<open>in poll\<close>
  | Handling     \<comment> \<open>calling the active channels\<close>
  | Swapping     \<comment> \<open>in doPendingFunctors, before the critical section\<close>
  | Running      \<comment> \<open>in doPendingFunctors, after it\<close>
  | Stopped      \<comment> \<open>after the while loop\<close>

record 'f threads =
  shared :: "'f event_loop"
  pc :: loop_pc
  functors :: "'f loop_functor list"
  posters :: nat
  quitters :: nat
  posted :: "'f loop_functor list"
  executed :: "'f loop_functor list"
  quits :: nat

definition initial_threads :: "'f event_loop \<Rightarrow> 'f threads" where
  "initial_threads l =
     \<lparr>shared = l\<lparr>M_pendingFunctors := [], eventfd := 0, M_callingPendingFunctors := False\<rparr>,
      pc = NotStarted, functors = [], posters = 0, quitters = 0, posted = [], executed = [], quits = 0\<rparr>"

inductive loop_step :: "'f threads \<Rightarrow> 'f threads \<Rightarrow> bool" where
  post: "loop_step s (s\<lparr>shared := push_functor f (shared s), posters := posters s + 1, posted := posted s @ [f]\<rparr>)"
| post_wakeup: "0 < posters s \<Longrightarrow>
    loop_step s (s\<lparr>shared := wakeup (shared s), posters := posters s - 1\<rparr>)"
| quit_set: "loop_step s (s\<lparr>shared := (shared s)\<lparr>M_quit := True\<rparr>, quitters := quitters s + 1\<rparr>)"
| quit_wakeup: "0 < quitters s \<Longrightarrow>
    loop_step s (s\<lparr>shared := wakeup (shared s), quitters := quitters s - 1, quits := quits s + 1\<rparr>)"
| start: "pc s = NotStarted \<Longrightarrow>
    loop_step s (s\<lparr>shared := (shared s)\<lparr>M_looping := True, M_quit := False\<rparr>, pc := TestQuit\<rparr>)"
| test_stop: "pc s = TestQuit \<Longrightarrow> M_quit (shared s) \<Longrightarrow>
    loop_step s (s\<lparr>shared := (shared s)\<lparr>M_looping := False\<rparr>, pc := Stopped\<rparr>)"
| test_go: "pc s = TestQuit \<Longrightarrow> \<not> M_quit (shared s) \<Longrightarrow> loop_step s (s\<lparr>pc := Polling\<rparr>)"
| poll_return: "pc s = Polling \<Longrightarrow> loop_step s (s\<lparr>pc := Handling\<rparr>)"
| read_eventfd: "pc s = Handling \<Longrightarrow> loop_step s (s\<lparr>shared := loop_handleRead (shared s)\<rparr>)"
| callback_queue: "pc s = Handling \<or> pc s = Running \<Longrightarrow>
    loop_step s (s\<lparr>shared := queueInLoop (M_threadId (shared s)) f (shared s), posted := posted s @ [f]\<rparr>)"
| callback_quit: "pc s = Handling \<or> pc s = Running \<Longrightarrow>
    loop_step s (s\<lparr>shared := quit (M_threadId (shared s)) (shared s), quits := quits s + 1\<rparr>)"
| begin_drain: "pc s = Handling \<Longrightarrow>
    loop_step s (s\<lparr>shared := (shared s)\<lparr>M_callingPendingFunctors := True\<rparr>, pc := Swapping\<rparr>)"
| swap: "pc s = Swapping \<Longrightarrow>
    loop_step s (s\<lparr>shared := (shared s)\<lparr>M_pendingFunctors := []\<rparr>, pc := Running,
      functors := M_pendingFunctors (shared s)\<rparr>)"
| run: "pc s = Running \<Longrightarrow> functors s = f # fs \<Longrightarrow>
    loop_step s (s\<lparr>functors := fs, executed := executed s @ [f]\<rparr>)"
| end_drain: "pc s = Running \<Longrightarrow> functors s = [] \<Longrightarrow>
    loop_step s (s\<lparr>shared := (shared s)\<lparr>M_callingPendingFunctors := False\<rparr>, pc := TestQuit\<rparr>)"

inductive reachable :: "'f event_loop \<Rightarrow> 'f threads \<Rightarrow> bool" for l where
  init: "reachable l (initial_threads l)"
| step: "reachable l s \<Longrightarrow> loop_step s s' \<Longrightarrow> reachable l s'"

inductive_cases loop_stepE: "loop_step s s'"

section \<open>The invariant\<close>

text \<open>Outside the stretch from the handling of the channels to the critical section of
  \<^verbatim>\<open>doPendingFunctors\<close>, a pending functor is announced: the eventfd is readable or a thread is
  about to write to it.\<close>

definition announced :: "'f threads \<Rightarrow> bool" where
  "announced s \<longleftrightarrow>
     (pc s \<in> {NotStarted, TestQuit, Polling, Running, Stopped} \<and> M_pendingFunctors (shared s) \<noteq> [] \<longrightarrow>
        0 < eventfd (shared s) \<or> 0 < posters s) \<and>
     (pc s = Polling \<and> M_quit (shared s) \<longrightarrow> 0 < eventfd (shared s) \<or> 0 < quitters s) \<and>
     (M_callingPendingFunctors (shared s) \<longleftrightarrow> pc s \<in> {Swapping, Running})"

definition in_order :: "'f threads \<Rightarrow> bool" where
  "in_order s \<longleftrightarrow> posted s = executed s @ functors s @ M_pendingFunctors (shared s) \<and>
     (functors s \<noteq> [] \<longrightarrow> pc s = Running)"

lemmas shared_ops = push_functor_def wakeup_def loop_handleRead_def queueInLoop_def quit_def Let_def
  isInLoopThread_def

lemma loop_step_announced: "loop_step s s' \<Longrightarrow> announced s \<Longrightarrow> announced s'"
  by (induction rule: loop_step.induct) (auto simp: announced_def shared_ops)

lemma loop_step_in_order: "loop_step s s' \<Longrightarrow> in_order s \<Longrightarrow> in_order s'"
  by (induction rule: loop_step.induct) (auto simp: in_order_def shared_ops)

lemma reachable_invariants: "reachable l s \<Longrightarrow> announced s \<and> in_order s"
proof (induction rule: reachable.induct)
  case init
  then show ?case by (simp add: announced_def in_order_def initial_threads_def)
next
  case (step s s')
  then show ?case using loop_step_announced loop_step_in_order by blast
qed

section \<open>Properties\<close>

text \<open>C4. No wakeup is lost, under every interleaving: when the loop thread is in the poll, a functor
  is pending and no other thread is still inside \<^verbatim>\<open>queueInLoop\<close>, the eventfd is readable, so that
  the poll returns. The same holds for a request to quit that was made while the loop runs.\<close>

theorem no_lost_wakeup:
  assumes "reachable l s" and "pc s = Polling"
  shows "(M_pendingFunctors (shared s) \<noteq> [] \<and> posters s = 0 \<longrightarrow> 0 < eventfd (shared s)) \<and>
    (M_quit (shared s) \<and> quitters s = 0 \<longrightarrow> 0 < eventfd (shared s))"
  using reachable_invariants [OF assms(1)] assms(2) by (auto simp: announced_def)

text \<open>The trace: another thread posts a functor and wakes the loop up while it is in the poll.\<close>

lemma reachable_posted:
  "reachable sample_loop ((initial_threads sample_loop)\<lparr>pc := Polling, posted := [User 4],
     shared := sample_loop\<lparr>M_pendingFunctors := [User 4], eventfd := 1, M_callingPendingFunctors := False,
       M_looping := True, M_quit := False\<rparr>\<rparr>)"
proof -
  note r = reachable.init [of sample_loop]
  note r = reachable.step [OF r loop_step.start]
  note r = reachable.step [OF r loop_step.test_go]
  note r = reachable.step [OF r loop_step.post [of _ "User 4"]]
  note r = reachable.step [OF r loop_step.post_wakeup]
  from r show ?thesis by (simp add: initial_threads_def sample_loop_def shared_ops)
qed

theorem no_lost_wakeup_witness:
  "M_pendingFunctors (sample_loop\<lparr>M_pendingFunctors := [User 4], eventfd := 1,
     M_callingPendingFunctors := False, M_looping := True, M_quit := False\<rparr>) \<noteq> [] \<and>
   0 < eventfd (sample_loop\<lparr>M_pendingFunctors := [User 4], eventfd := 1,
     M_callingPendingFunctors := False, M_looping := True, M_quit := False\<rparr>)"
  using no_lost_wakeup [OF reachable_posted] by (simp add: initial_threads_def)

text \<open>C27. Functors run in the order in which they were queued, whichever threads queued them: at
  every moment the functors queued so far are those that ran, those of the current round and
  those still pending, in this order; so none is lost and none runs twice.\<close>

theorem functors_run_in_order:
  assumes "reachable l s"
  shows "posted s = executed s @ functors s @ M_pendingFunctors (shared s)"
  using reachable_invariants [OF assms] by (simp add: in_order_def)

theorem functors_run_in_order_witness:
  "[User 4] = [] @ [] @ M_pendingFunctors (sample_loop\<lparr>M_pendingFunctors := [User 4], eventfd := 1,
     M_callingPendingFunctors := False, M_looping := True, M_quit := False\<rparr>)"
  using functors_run_in_order [OF reachable_posted] by (simp add: initial_threads_def)

text \<open>C28. A call of \<^verbatim>\<open>quit\<close> that completes before the loop thread enters \<^verbatim>\<open>loop\<close> is lost: \<^verbatim>\<open>loop\<close>
  clears \<open>M_quit\<close>, reads the eventfd once and then waits in the poll with nothing to wake it.\<close>

theorem quit_before_loop_is_lost:
  "\<exists>s. reachable l s \<and> quits s = 1 \<and> quitters s = 0 \<and> pc s = Polling \<and>
     \<not> M_quit (shared s) \<and> eventfd (shared s) = 0"
proof -
  note r = reachable.init [of l]
  note r = reachable.step [OF r loop_step.quit_set]
  note r = reachable.step [OF r loop_step.quit_wakeup]
  note r = reachable.step [OF r loop_step.start]
  note r = reachable.step [OF r loop_step.test_go]
  note r = reachable.step [OF r loop_step.poll_return]
  note r = reachable.step [OF r loop_step.read_eventfd]
  note r = reachable.step [OF r loop_step.begin_drain]
  note r = reachable.step [OF r loop_step.swap]
  note r = reachable.step [OF r loop_step.end_drain]
  note r = reachable.step [OF r loop_step.test_go]
  show ?thesis
    by (rule exI, rule conjI, rule r) (simp_all add: initial_threads_def shared_ops)
qed

end
