(* ===== verification/Endian.thy ===== *)
theory Endian
  imports Prelude
begin

text \<open>
  The object representation of integers and the byte-order conversions of include/Endian.h.

  The conversions \<^verbatim>\<open>htobe16/32/64\<close> and \<^verbatim>\<open>be16/32/64toh\<close> of the C library depend on the byte
  order of the host, so the host is an argument of the model. \<open>obj_bytes\<close> is the memory an integer
  object occupies, \<open>obj_value\<close> the integer that \<^verbatim>\<open>memcpy\<close> of these bytes into an object gives.
  The lemmas show that the memory of a converted integer is its most-significant-byte-first
  encoding on either host, and that the two conversions are inverse to each other.
\<close>

datatype endian = LittleEndian | BigEndian

fun le_bytes :: "nat \<Rightarrow> nat \<Rightarrow> byte list" where
  "le_bytes 0 v = []"
| "le_bytes (Suc n) v = word_of_nat (v mod 256) # le_bytes n (v div 256)"

fun le_value :: "byte list \<Rightarrow> nat" where
  "le_value [] = 0"
| "le_value (b # bs) = unat b + 256 * le_value bs"

definition be_bytes :: "nat \<Rightarrow> nat \<Rightarrow> byte list" where
  "be_bytes n v = rev (le_bytes n v)"

definition obj_bytes :: "endian \<Rightarrow> nat \<Rightarrow> nat \<Rightarrow> byte list" where
  "obj_bytes host n v = (case host of LittleEndian \<Rightarrow> le_bytes n v | BigEndian \<Rightarrow> be_bytes n v)"

definition obj_value :: "endian \<Rightarrow> byte list \<Rightarrow> nat" where
  "obj_value host bs = (case host of LittleEndian \<Rightarrow> le_value bs | BigEndian \<Rightarrow> le_value (rev bs))"

text \<open>The C library's conversion of an \<open>n\<close>-byte integer: a byte swap on a little-endian host.\<close>

definition htobe :: "endian \<Rightarrow> nat \<Rightarrow> nat \<Rightarrow> nat" where
  "htobe host n v = (case host of LittleEndian \<Rightarrow> le_value (be_bytes n v) | BigEndian \<Rightarrow> v)"

definition hostToNetwork64 :: "endian \<Rightarrow> 64 word \<Rightarrow> 64 word" where
  "hostToNetwork64 host host64 = word_of_nat (htobe host 8 (unat host64))"

definition hostToNetwork32 :: "endian \<Rightarrow> 32 word \<Rightarrow> 32 word" where
  "hostToNetwork32 host host32 = word_of_nat (htobe host 4 (unat host32))"

definition hostToNetwork16 :: "endian \<Rightarrow> 16 word \<Rightarrow> 16 word" where
  "hostToNetwork16 host host16 = word_of_nat (htobe host 2 (unat host16))"

definition networkToHost64 :: "endian \<Rightarrow> 64 word \<Rightarrow> 64 word" where
  "networkToHost64 host net64 = word_of_nat (htobe host 8 (unat net64))"

definition networkToHost32 :: "endian \<Rightarrow> 32 word \<Rightarrow> 32 word" where
  "networkToHost32 host net32 = word_of_nat (htobe host 4 (unat net32))"

definition networkToHost16 :: "endian \<Rightarrow> 16 word \<Rightarrow> 16 word" where
  "networkToHost16 host net16 = word_of_nat (htobe host 2 (unat net16))"

section \<open>Encoding and decoding\<close>

lemma length_le_bytes [simp]: "length (le_bytes n v) = n"
  by (induction n arbitrary: v) simp_all

lemma length_be_bytes [simp]: "length (be_bytes n v) = n"
  by (simp add: be_bytes_def)

lemma length_obj_bytes [simp]: "length (obj_bytes host n v) = n"
  by (simp add: obj_bytes_def split: endian.split)

lemma unat_byte_of_nat: "unat (word_of_nat (v mod 256) :: byte) = v mod 256"
  by (simp add: unat_of_nat)

lemma le_value_le_bytes: "le_value (le_bytes n v) = v mod 256 ^ n"
proof (induction n arbitrary: v)
  case 0
  then show ?case by simp
next
  case (Suc n)
  have "v mod 256 + 256 * (v div 256 mod 256 ^ n) = v mod (256 * 256 ^ n)"
    by (metis add.commute mod_mult2_eq)
  with Suc show ?case by (simp add: unat_byte_of_nat)
qed

lemma le_bytes_le_value: "le_bytes (length bs) (le_value bs) = bs"
proof (induction bs)
  case Nil
  then show ?case by simp
next
  case (Cons b bs)
  have "unat b < 256" by (rule unat_byte_less)
  then show ?case using Cons by (simp add: div_mult_self2)
qed

lemma le_value_bound: "le_value bs < 256 ^ length bs"
proof (induction bs)
  case Nil
  then show ?case by simp
next
  case (Cons b bs)
  have "unat b < 256" by (rule unat_byte_less)
  with Cons show ?case by simp
qed

lemma obj_value_obj_bytes: "obj_value host (obj_bytes host n v) = v mod 256 ^ n"
  by (simp add: obj_value_def obj_bytes_def be_bytes_def le_value_le_bytes split: endian.split)

lemma htobe_bound: "v < 256 ^ n \<Longrightarrow> htobe host n v < 256 ^ n"
  using le_value_bound [of "be_bytes n v"] by (simp add: htobe_def split: endian.split)

text \<open>The memory of a converted integer is its big-endian encoding, on either host.\<close>

lemma obj_bytes_htobe: "obj_bytes host n (htobe host n v) = be_bytes n v"
proof (cases host)
  case LittleEndian
  have "le_bytes n (le_value (be_bytes n v)) = be_bytes n v"
    using le_bytes_le_value [of "be_bytes n v"] by simp
  with LittleEndian show ?thesis by (simp add: obj_bytes_def htobe_def)
next
  case BigEndian
  then show ?thesis by (simp add: obj_bytes_def htobe_def)
qed

lemma htobe_htobe: "v < 256 ^ n \<Longrightarrow> htobe host n (htobe host n v) = v"
proof (cases host)
  case LittleEndian
  assume "v < 256 ^ n"
  have "be_bytes n (le_value (be_bytes n v)) = le_bytes n v"
    using le_bytes_le_value [of "be_bytes n v"] by (simp add: be_bytes_def)
  with \<open>v < 256 ^ n\<close> LittleEndian show ?thesis by (simp add: htobe_def le_value_le_bytes)
next
  case BigEndian
  then show ?thesis by (simp add: htobe_def)
qed

text \<open>Reading the big-endian bytes into an object and converting it gives the value back.\<close>

lemma htobe_obj_value_be_bytes:
  assumes "v < 256 ^ n"
  shows "htobe host n (obj_value host (be_bytes n v)) = v"
proof -
  have "obj_value host (be_bytes n v) = obj_value host (obj_bytes host n (htobe host n v))"
    by (simp add: obj_bytes_htobe)
  also have "\<dots> = htobe host n v"
    using htobe_bound [OF assms] by (simp add: obj_value_obj_bytes)
  finally show ?thesis using assms by (simp add: htobe_htobe)
qed

lemma unat_bound_bytes [simp]:
  "unat (x64 :: 64 word) < 256 ^ 8" "unat (x32 :: 32 word) < 256 ^ 4" "unat (x16 :: 16 word) < 256 ^ 2"
  using unsigned_less [of x64, where ?'a = nat] unsigned_less [of x32, where ?'a = nat]
    unsigned_less [of x16, where ?'a = nat] by simp_all

lemma unat_hostToNetwork [simp]:
  "unat (hostToNetwork64 host x64) = htobe host 8 (unat x64)"
  "unat (hostToNetwork32 host x32) = htobe host 4 (unat x32)"
  "unat (hostToNetwork16 host x16) = htobe host 2 (unat x16)"
  using htobe_bound [of "unat x64" 8 host] htobe_bound [of "unat x32" 4 host]
    htobe_bound [of "unat x16" 2 host] unat_bound_bytes
  by (simp_all add: hostToNetwork64_def hostToNetwork32_def hostToNetwork16_def unat_of_nat)

end
