(* ===== verification/InetAddress.thy ===== *)
theory InetAddress
  imports Endian Format
begin

text \<open>
  The class \<^verbatim>\<open>InetAddress\<close> (include/InetAddress.h, src/InetAddress.cpp), the \<^verbatim>\<open>StringArg\<close> its texts are
  passed in (include/StringPiece.h) and the conversions of addresses of src/SocketsOps.cpp.

  \<^item> An \<^verbatim>\<open>InetAddress\<close> is the storage of its union: 28 bytes, the size of \<^verbatim>\<open>struct sockaddr_in6\<close>.
    The members of \<^verbatim>\<open>sockaddr_in\<close> and \<^verbatim>\<open>sockaddr_in6\<close> are ranges of these bytes at the offsets of
    Linux: family 0, port 2, \<^verbatim>\<open>sin_addr\<close> 4, \<^verbatim>\<open>sin6_addr\<close> 8. The constructors take the indeterminate
    bytes of the fresh object as an argument: those for IPv4 clear only the first 16.
  \<^item> \<^verbatim>\<open>inet_ntop\<close> and \<^verbatim>\<open>inet_pton\<close> for \<^verbatim>\<open>AF_INET\<close> are written out as the C library does them. For
    \<^verbatim>\<open>AF_INET6\<close> they are the argument \<open>lib6\<close>.
  \<^item> A \<^verbatim>\<open>char\<close> buffer that holds a C string is the string. A \<^verbatim>\<open>std::string\<close> may hold NUL characters: what
    a C function reads through its \<^verbatim>\<open>c_str()\<close> ends at the first one.
\<close>

section \<open>Storage\<close>

type_synonym sockaddr = "byte list"

definition AF_INET :: nat where "AF_INET = 2"
definition AF_INET6 :: nat where "AF_INET6 = 10"

definition sizeof_sockaddr_in :: nat where "sizeof_sockaddr_in = 16"
definition sizeof_sockaddr_in6 :: nat where "sizeof_sockaddr_in6 = 28"

definition INET_ADDRSTRLEN :: nat where "INET_ADDRSTRLEN = 16"

definition bzero :: "nat \<Rightarrow> sockaddr \<Rightarrow> sockaddr" where
  "bzero n a = splice_at a 0 (replicate n 0)"

definition sa_family :: "endian \<Rightarrow> sockaddr \<Rightarrow> nat" where
  "sa_family host a = obj_value host (window 0 2 a)"

definition sin_port :: "endian \<Rightarrow> sockaddr \<Rightarrow> 16 word" where
  "sin_port host a = word_of_nat (obj_value host (window 2 4 a))"

definition sin_addr :: "sockaddr \<Rightarrow> byte list" where "sin_addr a = window 4 8 a"

definition sin6_addr :: "sockaddr \<Rightarrow> byte list" where "sin6_addr a = window 8 24 a"

definition set_family :: "endian \<Rightarrow> nat \<Rightarrow> sockaddr \<Rightarrow> sockaddr" where
  "set_family host f a = splice_at a 0 (obj_bytes host 2 f)"

definition set_port :: "endian \<Rightarrow> 16 word \<Rightarrow> sockaddr \<Rightarrow> sockaddr" where
  "set_port host p a = splice_at a 2 (obj_bytes host 2 (unat p))"

definition set_sin_addr :: "byte list \<Rightarrow> sockaddr \<Rightarrow> sockaddr" where
  "set_sin_addr ip a = splice_at a 4 ip"

definition set_sin6_addr :: "byte list \<Rightarrow> sockaddr \<Rightarrow> sockaddr" where
  "set_sin6_addr ip a = splice_at a 8 ip"

text \<open>\<^verbatim>\<open>htons\<close>, \<^verbatim>\<open>ntohs\<close> and \<^verbatim>\<open>htonl\<close> are the conversions of the theory of byte orders.\<close>

abbreviation "htons \<equiv> hostToNetwork16"
abbreviation "ntohs \<equiv> networkToHost16"
abbreviation "htonl \<equiv> hostToNetwork32"

section \<open>The C library\<close>

definition ntop4 :: "byte list \<Rightarrow> string" where
  "ntop4 ip = digits (unat (ip ! 0)) @ ''.'' @ digits (unat (ip ! 1)) @ ''.'' @
     digits (unat (ip ! 2)) @ ''.'' @ digits (unat (ip ! 3))"

text \<open>The loop of \<^verbatim>\<open>inet_pton\<close>: the octets read so far and the one being read.\<close>

fun pton4_from :: "string \<Rightarrow> nat list \<Rightarrow> nat option \<Rightarrow> nat list option" where
  "pton4_from [] ds cur =
     (case cur of None \<Rightarrow> None | Some v \<Rightarrow> if length ds = 3 then Some (ds @ [v]) else None)"
| "pton4_from (c # s) ds cur =
     (if is_digit c then
        (case cur of
           None \<Rightarrow> if length ds \<le> 3 then pton4_from s ds (Some (digit_value c)) else None
         | Some v \<Rightarrow> let v' = 10 * v + digit_value c in
             if v = 0 \<or> 255 < v' then None else pton4_from s ds (Some v'))
      else if c = CHR ''.'' then
        (case cur of
           None \<Rightarrow> None
         | Some v \<Rightarrow> if length ds = 3 then None else pton4_from s (ds @ [v]) None)
      else None)"

definition pton4 :: "string \<Rightarrow> byte list option" where
  "pton4 s = map_option (map word_of_nat) (pton4_from s [] None)"

record lib6 =
  ntop6 :: "byte list \<Rightarrow> string"
  pton6 :: "string \<Rightarrow> byte list option"

text \<open>\<^verbatim>\<open>inet_ntop\<close> leaves the buffer alone when the text does not fit.\<close>

definition inet_ntop :: "string \<Rightarrow> nat \<Rightarrow> string \<Rightarrow> string" where
  "inet_ntop text siz buf = (if length text < siz then text else buf)"

section \<open>SocketsOps: addresses\<close>

definition sockets_toIp :: "lib6 \<Rightarrow> endian \<Rightarrow> string \<Rightarrow> nat \<Rightarrow> sockaddr \<Rightarrow> string res" where
  "sockets_toIp lib host buf siz addr =
     (if sa_family host addr = AF_INET then
        assertr (INET_ADDRSTRLEN \<le> siz) ''size >= INET_ADDRSTRLEN''
          (Inr (inet_ntop (ntop4 (sin_addr addr)) siz buf))
      else if sa_family host addr = AF_INET6 then
        assertr (INET_ADDRSTRLEN \<le> siz) ''size >= INET_ADDRSTRLEN''
          (Inr (inet_ntop (ntop6 lib (sin6_addr addr)) siz buf))
      else Inr buf)"

definition sockets_toIpPort :: "lib6 \<Rightarrow> endian \<Rightarrow> string \<Rightarrow> nat \<Rightarrow> sockaddr \<Rightarrow> string res" where
  "sockets_toIpPort lib host buf siz addr =
     bindr (sockets_toIp lib host buf siz addr) (\<lambda>buf.
       let end = length buf; port = ntohs host (sin_port host addr) in
       assertr (end < siz) ''size > end''
         (Inr (buf @ snprintf (siz - end) ('':'' @ digits (unat port)))))"

definition fromIpPort4 :: "endian \<Rightarrow> string \<Rightarrow> 16 word \<Rightarrow> sockaddr \<Rightarrow> sockaddr" where
  "fromIpPort4 host ip port addr =
     (let addr = set_port host (htons host port) (set_family host AF_INET addr) in
      case pton4 ip of None \<Rightarrow> addr | Some q \<Rightarrow> set_sin_addr q addr)"

definition fromIpPort6 :: "lib6 \<Rightarrow> endian \<Rightarrow> string \<Rightarrow> 16 word \<Rightarrow> sockaddr \<Rightarrow> sockaddr" where
  "fromIpPort6 lib host ip port addr =
     (let addr = set_port host (htons host port) (set_family host AF_INET6 addr) in
      case pton6 lib ip of None \<Rightarrow> addr | Some q \<Rightarrow> set_sin6_addr q addr)"

section \<open>StringArg\<close>

text \<open>A \<^verbatim>\<open>StringArg\<close> points to characters that outlive it; they are read as a C string.\<close>

record string_arg =
  M_str :: string

definition StringArg_chars :: "string \<Rightarrow> string_arg" where
  "StringArg_chars str = \<lparr>M_str = str\<rparr>"

definition StringArg_string :: "string \<Rightarrow> string_arg" where
  "StringArg_string str = \<lparr>M_str = takeWhile (\<lambda>ch. ch \<noteq> CHR 0x00) str\<rparr>"

definition c_str :: "string_arg \<Rightarrow> string" where
  "c_str arg = M_str arg"

lemma c_str_arg [simp]:
  "c_str (StringArg_chars str) = str"
  "CHR 0x00 \<notin> set str \<Longrightarrow> c_str (StringArg_string str) = str"
  "CHR 0x00 \<notin> set str \<Longrightarrow> c_str (StringArg_string (str @ CHR 0x00 # rest)) = str"
  by (auto simp: c_str_def StringArg_chars_def StringArg_string_def takeWhile_eq_all_conv takeWhile_append)

section \<open>InetAddress\<close>

definition kInaddrAny :: "32 word" where "kInaddrAny = 0"
definition KInaddrLoopback :: "32 word" where "KInaddrLoopback = 0x7f000001"

definition in6addr_any :: "byte list" where "in6addr_any = replicate 16 0"
definition in6addr_loopback :: "byte list" where "in6addr_loopback = replicate 15 0 @ [1]"

definition InetAddress_port :: "endian \<Rightarrow> sockaddr \<Rightarrow> 16 word \<Rightarrow> bool \<Rightarrow> bool \<Rightarrow> sockaddr" where
  "InetAddress_port host mem port loopbackOnly ipv6 =
     (if ipv6 then
        let a = set_family host AF_INET6 (bzero sizeof_sockaddr_in6 mem);
            ip = (if loopbackOnly then in6addr_loopback else in6addr_any)
        in set_port host (htons host port) (set_sin6_addr ip a)
      else
        let a = set_family host AF_INET (bzero sizeof_sockaddr_in mem);
            ip = (if loopbackOnly then KInaddrLoopback else kInaddrAny)
        in set_port host (htons host port)
             (set_sin_addr (obj_bytes host 4 (unat (htonl host ip))) a))"

definition InetAddress_ip :: "lib6 \<Rightarrow> endian \<Rightarrow> sockaddr \<Rightarrow> string_arg \<Rightarrow> 16 word \<Rightarrow> bool \<Rightarrow> sockaddr" where
  "InetAddress_ip lib host mem ip port ipv6 =
     (if ipv6 then fromIpPort6 lib host (c_str ip) port (bzero sizeof_sockaddr_in6 mem)
      else fromIpPort4 host (c_str ip) port (bzero sizeof_sockaddr_in mem))"

definition InetAddress_in :: "sockaddr \<Rightarrow> sockaddr \<Rightarrow> sockaddr" where
  "InetAddress_in mem addr = splice_at mem 0 addr"

definition InetAddress_in6 :: "sockaddr \<Rightarrow> sockaddr" where
  "InetAddress_in6 addr = addr"

definition family :: "endian \<Rightarrow> sockaddr \<Rightarrow> nat" where
  "family host a = sa_family host a"

definition getSockAddr :: "sockaddr \<Rightarrow> sockaddr" where
  "getSockAddr a = a"

definition setSockAddrInet6 :: "sockaddr \<Rightarrow> sockaddr \<Rightarrow> sockaddr" where
  "setSockAddrInet6 addr6 a = addr6"

definition toIpPort :: "lib6 \<Rightarrow> endian \<Rightarrow> sockaddr \<Rightarrow> string res" where
  "toIpPort lib host a = sockets_toIpPort lib host [] 64 (getSockAddr a)"

definition toIp :: "lib6 \<Rightarrow> endian \<Rightarrow> sockaddr \<Rightarrow> string res" where
  "toIp lib host a = sockets_toIp lib host [] 64 (getSockAddr a)"

definition toPort :: "endian \<Rightarrow> sockaddr \<Rightarrow> 16 word" where
  "toPort host a = ntohs host (sin_port host a)"

text \<open>The argument \<open>gethostbyname\<close> gives the answer of \<^verbatim>\<open>gethostbyname_r\<close> for a name: its return value and
  the entry, if it found one.\<close>

record hostent =
  h_addrtype :: nat
  h_length :: nat
  h_addr :: "byte list"

definition resolve :: "(string \<Rightarrow> int \<times> hostent option) \<Rightarrow> string_arg \<Rightarrow> sockaddr \<Rightarrow> (bool \<times> sockaddr) res" where
  "resolve gethostbyname hostname out =
     (case gethostbyname (c_str hostname) of
        (ret, Some he) \<Rightarrow>
          if ret = 0 then
            assertr (h_addrtype he = AF_INET \<and> h_length he = 4)
              ''he->h_addrtype == AF_INET && he->h_length == sizeof(uint32_t)''
              (Inr (True, set_sin_addr (h_addr he) out))
          else Inr (False, out)
      | (ret, None) \<Rightarrow> Inr (False, out))"

section \<open>Dotted quads\<close>

lemma digits_step: "v \<noteq> 0 \<Longrightarrow> d < 10 \<Longrightarrow> digits (10 * v + d) = digits v @ [digit d]"
  by (subst digits.simps) simp

lemma digit_digit_value: "is_digit c \<Longrightarrow> digit (digit_value c) = c"
  by (auto simp: is_digit_def digit_def digit_value_def)

lemma digit_value_less: "is_digit c \<Longrightarrow> digit_value c < 10"
  by (auto simp: is_digit_def digit_value_def)

lemma pton4_from_digits:
  "n < 256 \<Longrightarrow> length ds \<le> 3 \<Longrightarrow> pton4_from (digits n @ s) ds None = pton4_from s ds (Some n)"
proof (induction n arbitrary: s rule: digits.induct)
  case (1 n)
  show ?case
  proof (cases "n < 10")
    case True
    with "1.prems" show ?thesis by (simp add: digits.simps [of n])
  next
    case False
    then have "n div 10 \<noteq> 0" "10 * (n div 10) + n mod 10 = n" by auto
    with 1 False show ?thesis by (simp add: digits.simps [of n])
  qed
qed

lemma pton4_ntop4:
  assumes "length ip = 4"
  shows "pton4 (ntop4 ip) = Some ip"
proof -
  from assms obtain a b c d where ip: "ip = [a, b, c, d]"
    by (auto simp: length_Suc_conv numeral_eq_Suc)
  have not_digit: "\<not> is_digit (CHR ''.'')" by (simp add: is_digit_def)
  have "pton4_from (ntop4 ip) [] None = Some [unat a, unat b, unat c, unat d]"
    using pton4_from_digits [of "unat d" _ "[]"] not_digit
    by (simp add: ip ntop4_def pton4_from_digits unat_byte_less)
  then show ?thesis by (simp add: pton4_def ip)
qed

text \<open>What \<^verbatim>\<open>inet_pton\<close> accepts is what \<^verbatim>\<open>inet_ntop\<close> prints.\<close>

definition render :: "nat list \<Rightarrow> nat option \<Rightarrow> string" where
  "render ds cur = concat (map (\<lambda>d. digits d @ ''.'') ds) @ (case cur of None \<Rightarrow> [] | Some v \<Rightarrow> digits v)"

lemma pton4_from_render:
  assumes "pton4_from s ds cur = Some qs"
    and "\<forall>d \<in> set ds. d < 256" and "\<forall>v. cur = Some v \<longrightarrow> v < 256"
  shows "length qs = 4 \<and> (\<forall>q \<in> set qs. q < 256) \<and> render ds cur @ s = render (butlast qs) (Some (last qs))"
  using assms
proof (induction s ds cur rule: pton4_from.induct)
  case (1 ds cur)
  then show ?case by (auto split: option.splits if_splits)
next
  case (2 c s ds cur)
  show ?case
  proof (cases "is_digit c")
    case True
    note c = digit_value_less [OF True] digit_digit_value [OF True]
    show ?thesis
    proof (cases cur)
      case None
      with 2 True c show ?thesis
        by (auto simp: render_def digits.simps [of "digit_value c"] split: if_splits)
    next
      case (Some v)
      with 2 True c show ?thesis
        by (auto simp: render_def digits_step Let_def split: if_splits)
    qed
  next
    case False
    with 2 show ?thesis by (auto simp: render_def split: if_splits option.splits)
  qed
qed

lemma ntop4_pton4:
  assumes "pton4 s = Some ip"
  shows "length ip = 4" and "ntop4 ip = s"
proof -
  from assms obtain qs where qs: "pton4_from s [] None = Some qs" "ip = map word_of_nat qs"
    by (auto simp: pton4_def)
  from pton4_from_render [OF qs(1)] have 1: "length qs = 4" "\<forall>q \<in> set qs. q < 256"
    "s = render (butlast qs) (Some (last qs))" by (simp_all add: render_def)
  then obtain a b c d where abcd: "qs = [a, b, c, d]" by (auto simp: length_Suc_conv numeral_eq_Suc)
  have "unat (word_of_nat n :: byte) = n" if "n < 256" for n using that by (simp add: unat_of_nat)
  with 1 qs(2) abcd show "length ip = 4" "ntop4 ip = s"
    by (simp_all add: ntop4_def render_def)
qed

lemma length_ntop4:
  assumes "length ip = 4"
  shows "length (ntop4 ip) \<le> 15"
proof -
  have "length (digits (unat b)) \<le> 3" for b :: byte
    using length_digits_le [of 3 "unat b"] unat_byte_less [of b] by simp
  then have "length (digits (unat (ip ! 0))) \<le> 3" "length (digits (unat (ip ! 1))) \<le> 3"
    "length (digits (unat (ip ! 2))) \<le> 3" "length (digits (unat (ip ! 3))) \<le> 3" by blast+
  then show ?thesis by (simp add: ntop4_def)
qed

section \<open>Members of the union\<close>

definition storage :: "sockaddr \<Rightarrow> bool" where
  "storage a \<longleftrightarrow> length a = sizeof_sockaddr_in6"

lemmas sockaddr_members = storage_def sizeof_sockaddr_in_def sizeof_sockaddr_in6_def bzero_def
  set_family_def set_port_def set_sin_addr_def set_sin6_addr_def sa_family_def sin_port_def
  sin_addr_def sin6_addr_def

lemma storage_set [simp]:
  assumes "storage a"
  shows "storage (set_family host f a)" and "storage (set_port host p a)"
    and "storage (bzero sizeof_sockaddr_in a)" and "storage (bzero sizeof_sockaddr_in6 a)"
    and "length ip = 4 \<Longrightarrow> storage (set_sin_addr ip a)"
    and "length ip6 = 16 \<Longrightarrow> storage (set_sin6_addr ip6 a)"
  using assms by (simp_all add: sockaddr_members)

lemma splice_window:
  assumes "i + length ys \<le> length xs"
  shows "w = i + length ys \<Longrightarrow> window i w (splice_at xs i ys) = ys"
    and "w \<le> i \<or> i + length ys \<le> r \<Longrightarrow> window r w (splice_at xs i ys) = window r w xs"
  using assms by (auto simp: window_splice_before window_splice_after)

lemma members_family [simp]:
  assumes "storage a"
  shows "f < 65536 \<Longrightarrow> sa_family host (set_family host f a) = f"
    and "sin_port host (set_family host f a) = sin_port host a"
    and "sin_addr (set_family host f a) = sin_addr a"
    and "sin6_addr (set_family host f a) = sin6_addr a"
  using assms by (simp_all add: sockaddr_members splice_window obj_value_obj_bytes)

lemma members_port [simp]:
  assumes "storage a"
  shows "sa_family host (set_port host p a) = sa_family host a"
    and "sin_port host (set_port host p a) = p"
    and "sin_addr (set_port host p a) = sin_addr a"
    and "sin6_addr (set_port host p a) = sin6_addr a"
  using assms unat_bound_bytes(3) [of p] by (simp_all add: sockaddr_members splice_window obj_value_obj_bytes)

lemma members_addr [simp]:
  assumes "storage a" and "length ip = 4"
  shows "sa_family host (set_sin_addr ip a) = sa_family host a"
    and "sin_port host (set_sin_addr ip a) = sin_port host a"
    and "sin_addr (set_sin_addr ip a) = ip"
  using assms by (simp_all add: sockaddr_members splice_window)

lemma members_addr6 [simp]:
  assumes "storage a" and "length ip6 = 16"
  shows "sa_family host (set_sin6_addr ip6 a) = sa_family host a"
    and "sin_port host (set_sin6_addr ip6 a) = sin_port host a"
    and "sin6_addr (set_sin6_addr ip6 a) = ip6"
  using assms by (simp_all add: sockaddr_members splice_window)

lemma members_zero [simp]:
  assumes "storage a"
  shows "sin_addr (bzero sizeof_sockaddr_in a) = replicate 4 0"
    and "sin6_addr (bzero sizeof_sockaddr_in6 a) = replicate 16 0"
proof -
  have w: "window r w (replicate n x @ ys) = replicate (w - r) x" if "w \<le> n" for r w n :: nat and x :: byte and ys
    using that by (simp add: window_def min_def)
  show "sin_addr (bzero sizeof_sockaddr_in a) = replicate 4 0"
    "sin6_addr (bzero sizeof_sockaddr_in6 a) = replicate 16 0"
    using assms by (simp_all add: sockaddr_members splice_at_def w w [where ys = "[]", simplified])
qed

lemma ntohs_htons [simp]: "ntohs host (htons host p) = p"
  using htobe_htobe [OF unat_bound_bytes(3), of host p] by (simp add: networkToHost16_def)

lemma AF_small [simp]: "AF_INET < 65536" "AF_INET6 < 65536" "AF_INET6 \<noteq> AF_INET" "AF_INET \<noteq> AF_INET6"
  by (simp_all add: AF_INET_def AF_INET6_def)

lemma length_port: "length (digits (unat (p :: 16 word))) \<le> 5"
  using length_digits_le [of 5 "unat p"] unat_bound_bytes(3) [of p] by simp

text \<open>The text of an address whose family is set: the buffer of 64 bytes is large enough.\<close>

lemma toIpPort_text:
  assumes "sa_family host a = AF_INET \<and> ip = ntop4 (sin_addr a) \<and> length (sin_addr a) = 4 \<or>
      sa_family host a = AF_INET6 \<and> ip = ntop6 lib (sin6_addr a) \<and> length ip \<le> 45"
  shows "toIp lib host a = Inr ip"
    and "toIpPort lib host a = Inr (ip @ '':'' @ digits (unat (toPort host a)))"
proof -
  from assms length_ntop4 have len: "length ip \<le> 45" by fastforce
  with assms show 1: "toIp lib host a = Inr ip"
    by (auto simp: toIp_def sockets_toIp_def getSockAddr_def inet_ntop_def INET_ADDRSTRLEN_def)
  then show "toIpPort lib host a = Inr (ip @ '':'' @ digits (unat (toPort host a)))"
    using len length_port [of "ntohs host (sin_port host a)"]
    by (simp add: toIpPort_def sockets_toIpPort_def toIp_def getSockAddr_def toPort_def)
qed

definition lib6_documented :: "lib6 \<Rightarrow> bool" where
  "lib6_documented lib \<longleftrightarrow>
     (\<forall>s b. pton6 lib s = Some b \<longrightarrow> length b = 16) \<and> (\<forall>b. length b = 16 \<longrightarrow> length (ntop6 lib b) \<le> 45)"

section \<open>Properties\<close>

text \<open>C29. An address made from an IPv4 text that \<^verbatim>\<open>inet_pton\<close> accepts prints as that text, and its
  port reads back, on hosts of either byte order and whatever the fresh object's storage held; a
  text that is not accepted gives the address 0.0.0.0 and no error.\<close>

theorem inet_address_roundtrip:
  assumes "storage mem" and "c_str arg = ip"
  shows "let a = InetAddress_ip lib host mem arg port False in
    storage a \<and> toPort host a = port \<and> family host a = AF_INET \<and>
    toIpPort lib host a =
      Inr ((if pton4 ip = None then ''0.0.0.0'' else ip) @ '':'' @ digits (unat port))"
proof -
  let ?b = "set_port host (htons host port) (set_family host AF_INET (bzero sizeof_sockaddr_in mem))"
  let ?a = "InetAddress_ip lib host mem arg port False"
  have b: "storage ?b" "sa_family host ?b = AF_INET" "sin_port host ?b = htons host port"
    "sin_addr ?b = replicate 4 0" using assms(1) by simp_all
  obtain q where q: "length q = 4" "sin_addr ?a = q" "storage ?a" "sa_family host ?a = AF_INET"
    "sin_port host ?a = htons host port" "ntop4 q = (if pton4 ip = None then ''0.0.0.0'' else ip)"
  proof (cases "pton4 ip")
    case None
    have "ntop4 (replicate 4 0) = ''0.0.0.0''" by code_simp
    with None b that [of "replicate 4 0"] show thesis by (simp add: assms(2) InetAddress_ip_def fromIpPort4_def)
  next
    case (Some q)
    with ntop4_pton4 [OF Some] b that [of q] show thesis
      by (simp add: assms(2) InetAddress_ip_def fromIpPort4_def)
  qed
  then have "toPort host ?a = port" by (simp add: toPort_def)
  with toIpPort_text(2) [of host ?a "ntop4 q"] q show ?thesis by (simp add: family_def)
qed

definition sample_lib :: lib6 where
  "sample_lib = \<lparr>ntop6 = \<lambda>b. ''::'', pton6 = \<lambda>s. if s = ''::'' then Some (replicate 16 0) else None\<rparr>"

lemma sample_ip: "pton4 ''10.1.2.3'' = Some [10, 1, 2, 3]" "digits 8080 = ''8080''"
proof -
  show "digits 8080 = ''8080''" by (simp add: digits.simps digit_def char_of_def bit_0)
  show "pton4 ''10.1.2.3'' = Some [10, 1, 2, 3]" by (simp add: pton4_def is_digit_def digit_value_def)
qed

theorem inet_address_roundtrip_witness:
  "toIpPort sample_lib LittleEndian
     (InetAddress_ip sample_lib LittleEndian (replicate 28 255) (StringArg_string (''10.1.2.3'' @ [CHR 0x00, CHR ''9''])) 8080 False) =
     Inr ''10.1.2.3:8080''"
  using inet_address_roundtrip [of "replicate 28 255" "StringArg_string (''10.1.2.3'' @ [CHR 0x00, CHR ''9''])" "''10.1.2.3''" sample_lib
      LittleEndian 8080]
  by (simp add: sample_ip c_str_def StringArg_string_def storage_def sizeof_sockaddr_in6_def Let_def)

text \<open>The same for an IPv6 text: \<^verbatim>\<open>toPort\<close> and \<^verbatim>\<open>toIpPort\<close> read the port through \<^verbatim>\<open>sockaddr_in\<close>, where
  it lies at the same offset.\<close>

lemma inet_address6_text:
  fixes host :: endian and port :: "16 word"
  assumes "storage mem" and "lib6_documented lib" and "pton6 lib (c_str ip) = Some q"
  defines "a \<equiv> InetAddress_ip lib host mem ip port True"
  shows "storage a" and "toPort host a = port"
    and "toIpPort lib host a = Inr (ntop6 lib q @ '':'' @ digits (unat port))"
proof -
  from assms(2,3) have q: "length q = 16" "length (ntop6 lib q) \<le> 45" by (auto simp: lib6_documented_def)
  then have a: "storage a" "sa_family host a = AF_INET6" "sin_port host a = htons host port" "sin6_addr a = q"
    using assms(1,3) by (simp_all add: a_def InetAddress_ip_def fromIpPort6_def)
  then show "storage a" "toPort host a = port" by (simp_all add: toPort_def)
  with a q toIpPort_text(2) [of host a "ntop6 lib q" lib]
  show "toIpPort lib host a = Inr (ntop6 lib q @ '':'' @ digits (unat port))" by simp
qed

text \<open>\<^verbatim>\<open>resolve\<close> of a name with an IPv4 address changes the address only, so that a port set before the
  call stays; a name that is not found leaves everything.\<close>

lemma resolve_keeps_port:
  assumes "storage out" and "gethostbyname (c_str name) = (ret, entry)"
    and "\<And>he. entry = Some he \<Longrightarrow> h_addrtype he = AF_INET \<and> h_length he = 4 \<and> length (h_addr he) = 4"
  shows "\<exists>ok a. resolve gethostbyname name out = Inr (ok, a) \<and> storage a \<and> toPort host a = toPort host out \<and>
    family host a = family host out \<and>
    (case entry of Some he \<Rightarrow> if ret = 0 then ok \<and> sin_addr a = h_addr he else \<not> ok \<and> a = out | None \<Rightarrow> \<not> ok \<and> a = out)"
  using assms by (cases entry) (auto simp: resolve_def assertr_def toPort_def family_def)

text \<open>\<^verbatim>\<open>toIpPort\<close> returns on every address: its assertions hold.\<close>

lemma toIpPort_returns: "\<exists>t. toIpPort lib host a = Inr t"
proof -
  have "\<exists>buf. sockets_toIp lib host [] 64 (getSockAddr a) = Inr buf \<and> length buf < 64"
    by (simp add: sockets_toIp_def inet_ntop_def INET_ADDRSTRLEN_def)
  then show ?thesis by (auto simp: toIpPort_def sockets_toIpPort_def Let_def)
qed

end
