(* ===== verification/Sockets.thy ===== *)
theory Sockets
  imports InetAddress
begin

text \<open>
  The system calls of src/SocketsOps.cpp and the class \<^verbatim>\<open>Socket\<close> (include/Socket.h, src/Socket.cpp).

  \<^item> \<open>fd_table\<close> is what the code can see of the kernel: the file status flags and the descriptor
    flags of the open descriptors, and \<open>errno\<close>. \<^verbatim>\<open>fcntl\<close> is modelled as fcntl(2) documents it: it
    fails with \<^verbatim>\<open>EBADF\<close> on a descriptor that is not open, and a call that succeeds keeps \<open>errno\<close>.
  \<^item> The answer of a call whose result the kernel decides (\<^verbatim>\<open>socket\<close>, \<^verbatim>\<open>accept\<close>, \<^verbatim>\<open>getsockopt\<close>,
    \<^verbatim>\<open>getsockname\<close>, \<^verbatim>\<open>getpeername\<close>) is an argument; a call that is made for its effect is an
    element of a list of \<open>syscall\<close>s.
  \<^item> \<open>errno\<close> values are those of Linux.
\<close>

unbundle bit_operations_syntax

section \<open>The kernel\<close>

definition EPERM :: int where "EPERM = 1"
definition EINTR :: int where "EINTR = 4"
definition EBADF :: int where "EBADF = 9"
definition EAGAIN :: int where "EAGAIN = 11"
definition EACCES :: int where "EACCES = 13"
definition EFAULT :: int where "EFAULT = 14"
definition EMFILE :: int where "EMFILE = 24"
definition EPIPE :: int where "EPIPE = 32"
definition ENOTSOCK :: int where "ENOTSOCK = 88"
definition EAFNOSUPPORT :: int where "EAFNOSUPPORT = 97"
definition EADDRINUSE :: int where "EADDRINUSE = 98"
definition EADDRNOTAVAIL :: int where "EADDRNOTAVAIL = 99"
definition ENETUNREACH :: int where "ENETUNREACH = 101"
definition ECONNRESET :: int where "ECONNRESET = 104"
definition EISCONN :: int where "EISCONN = 106"
definition ECONNREFUSED :: int where "ECONNREFUSED = 111"
definition EALREADY :: int where "EALREADY = 114"
definition EINPROGRESS :: int where "EINPROGRESS = 115"

abbreviation "EWOULDBLOCK \<equiv> EAGAIN"

lemmas errno_values = EPERM_def EINTR_def EBADF_def EAGAIN_def EACCES_def EFAULT_def EMFILE_def EPIPE_def
  ENOTSOCK_def EAFNOSUPPORT_def EADDRINUSE_def EADDRNOTAVAIL_def ENETUNREACH_def ECONNRESET_def EISCONN_def
  ECONNREFUSED_def EALREADY_def EINPROGRESS_def

definition O_NONBLOCK :: int32 where "O_NONBLOCK = 0x800"
definition FD_CLOEXEC :: int32 where "FD_CLOEXEC = 1"

record fd_table =
  status_flags :: "int \<rightharpoonup> int32"
  descriptor_flags :: "int \<rightharpoonup> int32"
  errno :: int

definition open_fd :: "fd_table \<Rightarrow> int \<Rightarrow> bool" where
  "open_fd t fd \<longleftrightarrow> 0 \<le> fd \<and> status_flags t fd \<noteq> None \<and> descriptor_flags t fd \<noteq> None"

text \<open>The kernel hands out a descriptor with the given flags.\<close>

definition install_fd :: "int \<Rightarrow> int32 \<Rightarrow> fd_table \<Rightarrow> fd_table" where
  "install_fd fd fl t = t\<lparr>status_flags := (status_flags t)(fd \<mapsto> fl), descriptor_flags := (descriptor_flags t)(fd \<mapsto> 0)\<rparr>"

definition fcntl_GETFL :: "int \<Rightarrow> fd_table \<Rightarrow> int32 \<times> fd_table" where
  "fcntl_GETFL fd t =
     (if open_fd t fd then (the (status_flags t fd), t) else (-1, t\<lparr>errno := EBADF\<rparr>))"

definition fcntl_SETFL :: "int \<Rightarrow> int32 \<Rightarrow> fd_table \<Rightarrow> fd_table" where
  "fcntl_SETFL fd fl t =
     (if open_fd t fd then t\<lparr>status_flags := (status_flags t)(fd \<mapsto> fl)\<rparr> else t\<lparr>errno := EBADF\<rparr>)"

definition fcntl_GETFD :: "int \<Rightarrow> fd_table \<Rightarrow> int32 \<times> fd_table" where
  "fcntl_GETFD fd t =
     (if open_fd t fd then (the (descriptor_flags t fd), t) else (-1, t\<lparr>errno := EBADF\<rparr>))"

definition fcntl_SETFD :: "int \<Rightarrow> int32 \<Rightarrow> fd_table \<Rightarrow> fd_table" where
  "fcntl_SETFD fd fl t =
     (if open_fd t fd then t\<lparr>descriptor_flags := (descriptor_flags t)(fd \<mapsto> fl)\<rparr> else t\<lparr>errno := EBADF\<rparr>)"

text \<open>\<^verbatim>\<open>close\<close> as close(2) documents it.\<close>

definition close_fd :: "int \<Rightarrow> fd_table \<Rightarrow> fd_table" where
  "close_fd fd t =
     (if open_fd t fd then t\<lparr>status_flags := (status_flags t)(fd := None), descriptor_flags := (descriptor_flags t)(fd := None)\<rparr>
      else t\<lparr>errno := EBADF\<rparr>)"

datatype syscall =
    Bind int sockaddr          \<comment> \<open>the bytes the address length covers\<close>
  | Listen int int
  | Connect int sockaddr
  | Close int
  | ShutdownWrite int
  | SetSockOpt int sockopt int
  | OpenDevNull
  | AcceptNull int
and sockopt = TCP_NODELAY | SO_REUSEADDR | SO_REUSEPORT | SO_KEEPALIVE

section \<open>SocketsOps\<close>

definition setNonBlockAndCloseOnExec :: "int \<Rightarrow> fd_table \<Rightarrow> fd_table" where
  "setNonBlockAndCloseOnExec sockfd t =
     (let (flags, t) = fcntl_GETFL sockfd t;
          t = fcntl_SETFL sockfd (flags OR O_NONBLOCK) t;
          (flags, t) = fcntl_GETFD sockfd t
      in fcntl_SETFD sockfd (flags OR FD_CLOEXEC) t)"

text \<open>A call that returns a descriptor: the descriptor with its flags, or the \<open>errno\<close>.\<close>

definition kernel_fd :: "int + int \<times> int32 \<Rightarrow> fd_table \<Rightarrow> int \<times> fd_table" where
  "kernel_fd answer t =
     (case answer of Inl e \<Rightarrow> (-1, t\<lparr>errno := e\<rparr>) | Inr (fd, fl) \<Rightarrow> (fd, install_fd fd fl t))"

definition createNonblockingOrDie :: "int + int \<times> int32 \<Rightarrow> fd_table \<Rightarrow> int \<times> fd_table" where
  "createNonblockingOrDie answer t =
     (let (sockfd, t) = kernel_fd answer t in (sockfd, setNonBlockAndCloseOnExec sockfd t))"

definition bindOrDie :: "int \<Rightarrow> sockaddr \<Rightarrow> syscall list" where
  "bindOrDie sockfd addr = [Bind sockfd (take sizeof_sockaddr_in addr)]"

definition SOMAXCONN :: int where "SOMAXCONN = 128"

definition listenOrDie :: "int \<Rightarrow> syscall list" where
  "listenOrDie sockfd = [Listen sockfd SOMAXCONN]"

text \<open>
  \<^verbatim>\<open>accept\<close> is given \<^verbatim>\<open>sizeof(struct sockaddr)\<close>, 16, as the length of the address: the kernel writes
  at most that many bytes of the peer's address. \<open>peer\<close> is the whole address.
\<close>

definition sizeof_sockaddr :: nat where "sizeof_sockaddr = 16"

definition sockets_accept :: "int + int \<times> int32 \<Rightarrow> sockaddr \<Rightarrow> sockaddr \<Rightarrow> fd_table \<Rightarrow>
    int \<times> sockaddr \<times> fd_table" where
  "sockets_accept answer peer addr t =
     (let (connfd, t) = kernel_fd answer t;
          addr = (if connfd < 0 then addr else splice_at addr 0 (take sizeof_sockaddr peer));
          t = setNonBlockAndCloseOnExec connfd t
      in if connfd < 0 then let savedErrno = errno t in (connfd, addr, t\<lparr>errno := savedErrno\<rparr>)
         else (connfd, addr, t))"

text \<open>
  \<^verbatim>\<open>connect\<close>: the \<open>errno\<close> of the call, 0 when it succeeds. As connect(2) has it, the call fails with
  \<^verbatim>\<open>EBADF\<close> on a descriptor that is not open.
\<close>

definition sockets_connect :: "int \<Rightarrow> int \<Rightarrow> fd_table \<Rightarrow> int" where
  "sockets_connect sockfd answer t = (if open_fd t sockfd then answer else EBADF)"

definition sockets_close :: "int \<Rightarrow> syscall list" where
  "sockets_close sockfd = [Close sockfd]"

definition sockets_shutdownWrite :: "int \<Rightarrow> syscall list" where
  "sockets_shutdownWrite sockfd = [ShutdownWrite sockfd]"

text \<open>\<open>answer\<close> of \<^verbatim>\<open>getsockopt\<close>: the error of the call or the value of the option.\<close>

definition getSocketError :: "int + int \<Rightarrow> int" where
  "getSocketError answer = (case answer of Inl e \<Rightarrow> e | Inr optval \<Rightarrow> optval)"

text \<open>\<open>answer\<close> of \<^verbatim>\<open>getsockname\<close> and \<^verbatim>\<open>getpeername\<close>: the address, when the call succeeds.\<close>

definition getLocalAddr :: "sockaddr option \<Rightarrow> sockaddr" where
  "getLocalAddr answer =
     (let localAddr = replicate sizeof_sockaddr_in6 0 in
      case answer of None \<Rightarrow> localAddr | Some a \<Rightarrow> splice_at localAddr 0 (take sizeof_sockaddr_in6 a))"

definition getPeerAddr :: "sockaddr option \<Rightarrow> sockaddr" where
  "getPeerAddr answer =
     (let peerAddr = replicate sizeof_sockaddr_in6 0 in
      case answer of None \<Rightarrow> peerAddr | Some a \<Rightarrow> splice_at peerAddr 0 (take sizeof_sockaddr_in6 a))"

section \<open>Socket\<close>

text \<open>A \<^verbatim>\<open>Socket\<close> is its descriptor \<^verbatim>\<open>M_sockfd\<close>.\<close>

definition delete_Socket :: "int \<Rightarrow> syscall list" where
  "delete_Socket M_sockfd = sockets_close M_sockfd"

definition bindAddress :: "int \<Rightarrow> sockaddr \<Rightarrow> syscall list" where
  "bindAddress M_sockfd addr = bindOrDie M_sockfd (getSockAddr addr)"

definition Socket_listen :: "int \<Rightarrow> syscall list" where
  "Socket_listen M_sockfd = listenOrDie M_sockfd"

definition Socket_accept :: "int + int \<times> int32 \<Rightarrow> sockaddr \<Rightarrow> sockaddr \<Rightarrow> fd_table \<Rightarrow>
    int \<times> sockaddr \<times> fd_table" where
  "Socket_accept answer peer peeraddr t =
     (let addr = replicate sizeof_sockaddr_in6 0;
          (connfd, addr, t) = sockets_accept answer peer addr t
      in (connfd, if 0 \<le> connfd then setSockAddrInet6 addr peeraddr else peeraddr, t))"

definition Socket_shutdownWrite :: "int \<Rightarrow> syscall list" where
  "Socket_shutdownWrite M_sockfd = sockets_shutdownWrite M_sockfd"

definition Socket_setTcpNoDelay :: "int \<Rightarrow> bool \<Rightarrow> syscall list" where
  "Socket_setTcpNoDelay M_sockfd on = [SetSockOpt M_sockfd TCP_NODELAY (if on then 1 else 0)]"

definition setReuseAddr :: "int \<Rightarrow> bool \<Rightarrow> syscall list" where
  "setReuseAddr M_sockfd on = [SetSockOpt M_sockfd SO_REUSEADDR (if on then 1 else 0)]"

text \<open>The macro \<^verbatim>\<open>SO_RESUEPORT\<close> that guards the call is defined nowhere: the other branch is compiled.\<close>

definition setReusePort :: "int \<Rightarrow> bool \<Rightarrow> syscall list" where
  "setReusePort M_sockfd on = []"

definition setKeepAlive :: "int \<Rightarrow> bool \<Rightarrow> syscall list" where
  "setKeepAlive M_sockfd on = [SetSockOpt M_sockfd SO_KEEPALIVE (if on then 1 else 0)]"

section \<open>Flags and errno\<close>

lemma setNonBlock_open:
  assumes "open_fd t fd"
  shows "setNonBlockAndCloseOnExec fd t =
    t\<lparr>status_flags := (status_flags t)(fd \<mapsto> the (status_flags t fd) OR O_NONBLOCK),
      descriptor_flags := (descriptor_flags t)(fd \<mapsto> the (descriptor_flags t fd) OR FD_CLOEXEC)\<rparr>"
  using assms
  by (auto simp: setNonBlockAndCloseOnExec_def fcntl_GETFL_def fcntl_SETFL_def fcntl_GETFD_def
      fcntl_SETFD_def open_fd_def Let_def)

lemma setNonBlock_bad:
  assumes "\<not> open_fd t fd"
  shows "setNonBlockAndCloseOnExec fd t = t\<lparr>errno := EBADF\<rparr>"
  using assms
  by (auto simp: setNonBlockAndCloseOnExec_def fcntl_GETFL_def fcntl_SETFL_def fcntl_GETFD_def
      fcntl_SETFD_def open_fd_def Let_def)

lemma open_fd_install: "open_fd (install_fd fd fl t) fd \<longleftrightarrow> 0 \<le> fd"
  by (simp add: open_fd_def install_fd_def)

text \<open>A failed \<^verbatim>\<open>accept\<close> always leaves \<^verbatim>\<open>EBADF\<close>: the flags are set before the result is looked at.\<close>

lemma sockets_accept_failed:
  "sockets_accept (Inl e) peer addr t = (-1, addr, t\<lparr>errno := EBADF\<rparr>)"
proof -
  have "\<not> open_fd (t\<lparr>errno := e\<rparr>) (-1)" by (simp add: open_fd_def)
  from setNonBlock_bad [OF this] show ?thesis by (simp add: sockets_accept_def kernel_fd_def)
qed

lemma sockets_accept_ok:
  assumes "0 \<le> fd"
  shows "sockets_accept (Inr (fd, fl)) peer addr t =
    (fd, splice_at addr 0 (take sizeof_sockaddr peer),
     t\<lparr>status_flags := (status_flags t)(fd \<mapsto> fl OR O_NONBLOCK),
       descriptor_flags := (descriptor_flags t)(fd \<mapsto> FD_CLOEXEC)\<rparr>)"
proof -
  have "open_fd (install_fd fd fl t) fd" using assms by (simp add: open_fd_install)
  from setNonBlock_open [OF this] assms show ?thesis
    by (simp add: sockets_accept_def kernel_fd_def install_fd_def)
qed

section \<open>Properties\<close>

text \<open>An accepted connection's descriptor is non-blocking and closed on exec, and the peer's
  address is stored as far as its first 16 bytes: an IPv4 address whole, of an IPv6 address the
  port and the first 8 of the 16 address bytes, the others reading 0. A failed accept stores no
  address and leaves \<open>errno\<close> at \<^verbatim>\<open>EBADF\<close> whatever the kernel reported, \<^verbatim>\<open>EMFILE\<close> included.\<close>

theorem accept_results:
  assumes "storage peer" and "0 \<le> fd"
  shows "(case Socket_accept (Inr (fd, fl)) peer peeraddr t of (connfd, a, t') \<Rightarrow>
      connfd = fd \<and> status_flags t' fd = Some (fl OR O_NONBLOCK) \<and> descriptor_flags t' fd = Some FD_CLOEXEC \<and>
      storage a \<and> family host a = family host peer \<and> toPort host a = toPort host peer \<and>
      sin_addr a = sin_addr peer \<and> sin6_addr a = take 8 (sin6_addr peer) @ replicate 8 0) \<and>
    Socket_accept (Inl e) peer peeraddr t = (-1, peeraddr, t\<lparr>errno := EBADF\<rparr>)"
proof -
  let ?a = "splice_at (replicate sizeof_sockaddr_in6 0) 0 (take sizeof_sockaddr peer) :: sockaddr"
  from assms(1) have a: "?a = take 16 peer @ replicate 12 0" "length peer = 28"
    by (simp_all add: splice_at_def storage_def sizeof_sockaddr_def sizeof_sockaddr_in6_def)
  have low: "window r w ?a = window r w peer" if "w \<le> 16" for r w
    using that a by (simp add: window_def take_drop min_def)
  have high: "window 8 24 ?a = take 8 (window 8 24 peer) @ replicate 8 0"
    using a by (simp add: window_def drop_take)
  have "Socket_accept (Inr (fd, fl)) peer peeraddr t =
    (fd, ?a, t\<lparr>status_flags := (status_flags t)(fd \<mapsto> fl OR O_NONBLOCK),
       descriptor_flags := (descriptor_flags t)(fd \<mapsto> FD_CLOEXEC)\<rparr>)"
    using assms(2) by (simp add: Socket_accept_def sockets_accept_ok setSockAddrInet6_def)
  moreover have "Socket_accept (Inl e) peer peeraddr t = (-1, peeraddr, t\<lparr>errno := EBADF\<rparr>)"
    by (simp add: Socket_accept_def sockets_accept_failed)
  moreover have "family host ?a = family host peer" "toPort host ?a = toPort host peer"
    "sin_addr ?a = sin_addr peer" "sin6_addr ?a = take 8 (sin6_addr peer) @ replicate 8 0"
    unfolding family_def toPort_def sa_family_def sin_port_def sin_addr_def sin6_addr_def
    by (simp_all add: low high)
  moreover have "storage ?a" using a by (simp add: storage_def sizeof_sockaddr_in6_def)
  ultimately show ?thesis by simp
qed

definition sample_fds :: fd_table where
  "sample_fds = \<lparr>status_flags = Map.empty, descriptor_flags = Map.empty, errno = 0\<rparr>"

text \<open>The peer 2001:db8::1, port 443.\<close>

definition sample_peer6 :: sockaddr where
  "sample_peer6 = [10, 0, 1, 187, 0, 0, 0, 0, 0x20, 0x01, 0x0d, 0xb8, 0, 0, 0, 0, 0, 0, 0, 0, 0, 0, 0, 1, 0, 0, 0, 0]"

lemma sample_peer6:
  "storage sample_peer6" "take 8 (sin6_addr sample_peer6) @ replicate 8 0 = [0x20, 0x01, 0x0d, 0xb8] @ replicate 12 0"
  by (simp_all add: sample_peer6_def storage_def sizeof_sockaddr_in6_def sin6_addr_def window_def numeral_eq_Suc)

theorem accept_results_witness:
  "(case Socket_accept (Inr (8, 2)) sample_peer6 [] sample_fds of (connfd, a, t) \<Rightarrow>
     connfd = 8 \<and> sin6_addr a = [0x20, 0x01, 0x0d, 0xb8] @ replicate 12 0) \<and>
   Socket_accept (Inl EMFILE) sample_peer6 [] sample_fds = (-1, [], sample_fds\<lparr>errno := EBADF\<rparr>)"
  using accept_results [where peer = sample_peer6 and fd = 8 and fl = 2 and peeraddr = "[]" and t = sample_fds
      and e = EMFILE, OF sample_peer6(1)]
  by (auto simp only: sample_peer6(2) split: prod.splits)

end
