(* ===== verification/Buffer.thy ===== *)
theory Buffer
  imports Endian "HOL-Library.Sublist"
begin

text \<open>
  The class \<^verbatim>\<open>Buffer\<close> (include/Buffer.h, src/Buffer.cpp): a growable byte array with a reader and
  a writer index, the input and output queue of every connection.

  \<^item> The state is the record \<open>buffer\<close> with the three members of the class; the indices are
    \<open>size_t\<close> words, so every addition and subtraction of the code wraps as it does there.
  \<^item> A \<^verbatim>\<open>const char*\<close> into the buffer is its offset from \<^verbatim>\<open>begin()\<close>; \<^verbatim>\<open>NULL\<close> is \<open>None\<close>.
  \<^item> \<open>std::vector<char>\<close> is a byte list; \<open>vector_resize\<close> throws above \<open>max_size()\<close>.
  \<^item> \<open>buf_inv\<close> is the class invariant and \<open>contents\<close> the abstract value: the queue of readable
    bytes. The locale \<open>byte_queue\<close> states what clients rely on, and it is interpreted on the
    operations of this theory.
\<close>

section \<open>State\<close>

record buffer =
  M_buffer :: "byte list"
  M_readerIndex :: size_t
  M_writerIndex :: size_t

definition kCheapPrepend :: size_t where "kCheapPrepend = 8"

definition kInitialSize :: size_t where "kInitialSize = 1024"

definition kCRLF :: "byte list" where "kCRLF = [13, 10]"

text \<open>\<open>max_size()\<close> of a vector of char: the largest pointer difference.\<close>

definition max_size :: nat where "max_size = 9223372036854775807"

definition vector_size :: "byte list \<Rightarrow> size_t" where
  "vector_size v = word_of_nat (length v)"

definition vector_resize :: "size_t \<Rightarrow> byte list \<Rightarrow> byte list res" where
  "vector_resize n v =
     (if max_size < unat n then Inl LengthError
      else Inr (take (unat n) v @ replicate (unat n - length v) 0))"

section \<open>Observers\<close>

definition readableBytes :: "buffer \<Rightarrow> size_t" where
  "readableBytes b = M_writerIndex b - M_readerIndex b"

definition writableBytes :: "buffer \<Rightarrow> size_t" where
  "writableBytes b = vector_size (M_buffer b) - M_writerIndex b"

definition prependableBytes :: "buffer \<Rightarrow> size_t" where
  "prependableBytes b = M_readerIndex b"

definition peek :: "buffer \<Rightarrow> size_t" where
  "peek b = M_readerIndex b"

definition beginWrite :: "buffer \<Rightarrow> size_t" where
  "beginWrite b = M_writerIndex b"

text \<open>The bytes of the range \<open>[from, to)\<close>, given as offsets.\<close>

definition bytes_between :: "size_t \<Rightarrow> size_t \<Rightarrow> buffer \<Rightarrow> byte list" where
  "bytes_between from to b = window (unat from) (unat to) (M_buffer b)"

section \<open>Construction\<close>

definition new_Buffer :: "size_t \<Rightarrow> buffer res" where
  "new_Buffer initialSize =
     bindr (vector_resize (kCheapPrepend + initialSize) []) (\<lambda>v.
     let b = \<lparr>M_buffer = v, M_readerIndex = kCheapPrepend, M_writerIndex = kCheapPrepend\<rparr> in
     assertr (readableBytes b = 0) ''readableBytes() == 0'' (
     assertr (writableBytes b = initialSize) ''writableBytes() == initialSize'' (
     assertr (prependableBytes b = kCheapPrepend) ''prependableBytes() == kCheapPrepend'' (
     Inr b))))"

definition swap_buf :: "buffer \<Rightarrow> buffer \<Rightarrow> buffer \<times> buffer" where
  "swap_buf b rhs = (rhs, b)"

section \<open>Searching\<close>

text \<open>\<^verbatim>\<open>std::search\<close>: the offset of the first occurrence of the pattern, the length if there is none.\<close>

fun std_search :: "byte list \<Rightarrow> byte list \<Rightarrow> nat" where
  "std_search pat [] = 0"
| "std_search pat (x # xs) = (if prefix pat (x # xs) then 0 else Suc (std_search pat xs))"

text \<open>\<^verbatim>\<open>memchr\<close>: the offset of the first occurrence of the byte.\<close>

fun memchr :: "byte \<Rightarrow> byte list \<Rightarrow> nat option" where
  "memchr c [] = None"
| "memchr c (x # xs) = (if x = c then Some 0 else map_option Suc (memchr c xs))"

definition findCRLF_from :: "size_t \<Rightarrow> buffer \<Rightarrow> size_t option res" where
  "findCRLF_from start b =
     assertr (peek b \<le> start) ''peek() <= start'' (
     assertr (start \<le> beginWrite b) ''start <= beginWrite()'' (
     let crlf = start + word_of_nat (std_search kCRLF (bytes_between start (beginWrite b) b)) in
     Inr (if crlf = beginWrite b then None else Some crlf)))"

definition findCRLF :: "buffer \<Rightarrow> size_t option" where
  "findCRLF b =
     (let crlf = peek b + word_of_nat (std_search kCRLF (bytes_between (peek b) (beginWrite b) b)) in
      if crlf = beginWrite b then None else Some crlf)"

definition findEOL :: "buffer \<Rightarrow> size_t option" where
  "findEOL b =
     map_option (\<lambda>i. peek b + word_of_nat i)
       (memchr 10 (window (unat (peek b)) (unat (peek b) + unat (readableBytes b)) (M_buffer b)))"

definition findEOL_from :: "size_t \<Rightarrow> buffer \<Rightarrow> size_t option res" where
  "findEOL_from start b =
     assertr (peek b \<le> start) ''peek() <= start'' (
     assertr (start \<le> beginWrite b) ''start <= beginWrite()'' (
     Inr (map_option (\<lambda>i. start + word_of_nat i) (memchr 10 (bytes_between start (beginWrite b) b)))))"

section \<open>Retrieving\<close>

definition retrieveAll :: "buffer \<Rightarrow> buffer" where
  "retrieveAll b = b\<lparr>M_readerIndex := kCheapPrepend, M_writerIndex := kCheapPrepend\<rparr>"

definition retrieve :: "size_t \<Rightarrow> buffer \<Rightarrow> buffer res" where
  "retrieve len b =
     assertr (len \<le> readableBytes b) ''len <= readableBytes()'' (
     if len < readableBytes b then Inr (b\<lparr>M_readerIndex := M_readerIndex b + len\<rparr>)
     else Inr (retrieveAll b))"

definition retrieveUntil :: "size_t \<Rightarrow> buffer \<Rightarrow> buffer res" where
  "retrieveUntil end b =
     assertr (peek b \<le> end) ''peek() <= end'' (
     assertr (end \<le> beginWrite b) ''end <= beginWrite()'' (
     retrieve (end - peek b) b))"

definition retrieveInt64 :: "buffer \<Rightarrow> buffer res" where "retrieveInt64 b = retrieve 8 b"

definition retrieveInt32 :: "buffer \<Rightarrow> buffer res" where "retrieveInt32 b = retrieve 4 b"

definition retrieveInt16 :: "buffer \<Rightarrow> buffer res" where "retrieveInt16 b = retrieve 2 b"

definition retrieveInt8 :: "buffer \<Rightarrow> buffer res" where "retrieveInt8 b = retrieve 1 b"

definition retrieveAsString :: "size_t \<Rightarrow> buffer \<Rightarrow> (byte list \<times> buffer) res" where
  "retrieveAsString len b =
     assertr (len \<le> readableBytes b) ''len <= readableBytes()'' (
     let result = window (unat (peek b)) (unat (peek b) + unat len) (M_buffer b) in
     bindr (retrieve len b) (\<lambda>b'. Inr (result, b')))"

text \<open>A string piece: the bytes its pointer addresses and its \<^verbatim>\<open>int\<close> length.\<close>

definition toStringPiece :: "buffer \<Rightarrow> byte list \<times> int32" where
  "toStringPiece b = (drop (unat (peek b)) (M_buffer b), ucast (readableBytes b))"

section \<open>Writing\<close>

definition makeSpace :: "size_t \<Rightarrow> buffer \<Rightarrow> buffer res" where
  "makeSpace len b =
     (if writableBytes b + prependableBytes b < len + kCheapPrepend then
        bindr (vector_resize (M_writerIndex b + len) (M_buffer b)) (\<lambda>v. Inr (b\<lparr>M_buffer := v\<rparr>))
      else
        assertr (kCheapPrepend < M_readerIndex b) ''kCheapPrepend < M_readerIndex'' (
        let readable = readableBytes b;
            v = splice_at (M_buffer b) (unat kCheapPrepend)
                  (bytes_between (M_readerIndex b) (M_writerIndex b) b);
            b' = b\<lparr>M_buffer := v, M_readerIndex := kCheapPrepend,
                    M_writerIndex := kCheapPrepend + readable\<rparr> in
        assertr (readable = readableBytes b') ''readable == readableBytes()'' (Inr b')))"

definition ensureWritableBytes :: "size_t \<Rightarrow> buffer \<Rightarrow> buffer res" where
  "ensureWritableBytes len b =
     bindr (if writableBytes b < len then makeSpace len b else Inr b) (\<lambda>b'.
     assertr (len \<le> writableBytes b') ''writableBytes() >= len'' (Inr b'))"

definition hasWritten :: "size_t \<Rightarrow> buffer \<Rightarrow> buffer res" where
  "hasWritten len b =
     assertr (len \<le> writableBytes b) ''len <= writableBytes()'' (
     Inr (b\<lparr>M_writerIndex := M_writerIndex b + len\<rparr>))"

definition unwrite :: "size_t \<Rightarrow> buffer \<Rightarrow> buffer res" where
  "unwrite len b =
     assertr (len \<le> readableBytes b) ''len <= readableBytes()'' (
     Inr (b\<lparr>M_writerIndex := M_writerIndex b - len\<rparr>))"

text \<open>
  \<^verbatim>\<open>append(data, len)\<close>. \<open>data\<close> is the memory behind the pointer; reading past its end is a fault.
\<close>

definition append_buf :: "byte list \<Rightarrow> size_t \<Rightarrow> buffer \<Rightarrow> buffer res" where
  "append_buf data len b =
     bindr (ensureWritableBytes len b) (\<lambda>b'.
     if length data < unat len then Inl (DanglingPointer ''data+len'')
     else hasWritten len
            (b'\<lparr>M_buffer := splice_at (M_buffer b') (unat (beginWrite b')) (take (unat len) data)\<rparr>))"

definition append_StringPiece :: "byte list \<times> int32 \<Rightarrow> buffer \<Rightarrow> buffer res" where
  "append_StringPiece str b = append_buf (fst str) (scast (snd str)) b"

definition prepend :: "byte list \<Rightarrow> size_t \<Rightarrow> buffer \<Rightarrow> buffer res" where
  "prepend data len b =
     assertr (len \<le> prependableBytes b) ''len <= prependableBytes()'' (
     let r = M_readerIndex b - len in
     if length data < unat len then Inl (DanglingPointer ''d+len'')
     else Inr (b\<lparr>M_readerIndex := r,
                  M_buffer := splice_at (M_buffer b) (unat r) (take (unat len) data)\<rparr>))"

definition shrink :: "size_t \<Rightarrow> buffer \<Rightarrow> buffer res" where
  "shrink reserve b =
     bindr (new_Buffer kInitialSize) (\<lambda>other.
     bindr (ensureWritableBytes (readableBytes b + reserve) other) (\<lambda>other.
     bindr (append_StringPiece (toStringPiece b) other) (\<lambda>other.
     Inr (fst (swap_buf b other)))))"

section \<open>Integers in network byte order\<close>

definition appendInt64 :: "endian \<Rightarrow> int64 \<Rightarrow> buffer \<Rightarrow> buffer res" where
  "appendInt64 host x b =
     (let be64 = hostToNetwork64 host x in append_buf (obj_bytes host 8 (unat be64)) 8 b)"

definition appendInt32 :: "endian \<Rightarrow> int32 \<Rightarrow> buffer \<Rightarrow> buffer res" where
  "appendInt32 host x b =
     (let be32 = hostToNetwork32 host x in append_buf (obj_bytes host 4 (unat be32)) 4 b)"

text \<open>\<open>be16\<close> is declared \<^verbatim>\<open>int64_t\<close>: an object of eight bytes, of which two are appended.\<close>

definition appendInt16 :: "endian \<Rightarrow> int16 \<Rightarrow> buffer \<Rightarrow> buffer res" where
  "appendInt16 host x b =
     (let be16 = (ucast (hostToNetwork16 host x) :: int64) in
      append_buf (obj_bytes host 8 (unat be16)) 2 b)"

text \<open>\<^verbatim>\<open>hostToNetwork8\<close> is called but defined nowhere in the sources: a parameter.\<close>

definition appendInt8 :: "(byte \<Rightarrow> byte) \<Rightarrow> byte \<Rightarrow> buffer \<Rightarrow> buffer res" where
  "appendInt8 hostToNetwork8 x b = append_buf [hostToNetwork8 x] 1 b"

text \<open>\<open>memcpy\<close> of \<open>n\<close> bytes at \<^verbatim>\<open>peek()\<close> into an integer object.\<close>

definition load_peek :: "endian \<Rightarrow> nat \<Rightarrow> buffer \<Rightarrow> nat" where
  "load_peek host n b =
     obj_value host (window (unat (peek b)) (unat (peek b) + n) (M_buffer b))"

text \<open>The declared result type of \<^verbatim>\<open>peekInt64\<close> is \<^verbatim>\<open>int32_t\<close>.\<close>

definition peekInt64 :: "endian \<Rightarrow> buffer \<Rightarrow> int32 res" where
  "peekInt64 host b =
     assertr (8 \<le> readableBytes b) ''readableBytes() >= sizeof(int64_t)'' (
     let be64 = word_of_nat (load_peek host 8 b) in Inr (ucast (networkToHost64 host be64)))"

definition peekInt32 :: "endian \<Rightarrow> buffer \<Rightarrow> int32 res" where
  "peekInt32 host b =
     assertr (4 \<le> readableBytes b) ''readableBytes() >= sizeof(int32_t)'' (
     let be32 = word_of_nat (load_peek host 4 b) in Inr (networkToHost32 host be32))"

definition peekInt16 :: "endian \<Rightarrow> buffer \<Rightarrow> int16 res" where
  "peekInt16 host b =
     assertr (2 \<le> readableBytes b) ''readableBytes() >= sizeof(int16_t)'' (
     let be16 = word_of_nat (load_peek host 2 b) in Inr (networkToHost16 host be16))"

text \<open>The declared result type of \<^verbatim>\<open>peekInt8\<close> is \<^verbatim>\<open>int16_t\<close>.\<close>

definition peekInt8 :: "buffer \<Rightarrow> int16 res" where
  "peekInt8 b =
     assertr (1 \<le> readableBytes b) ''readableBytes() >= sizeof(int8_t)'' (
     Inr (scast (M_buffer b ! unat (peek b))))"

text \<open>The four read functions return \<^verbatim>\<open>int64_t\<close>, the sign-extended result of the peek.\<close>

definition readInt64 :: "endian \<Rightarrow> buffer \<Rightarrow> (int64 \<times> buffer) res" where
  "readInt64 host b =
     bindr (peekInt64 host b) (\<lambda>result. bindr (retrieveInt64 b) (\<lambda>b'. Inr (scast result, b')))"

definition readInt32 :: "endian \<Rightarrow> buffer \<Rightarrow> (int64 \<times> buffer) res" where
  "readInt32 host b =
     bindr (peekInt32 host b) (\<lambda>result. bindr (retrieveInt32 b) (\<lambda>b'. Inr (scast result, b')))"

definition readInt16 :: "endian \<Rightarrow> buffer \<Rightarrow> (int64 \<times> buffer) res" where
  "readInt16 host b =
     bindr (peekInt16 host b) (\<lambda>result. bindr (retrieveInt16 b) (\<lambda>b'. Inr (scast result, b')))"

definition readInt8 :: "buffer \<Rightarrow> (int64 \<times> buffer) res" where
  "readInt8 b =
     bindr (peekInt8 b) (\<lambda>result. bindr (retrieveInt8 b) (\<lambda>b'. Inr (scast result, b')))"

definition prependInt32 :: "endian \<Rightarrow> int32 \<Rightarrow> buffer \<Rightarrow> buffer res" where
  "prependInt32 host x b =
     (let be32 = hostToNetwork32 host x in prepend (obj_bytes host 4 (unat be32)) 4 b)"

text \<open>\<open>be16\<close> is declared \<^verbatim>\<open>int32_t\<close> and prepended with \<^verbatim>\<open>sizeof(be16)\<close>, four bytes.\<close>

definition prependInt16 :: "endian \<Rightarrow> int16 \<Rightarrow> buffer \<Rightarrow> buffer res" where
  "prependInt16 host x b =
     (let be16 = (ucast (hostToNetwork16 host x) :: int32) in
      prepend (obj_bytes host 4 (unat be16)) 4 b)"

definition prependInt8 :: "byte \<Rightarrow> buffer \<Rightarrow> buffer res" where
  "prependInt8 x b = prepend [x] 1 b"

section \<open>Reading from a descriptor\<close>

text \<open>
  \<open>readv fd lens\<close> is the system call \<^verbatim>\<open>readv\<close> on buffers of the given lengths: the errno of a
  failure, or the bytes read. \<^verbatim>\<open>readFd\<close> returns its result, the saved errno and the buffer.
\<close>

definition extrabuf_size :: size_t where "extrabuf_size = 65536"

definition readFd ::
  "(int \<Rightarrow> size_t list \<Rightarrow> int + byte list) \<Rightarrow> int \<Rightarrow> buffer \<Rightarrow> (int \<times> int option \<times> buffer) res" where
  "readFd readv fd b =
     (let writable = writableBytes b;
          iov = (if writable < extrabuf_size then [writable, extrabuf_size] else [writable]) in
      case readv fd iov of
        Inl errno \<Rightarrow> Inr (-1, Some errno, b)
      | Inr bytes \<Rightarrow>
          let n = length bytes;
              b' = b\<lparr>M_buffer := splice_at (M_buffer b) (unat (M_writerIndex b))
                                  (take (unat writable) bytes)\<rparr> in
          if (word_of_nat n :: size_t) \<le> writable then
            Inr (int n, None, b'\<lparr>M_writerIndex := M_writerIndex b + word_of_nat n\<rparr>)
          else
            bindr (append_buf (drop (unat writable) bytes) (word_of_nat n - writable)
                     (b'\<lparr>M_writerIndex := vector_size (M_buffer b')\<rparr>)) (\<lambda>b''.
            Inr (int n, None, b'')))"

section \<open>The class invariant and the abstract queue\<close>

definition buf_inv :: "buffer \<Rightarrow> bool" where
  "buf_inv b \<longleftrightarrow>
     unat (M_readerIndex b) \<le> unat (M_writerIndex b) \<and>
     unat (M_writerIndex b) \<le> length (M_buffer b) \<and>
     8 \<le> length (M_buffer b) \<and> length (M_buffer b) \<le> max_size"

definition contents :: "buffer \<Rightarrow> byte list" where
  "contents b = window (unat (M_readerIndex b)) (unat (M_writerIndex b)) (M_buffer b)"

lemma unat_kCheapPrepend [simp]: "unat kCheapPrepend = 8"
  by (simp add: kCheapPrepend_def)

lemma unat_vector_size [simp]: "length v \<le> max_size \<Longrightarrow> unat (vector_size v) = length v"
  by (simp add: vector_size_def max_size_def unat_simps)

lemma unat_readableBytes [simp]:
  "buf_inv b \<Longrightarrow> unat (readableBytes b) = unat (M_writerIndex b) - unat (M_readerIndex b)"
  by (simp add: buf_inv_def readableBytes_def unat_simps)

lemma unat_writableBytes [simp]:
  "buf_inv b \<Longrightarrow> unat (writableBytes b) = length (M_buffer b) - unat (M_writerIndex b)"
  by (simp add: buf_inv_def writableBytes_def unat_simps)

lemma length_contents:
  "buf_inv b \<Longrightarrow> length (contents b) = unat (M_writerIndex b) - unat (M_readerIndex b)"
  by (simp add: buf_inv_def contents_def)

lemma length_contents_readable: "buf_inv b \<Longrightarrow> length (contents b) = unat (readableBytes b)"
  by (simp add: length_contents)

lemma buf_invD:
  assumes "buf_inv b"
  shows "unat (M_readerIndex b) \<le> unat (M_writerIndex b)"
    "unat (M_writerIndex b) \<le> length (M_buffer b)"
    "8 \<le> length (M_buffer b)" "length (M_buffer b) \<le> 9223372036854775807"
  using assms by (simp_all add: buf_inv_def max_size_def)

subsection \<open>Construction and retrieval\<close>

lemma new_Buffer_ok:
  assumes "unat n + 8 \<le> max_size"
  shows "\<exists>b. new_Buffer n = Inr b \<and> buf_inv b \<and> contents b = [] \<and>
           M_readerIndex b = kCheapPrepend \<and> M_writerIndex b = kCheapPrepend \<and>
           length (M_buffer b) = unat n + 8"
proof -
  from assms have n: "unat (kCheapPrepend + n) = unat n + 8"
    by (simp add: max_size_def unat_simps)
  then have v: "vector_resize (kCheapPrepend + n) [] = Inr (replicate (unat n + 8) 0)"
    using assms by (simp add: vector_resize_def)
  have "(word_of_nat (unat n + 8) :: size_t) - kCheapPrepend = n"
    by (simp add: kCheapPrepend_def)
  then show ?thesis
    using assms
    by (simp add: new_Buffer_def v Let_def readableBytes_def writableBytes_def prependableBytes_def
        vector_size_def buf_inv_def contents_def)
qed

lemma retrieveAll_ok: "buf_inv b \<Longrightarrow> buf_inv (retrieveAll b) \<and> contents (retrieveAll b) = []"
  by (simp add: retrieveAll_def buf_inv_def contents_def)

lemma retrieve_ok:
  assumes inv: "buf_inv b" and len: "unat len \<le> length (contents b)"
  shows "\<exists>b'. retrieve len b = Inr b' \<and> buf_inv b' \<and> contents b' = drop (unat len) (contents b)"
proof (cases "len < readableBytes b")
  case True
  let ?b' = "b\<lparr>M_readerIndex := M_readerIndex b + len\<rparr>"
  from True inv have lt: "unat len < unat (M_writerIndex b) - unat (M_readerIndex b)"
    by (simp add: unat_simps)
  then have r: "unat (M_readerIndex b + len) = unat (M_readerIndex b) + unat len"
    using buf_invD [OF inv] by (simp add: unat_simps)
  then have "contents ?b' = drop (unat len) (contents b)"
    by (simp add: contents_def window_drop [of "unat (M_readerIndex b)" "unat (M_readerIndex b) + unat len"])
  moreover have "buf_inv ?b'"
    using inv lt r by (simp add: buf_inv_def)
  ultimately show ?thesis using True by (auto simp: retrieve_def)
next
  case False
  with inv len have "unat len = length (contents b)"
    by (simp add: unat_simps length_contents)
  then show ?thesis
    using False inv retrieveAll_ok [OF inv]
    by (simp add: retrieve_def unat_simps length_contents)
qed

lemma retrieve_fault:
  assumes "buf_inv b" and "length (contents b) < unat len"
  shows "retrieve len b = Inl (AssertFailed ''len <= readableBytes()'')"
  using assms by (simp add: retrieve_def assertr_def unat_simps length_contents)

lemma unwrite_ok:
  assumes inv: "buf_inv b" and len: "unat len \<le> length (contents b)"
  shows "\<exists>b'. unwrite len b = Inr b' \<and> buf_inv b' \<and>
           contents b' = take (length (contents b) - unat len) (contents b)"
proof -
  have w: "unat (M_writerIndex b - len) = unat (M_writerIndex b) - unat len"
    using len buf_invD [OF inv] by (simp add: unat_simps length_contents inv)
  have "len \<le> readableBytes b"
    using len inv by (simp add: unat_simps length_contents)
  moreover have "buf_inv (b\<lparr>M_writerIndex := M_writerIndex b - len\<rparr>)"
    using inv len w by (auto simp: buf_inv_def length_contents)
  moreover have "contents (b\<lparr>M_writerIndex := M_writerIndex b - len\<rparr>) =
      take (length (contents b) - unat len) (contents b)"
    using w window_take [of "unat (M_writerIndex b) - unat len" "unat (M_writerIndex b)"
        "unat (M_readerIndex b)" "M_buffer b"] buf_invD(2) [OF inv]
    by (simp add: length_contents [OF inv] contents_def add.commute)
  ultimately show ?thesis by (simp add: unwrite_def)
qed

subsection \<open>Making space, appending, prepending\<close>

text \<open>Growing the vector keeps the readable bytes.\<close>

lemma makeSpace_grow:
  assumes inv: "buf_inv b" and space: "unat (M_writerIndex b) + unat len \<le> max_size"
    and need: "length (M_buffer b) - unat (M_writerIndex b) < unat len"
    and small: "writableBytes b + prependableBytes b < len + kCheapPrepend"
  shows "\<exists>b'. makeSpace len b = Inr b' \<and> buf_inv b' \<and> contents b' = contents b \<and>
           M_writerIndex b' = M_writerIndex b \<and>
           length (M_buffer b') = unat (M_writerIndex b) + unat len"
proof -
  let ?n = "M_writerIndex b + len"
  let ?v = "take (unat ?n) (M_buffer b) @ replicate (unat ?n - length (M_buffer b)) 0"
  note i = buf_invD [OF inv]
  have n: "unat ?n = unat (M_writerIndex b) + unat len"
    using space by (simp add: max_size_def unat_simps)
  have v: "?v = M_buffer b @ replicate (unat ?n - length (M_buffer b)) 0"
    using n need by simp
  have "makeSpace len b = Inr (b\<lparr>M_buffer := ?v\<rparr>)"
    using small n space by (simp add: makeSpace_def vector_resize_def)
  moreover have "contents (b\<lparr>M_buffer := ?v\<rparr>) = contents b"
    unfolding v using i by (simp add: contents_def)
  moreover have "buf_inv (b\<lparr>M_buffer := ?v\<rparr>)"
    using i space n need by (simp add: buf_inv_def)
  moreover have "length ?v = unat (M_writerIndex b) + unat len"
    unfolding v using n need by simp
  ultimately show ?thesis by auto
qed

text \<open>
  Moving the readable bytes to the front keeps them: here the free space in front of the reader
  index is more than \<open>kCheapPrepend\<close>, so the assertion of the branch holds.
\<close>

lemma makeSpace_move:
  assumes inv: "buf_inv b" and len: "unat len \<le> max_size"
    and need: "length (M_buffer b) - unat (M_writerIndex b) < unat len"
    and large: "\<not> writableBytes b + prependableBytes b < len + kCheapPrepend"
  shows "\<exists>b'. makeSpace len b = Inr b' \<and> buf_inv b' \<and> contents b' = contents b \<and>
           unat (M_writerIndex b') \<le> unat (M_writerIndex b) \<and>
           unat (M_writerIndex b') + unat len \<le> length (M_buffer b')"
proof -
  note i = buf_invD [OF inv]
  let ?r = "unat (M_readerIndex b)" and ?w = "unat (M_writerIndex b)" and ?s = "length (M_buffer b)"
  let ?v = "splice_at (M_buffer b) 8 (contents b)"
  let ?b' = "b\<lparr>M_buffer := ?v, M_readerIndex := kCheapPrepend,
               M_writerIndex := kCheapPrepend + readableBytes b\<rparr>"
  have sum: "unat (writableBytes b + prependableBytes b) = (?s - ?w) + ?r"
    using i inv by (simp add: unat_simps prependableBytes_def)
  have len8: "unat (len + kCheapPrepend) = unat len + 8"
    using len by (simp add: unat_simps max_size_def)
  from large have fit: "unat len + 8 \<le> (?s - ?w) + ?r"
    unfolding word_less_nat_alt sum len8 by simp
  with need have r8: "8 < ?r" by simp
  have w': "unat (kCheapPrepend + readableBytes b) = 8 + (?w - ?r)"
    using i inv by (simp add: unat_simps)
  have lv: "length ?v = ?s"
    using i r8 inv by (simp add: length_contents)
  have c: "contents ?b' = contents b"
    using w' i r8 inv window_splice_same [of 8 "contents b" "M_buffer b"]
    by (simp add: contents_def [of ?b'] length_contents)
  have inv': "buf_inv ?b'"
    using i r8 w' lv by (auto simp: buf_inv_def max_size_def)
  have "makeSpace len b = Inr ?b'"
    using large r8 by (simp add: makeSpace_def bytes_between_def contents_def unat_simps Let_def
        readableBytes_def)
  moreover have "unat (M_writerIndex ?b') \<le> ?w"
    "unat (M_writerIndex ?b') + unat len \<le> length (M_buffer ?b')"
    using w' i r8 fit lv by simp_all
  ultimately show ?thesis using inv' c by blast
qed

text \<open>
  Reserving space either succeeds and keeps the queue, or throws because the vector would have to
  grow beyond \<open>max_size()\<close>; no assertion fails.
\<close>

definition reserved :: "size_t \<Rightarrow> buffer \<Rightarrow> buffer \<Rightarrow> bool" where
  "reserved len b b' \<longleftrightarrow> buf_inv b' \<and> contents b' = contents b \<and>
     unat (M_writerIndex b') \<le> unat (M_writerIndex b) \<and>
     unat (M_writerIndex b') + unat len \<le> length (M_buffer b')"

lemma makeSpace_cases:
  assumes inv: "buf_inv b" and len: "unat len \<le> max_size"
    and need: "length (M_buffer b) - unat (M_writerIndex b) < unat len"
  shows "(\<exists>b'. makeSpace len b = Inr b' \<and> reserved len b b') \<or>
         makeSpace len b = Inl LengthError \<and> max_size < unat (M_writerIndex b) + unat len"
proof (cases "writableBytes b + prependableBytes b < len + kCheapPrepend")
  case grow: True
  show ?thesis
  proof (cases "unat (M_writerIndex b) + unat len \<le> max_size")
    case True
    from makeSpace_grow [OF inv this need grow] show ?thesis
      by (auto simp: reserved_def)
  next
    case False
    then have "unat (M_writerIndex b + len) = unat (M_writerIndex b) + unat len"
      using len buf_invD [OF inv] by (simp add: unat_simps max_size_def)
    with False grow show ?thesis
      by (simp add: makeSpace_def vector_resize_def)
  qed
next
  case False
  from makeSpace_move [OF inv len need this] show ?thesis
    by (auto simp: reserved_def)
qed

lemma ensureWritableBytes_cases:
  assumes inv: "buf_inv b" and len: "unat len \<le> max_size"
  shows "(\<exists>b'. ensureWritableBytes len b = Inr b' \<and> reserved len b b') \<or>
         ensureWritableBytes len b = Inl LengthError \<and> max_size < unat (M_writerIndex b) + unat len"
proof (cases "writableBytes b < len")
  case True
  then have need: "length (M_buffer b) - unat (M_writerIndex b) < unat len"
    using inv by (simp add: unat_simps)
  have "len \<le> writableBytes b'" if "reserved len b b'" for b'
    using that by (auto simp: reserved_def unat_simps)
  with True makeSpace_cases [OF inv len need] show ?thesis
    by (auto simp: ensureWritableBytes_def)
next
  case False
  then show ?thesis using inv buf_invD [OF inv]
    by (simp add: ensureWritableBytes_def reserved_def unat_simps)
qed

text \<open>Writing \<open>data\<close> behind the writer index, where it fits, appends it to the queue.\<close>

lemma write_at_end:
  assumes inv: "buf_inv b" and fit: "unat (M_writerIndex b) + length data \<le> length (M_buffer b)"
  defines "v \<equiv> splice_at (M_buffer b) (unat (M_writerIndex b)) data"
  defines "b' \<equiv> b\<lparr>M_buffer := v, M_writerIndex := M_writerIndex b + word_of_nat (length data)\<rparr>"
  shows "buf_inv b'" "contents b' = contents b @ data"
    "unat (M_writerIndex b') = unat (M_writerIndex b) + length data"
    "length (M_buffer b') = length (M_buffer b)"
proof -
  note i = buf_invD [OF inv]
  let ?r = "unat (M_readerIndex b)" and ?w = "unat (M_writerIndex b)"
  have w': "unat (M_writerIndex b + word_of_nat (length data)) = ?w + length data"
    using fit i by (simp add: unat_simps)
  then show "unat (M_writerIndex b') = ?w + length data" by (simp add: b'_def)
  have "window ?r (?w + length data) v = window ?r ?w v @ window ?w (?w + length data) v"
    using i by (intro window_append) simp_all
  also have "\<dots> = contents b @ data"
    using fit by (simp add: v_def window_splice_before contents_def)
  finally show "contents b' = contents b @ data"
    using w' by (simp add: contents_def b'_def)
  show "length (M_buffer b') = length (M_buffer b)"
    using fit by (simp add: b'_def v_def)
  then show "buf_inv b'"
    using i w' fit by (simp add: buf_inv_def b'_def max_size_def)
qed

text \<open>Appending adds exactly the given bytes at the end of the queue, or throws \<open>length_error\<close>.\<close>

lemma append_buf_cases:
  assumes inv: "buf_inv b" and data: "unat len \<le> length data" and len: "unat len \<le> max_size"
  shows "(\<exists>b'. append_buf data len b = Inr b' \<and> buf_inv b' \<and>
            contents b' = contents b @ take (unat len) data \<and>
            unat (M_writerIndex b') \<le> unat (M_writerIndex b) + unat len) \<or>
         append_buf data len b = Inl LengthError \<and> max_size < unat (M_writerIndex b) + unat len"
  using ensureWritableBytes_cases [OF inv len]
proof (elim disjE exE conjE)
  fix c assume c: "ensureWritableBytes len b = Inr c" and "reserved len b c"
  then have r: "buf_inv c" "contents c = contents b" "unat (M_writerIndex c) \<le> unat (M_writerIndex b)"
    "unat (M_writerIndex c) + unat len \<le> length (M_buffer c)"
    by (simp_all add: reserved_def)
  let ?d = "take (unat len) data"
  let ?b' = "c\<lparr>M_buffer := splice_at (M_buffer c) (unat (M_writerIndex c)) ?d,
               M_writerIndex := M_writerIndex c + word_of_nat (length ?d)\<rparr>"
  have l: "length ?d = unat len" using data by simp
  note w = write_at_end [OF r(1), of ?d, unfolded l, OF r(4)]
  have "len \<le> writableBytes (c\<lparr>M_buffer := splice_at (M_buffer c) (unat (M_writerIndex c)) ?d\<rparr>)"
    using r l buf_invD [OF r(1)]
    by (simp add: writableBytes_def unat_simps max_size_def)
  then have "append_buf data len b = Inr ?b'"
    using c data l by (simp add: append_buf_def hasWritten_def beginWrite_def)
  then show ?thesis using w r l by auto
qed (simp add: append_buf_def)

lemma append_buf_ok:
  assumes "buf_inv b" and "unat len \<le> length data"
    and "unat (M_writerIndex b) + unat len \<le> max_size"
  shows "\<exists>b'. append_buf data len b = Inr b' \<and> buf_inv b' \<and>
           contents b' = contents b @ take (unat len) data \<and>
           unat (M_writerIndex b') \<le> unat (M_writerIndex b) + unat len"
  using append_buf_cases [OF assms(1,2)] assms(3) by auto

lemma prepend_ok:
  assumes inv: "buf_inv b" and data: "unat len \<le> length data"
    and space: "unat len \<le> unat (M_readerIndex b)"
  shows "\<exists>b'. prepend data len b = Inr b' \<and> buf_inv b' \<and>
           contents b' = take (unat len) data @ contents b \<and> M_writerIndex b' = M_writerIndex b"
proof -
  note i = buf_invD [OF inv]
  let ?r = "unat (M_readerIndex b)" and ?w = "unat (M_writerIndex b)"
  let ?d = "take (unat len) data"
  let ?v = "splice_at (M_buffer b) (?r - unat len) ?d"
  let ?b' = "b\<lparr>M_readerIndex := M_readerIndex b - len, M_buffer := ?v\<rparr>"
  have l: "length ?d = unat len" using data by simp
  have r': "unat (M_readerIndex b - len) = ?r - unat len" using space by (simp add: unat_simps)
  have fit: "?r - unat len + length ?d \<le> length (M_buffer b)" using space i l by simp
  have "window (?r - unat len) ?w ?v = window (?r - unat len) ?r ?v @ window ?r ?w ?v"
    using i by (intro window_append) simp_all
  also have "window (?r - unat len) ?r ?v = ?d"
    using window_splice_same [OF fit] space l by simp
  also have "window ?r ?w ?v = contents b"
    using fit space l by (simp add: window_splice_after contents_def)
  finally have "contents ?b' = ?d @ contents b" using r' by (simp add: contents_def)
  moreover have "buf_inv ?b'" using i r' fit l by (simp add: buf_inv_def max_size_def)
  moreover have "prepend data len b = Inr ?b'"
    using space data r' by (simp add: prepend_def prependableBytes_def unat_simps Let_def)
  ultimately show ?thesis by auto
qed

subsection \<open>Integers\<close>

lemma unat_scast_small [simp]: "unat (8 :: size_t) = 8" "unat (4 :: size_t) = 4" "unat (2 :: size_t) = 2"
  "unat (1 :: size_t) = 1"
  by simp_all

text \<open>The bytes at \<^verbatim>\<open>peek()\<close> are the first readable bytes.\<close>

lemma peek_window:
  assumes "buf_inv b" and "n \<le> length (contents b)"
  shows "window (unat (peek b)) (unat (peek b) + n) (M_buffer b) = take n (contents b)"
  using assms window_take [of "unat (M_readerIndex b) + n" "unat (M_writerIndex b)"
      "unat (M_readerIndex b)" "M_buffer b"] buf_invD [OF assms(1)]
  by (simp add: contents_def peek_def)

lemma load_peek_be:
  assumes "buf_inv b" and "contents b = be_bytes n v @ rest" and "v < 256 ^ n"
  shows "htobe host n (load_peek host n b) = v" "load_peek host n b < 256 ^ n"
proof -
  have l: "load_peek host n b = obj_value host (be_bytes n v)"
    using assms peek_window [OF assms(1), of n] by (simp add: load_peek_def)
  then show "htobe host n (load_peek host n b) = v"
    using assms(3) by (simp add: htobe_obj_value_be_bytes)
  have "obj_value host (be_bytes n v) < 256 ^ n"
    using le_value_bound [of "be_bytes n v"] le_value_bound [of "rev (be_bytes n v)"]
    by (simp add: obj_value_def split: endian.split)
  then show "load_peek host n b < 256 ^ n" by (simp add: l)
qed

lemma length_contents_le_readable:
  "buf_inv b \<Longrightarrow> unat n \<le> length (contents b) \<Longrightarrow> n \<le> readableBytes b"
  by (simp add: length_contents unat_simps)

lemma peekInt32_ok:
  assumes "buf_inv b" and "contents b = be_bytes 4 (unat x) @ rest"
  shows "peekInt32 host b = Inr x"
  using load_peek_be [OF assms unat_bound_bytes(2)] assms
    length_contents_le_readable [of b 4]
  by (simp add: peekInt32_def networkToHost32_def unat_of_nat)

lemma peekInt16_ok:
  assumes "buf_inv b" and "contents b = be_bytes 2 (unat x) @ rest"
  shows "peekInt16 host b = Inr x"
  using load_peek_be [OF assms unat_bound_bytes(3)] assms
    length_contents_le_readable [of b 2]
  by (simp add: peekInt16_def networkToHost16_def unat_of_nat)

lemma peekInt64_ok:
  fixes x :: int64
  assumes "buf_inv b" and "contents b = be_bytes 8 (unat x) @ rest"
  shows "peekInt64 host b = Inr (ucast x)"
  using load_peek_be [OF assms unat_bound_bytes(1)] assms
    length_contents_le_readable [of b 8]
  by (simp add: peekInt64_def networkToHost64_def unat_of_nat)

text \<open>What the append and prepend functions add, as bytes.\<close>

lemma appendInt64_eq: "appendInt64 host x b = append_buf (be_bytes 8 (unat x)) 8 b"
  by (simp add: appendInt64_def obj_bytes_htobe)

lemma appendInt32_eq: "appendInt32 host x b = append_buf (be_bytes 4 (unat x)) 4 b"
  by (simp add: appendInt32_def obj_bytes_htobe)

lemma prependInt32_eq: "prependInt32 host x b = prepend (be_bytes 4 (unat x)) 4 b"
  by (simp add: prependInt32_def obj_bytes_htobe)

lemma le_bytes_add: "v < 256 ^ n \<Longrightarrow> le_bytes (n + m) v = le_bytes n v @ replicate m 0"
proof (induction n arbitrary: v)
  case 0
  then have "v = 0" by simp
  then show ?case by (induction m) simp_all
next
  case (Suc n)
  then have "v div 256 < 256 ^ n" by (simp add: less_mult_imp_div_less mult.commute)
  with Suc show ?case by simp
qed

lemma replicate_2: "replicate 2 x = [x, x]"
  by (simp add: numeral_2_eq_2)

text \<open>The object of a 16-bit value converted to \<open>n + 2\<close> bytes.\<close>

lemma obj_bytes_wide16:
  "obj_bytes LittleEndian (2 + m) (htobe LittleEndian 2 (unat (x :: int16))) =
     be_bytes 2 (unat x) @ replicate m 0"
  "obj_bytes BigEndian (2 + m) (htobe BigEndian 2 (unat x)) = replicate m 0 @ be_bytes 2 (unat x)"
proof -
  have "le_bytes (2 + m) (htobe LittleEndian 2 (unat x)) =
      le_bytes 2 (htobe LittleEndian 2 (unat x)) @ replicate m 0"
    by (rule le_bytes_add) (rule htobe_bound, rule unat_bound_bytes)
  then show "obj_bytes LittleEndian (2 + m) (htobe LittleEndian 2 (unat x)) =
      be_bytes 2 (unat x) @ replicate m 0"
    using obj_bytes_htobe [of LittleEndian 2 "unat x"] by (simp add: obj_bytes_def)
  show "obj_bytes BigEndian (2 + m) (htobe BigEndian 2 (unat x)) = replicate m 0 @ be_bytes 2 (unat x)"
    using le_bytes_add [of "unat x" 2 m] unat_bound_bytes(3) [of x]
    by (simp add: obj_bytes_def htobe_def be_bytes_def)
qed

lemma unat_ucast_hostToNetwork16:
  "unat (ucast (hostToNetwork16 host x) :: int64) = htobe host 2 (unat x)"
  "unat (ucast (hostToNetwork16 host x) :: int32) = htobe host 2 (unat x)"
  using htobe_bound [of "unat x" 2 host] unat_bound_bytes(3) [of x]
  by (simp_all add: unsigned_ucast_eq take_bit_nat_eq_self)

subsection \<open>Searching\<close>

lemma std_search_append:
  assumes "\<not> sublist pat (xs @ butlast pat)" and "pat \<noteq> []"
  shows "std_search pat (xs @ pat @ ys) = length xs"
  using assms(1)
proof (induction xs)
  case Nil
  with assms(2) show ?case by (cases pat) simp_all
next
  case (Cons x xs)
  have "\<not> prefix pat (x # xs @ pat @ ys)"
  proof
    assume pre: "prefix pat (x # xs @ pat @ ys)"
    have "pat = butlast pat @ [last pat]" using assms(2) by simp
    then have "x # xs @ pat @ ys = ((x # xs) @ butlast pat) @ (last pat # ys)"
      by (metis append.assoc append_Cons append_Nil)
    moreover have "length pat \<le> length ((x # xs) @ butlast pat)"
      using assms(2) by simp
    ultimately have "prefix pat ((x # xs) @ butlast pat)"
      using pre by (metis prefix_length_prefix prefixI)
    then show False using Cons.prems by (simp add: prefix_imp_sublist)
  qed
  moreover have "\<not> sublist pat (xs @ butlast pat)"
    using Cons.prems by (simp add: sublist_Cons_right)
  ultimately show ?case using Cons.IH by simp
qed

lemma std_search_none: "\<not> sublist pat xs \<Longrightarrow> std_search pat xs = length xs"
  by (induction xs) (auto simp: sublist_Cons_right)

subsection \<open>Reading from a descriptor\<close>

text \<open>
  The contract of \<^verbatim>\<open>readv(2)\<close>: it never returns more bytes than the buffers it is given hold.
\<close>

definition readv_bounded :: "(int \<Rightarrow> size_t list \<Rightarrow> int + byte list) \<Rightarrow> bool" where
  "readv_bounded readv \<longleftrightarrow>
     (\<forall>fd lens bytes. readv fd lens = Inr bytes \<longrightarrow> length bytes \<le> sum_list (map unat lens))"

lemma readFd_cases:
  assumes inv: "buf_inv b" and rv: "readv_bounded readv"
    and call: "readv fd (if writableBytes b < extrabuf_size then [writableBytes b, extrabuf_size]
                 else [writableBytes b]) = Inr bytes"
  shows "(\<exists>b'. readFd readv fd b = Inr (int (length bytes), None, b') \<and> buf_inv b' \<and>
            contents b' = contents b @ bytes) \<or>
         readFd readv fd b = Inl LengthError \<and> max_size < length (M_buffer b) + 65536"
proof -
  note i = buf_invD [OF inv]
  let ?s = "length (M_buffer b)" and ?w = "unat (M_writerIndex b)"
  have ext: "unat extrabuf_size = 65536" by (simp add: extrabuf_size_def)
  have wr: "unat (writableBytes b) = ?s - ?w" using inv by simp
  have "length bytes \<le> sum_list (map unat (if writableBytes b < extrabuf_size
          then [writableBytes b, extrabuf_size] else [writableBytes b]))"
    using rv call unfolding readv_bounded_def by blast
  then have len: "length bytes \<le> (?s - ?w) + 65536"
    using wr ext by (simp split: if_splits)
  then have lw: "unat (word_of_nat (length bytes) :: size_t) = length bytes"
    using i by (simp add: unat_simps max_size_def)
  show ?thesis
  proof (cases "length bytes \<le> ?s - ?w")
    case True
    then have fit: "?w + length bytes \<le> ?s" using i by simp
    then show ?thesis
      using call True lw wr write_at_end [OF inv fit]
      by (simp add: readFd_def Let_def word_le_nat_alt)
  next
    case False
    let ?t = "take (?s - ?w) bytes"
    have fit: "?w + length ?t \<le> ?s" using False i by simp
    let ?c = "b\<lparr>M_buffer := splice_at (M_buffer b) ?w ?t,
                M_writerIndex := M_writerIndex b + word_of_nat (length ?t)\<rparr>"
    note c = write_at_end [OF inv fit]
    have wc: "M_writerIndex b + word_of_nat (length ?t) = vector_size (splice_at (M_buffer b) ?w ?t)"
      using False i fit c(3,4) by (simp add: word_unat_eq_iff max_size_def)
    let ?l = "word_of_nat (length bytes) - writableBytes b"
    have l: "unat ?l = length bytes - (?s - ?w)"
      using False lw wr by (simp add: unat_simps)
    have read: "readFd readv fd b = bindr (append_buf (drop (?s - ?w) bytes) ?l ?c) (\<lambda>b'.
        Inr (int (length bytes), None, b'))"
      using call False lw wr wc by (simp add: readFd_def Let_def word_le_nat_alt)
    have "unat ?l \<le> max_size" using l len by (simp add: max_size_def)
    from append_buf_cases [OF c(1) _ this, of "drop (?s - ?w) bytes"] l
    consider b' where "append_buf (drop (?s - ?w) bytes) ?l ?c = Inr b'" "buf_inv b'"
        "contents b' = contents ?c @ take (unat ?l) (drop (?s - ?w) bytes)"
      | "append_buf (drop (?s - ?w) bytes) ?l ?c = Inl LengthError"
        "max_size < unat (M_writerIndex ?c) + unat ?l" by auto
    then show ?thesis
    proof cases
      case (1 b')
      then have "contents b' = contents b @ bytes" using c(2) l by simp
      with 1 show ?thesis by (simp add: read)
    next
      case 2
      moreover have "unat (M_writerIndex ?c) \<le> ?s" using c(3) fit by simp
      ultimately show ?thesis using l len by (simp add: read)
    qed
  qed
qed

lemma readFd_data:
  assumes "buf_inv b" and "length (M_buffer b) + 65536 \<le> max_size" and "readv_bounded readv"
    and "readv fd (if writableBytes b < extrabuf_size then [writableBytes b, extrabuf_size]
           else [writableBytes b]) = Inr bytes"
  shows "\<exists>b'. readFd readv fd b = Inr (int (length bytes), None, b') \<and> buf_inv b' \<and>
           contents b' = contents b @ bytes"
  using readFd_cases [OF assms(1,3,4)] assms(2) by auto

text \<open>What a call that returns did.\<close>

lemma readFd_returns:
  assumes "buf_inv b" and "readv_bounded readv" and "readFd readv fd b = Inr (n, e, b')"
  shows "buf_inv b' \<and> (n = -1 \<and> b' = b \<or> (\<exists>bytes. n = int (length bytes) \<and> contents b' = contents b @ bytes))"
proof (cases "readv fd (if writableBytes b < extrabuf_size then [writableBytes b, extrabuf_size]
    else [writableBytes b])")
  case (Inl err)
  with assms show ?thesis by (simp add: readFd_def Let_def)
next
  case (Inr bytes)
  from readFd_cases [OF assms(1,2) Inr] assms(3) show ?thesis by auto
qed

section \<open>The queue interface\<close>

text \<open>
  What the owner of a buffer relies on: appending adds at the back, retrieving removes at the
  front, clearing empties; \<open>used\<close> bounds how much an append may need.
\<close>

locale byte_queue =
  fixes inv :: "'b \<Rightarrow> bool"
    and content :: "'b \<Rightarrow> byte list"
    and used :: "'b \<Rightarrow> nat"
    and limit :: nat
    and put :: "byte list \<Rightarrow> 'b \<Rightarrow> 'b res"
    and get :: "size_t \<Rightarrow> 'b \<Rightarrow> 'b res"
    and clear :: "'b \<Rightarrow> 'b"
  assumes put_ok: "inv b \<Longrightarrow> used b + length d \<le> limit \<Longrightarrow>
      \<exists>b'. put d b = Inr b' \<and> inv b' \<and> content b' = content b @ d \<and> used b' \<le> used b + length d"
    and get_ok: "inv b \<Longrightarrow> unat n \<le> length (content b) \<Longrightarrow>
      \<exists>b'. get n b = Inr b' \<and> inv b' \<and> content b' = drop (unat n) (content b)"
    and clear_ok: "inv b \<Longrightarrow> inv (clear b) \<and> content (clear b) = []"
begin

lemma puts_ok:
  assumes "inv b" and "used b + length (concat ds) \<le> limit"
  shows "\<exists>b'. foldr_res put ds b = Inr b' \<and> inv b' \<and> content b' = content b @ concat ds"
  using assms
proof (induction ds arbitrary: b)
  case Nil
  then show ?case by simp
next
  case (Cons d ds)
  from Cons.prems obtain c where c: "put d b = Inr c" "inv c" "content c = content b @ d"
      "used c \<le> used b + length d"
    using put_ok [of b d] by auto
  with Cons.prems have "used c + length (concat ds) \<le> limit" by simp
  with Cons.IH [OF c(2) this] c show ?case by auto
qed

text \<open>What was queued first is retrieved first: the rest stays in order.\<close>

lemma puts_get:
  assumes "inv b" and "used b + length (concat ds) \<le> limit" and "unat n = length (content b)"
  shows "\<exists>c b'. foldr_res put ds b = Inr c \<and> get n c = Inr b' \<and> inv b' \<and> content b' = concat ds"
proof -
  from puts_ok [OF assms(1,2)] obtain c where
    c: "foldr_res put ds b = Inr c" "inv c" "content c = content b @ concat ds"
    by blast
  then obtain b' where "get n c = Inr b'" "inv b'" "content b' = drop (unat n) (content c)"
    using get_ok [of c n] assms(3) by auto
  with c assms(3) show ?thesis by auto
qed

end

interpretation bufq: byte_queue buf_inv contents "\<lambda>b. unat (M_writerIndex b)" max_size
  "\<lambda>d. append_buf d (word_of_nat (length d))" retrieve retrieveAll
proof unfold_locales
  fix b :: buffer and d :: "byte list"
  assume "buf_inv b" and le: "unat (M_writerIndex b) + length d \<le> max_size"
  moreover from le have "unat (word_of_nat (length d) :: size_t) = length d"
    by (simp add: unat_simps max_size_def)
  ultimately show "\<exists>b'. append_buf d (word_of_nat (length d)) b = Inr b' \<and> buf_inv b' \<and>
      contents b' = contents b @ d \<and> unat (M_writerIndex b') \<le> unat (M_writerIndex b) + length d"
    using append_buf_ok [of b "word_of_nat (length d)" d] by simp
qed (simp_all add: retrieve_ok retrieveAll_ok)

text \<open>The calls a client may make, and the same calls on the abstract queue.\<close>

datatype buf_call =
    Append "byte list"
  | Retrieve size_t
  | RetrieveAll
  | Prepend "byte list"
  | Unwrite size_t
  | EnsureWritable size_t

fun run_call :: "buf_call \<Rightarrow> buffer \<Rightarrow> buffer res" where
  "run_call (Append d) b = append_buf d (word_of_nat (length d)) b"
| "run_call (Retrieve n) b = retrieve n b"
| "run_call RetrieveAll b = Inr (retrieveAll b)"
| "run_call (Prepend d) b = prepend d (word_of_nat (length d)) b"
| "run_call (Unwrite n) b = unwrite n b"
| "run_call (EnsureWritable n) b = ensureWritableBytes n b"

fun spec_call :: "buf_call \<Rightarrow> byte list \<Rightarrow> byte list" where
  "spec_call (Append d) q = q @ d"
| "spec_call (Retrieve n) q = drop (unat n) q"
| "spec_call RetrieveAll q = []"
| "spec_call (Prepend d) q = d @ q"
| "spec_call (Unwrite n) q = take (length q - unat n) q"
| "spec_call (EnsureWritable n) q = q"

text \<open>The sizes of a call are sizes of objects in memory.\<close>

fun call_fits :: "buf_call \<Rightarrow> bool" where
  "call_fits (Append d) \<longleftrightarrow> length d \<le> max_size"
| "call_fits (Prepend d) \<longleftrightarrow> length d \<le> max_size"
| "call_fits (EnsureWritable n) \<longleftrightarrow> unat n \<le> max_size"
| "call_fits _ \<longleftrightarrow> True"

lemma unat_length_fits: "length d \<le> max_size \<Longrightarrow> unat (word_of_nat (length d) :: size_t) = length d"
  by (simp add: unat_simps max_size_def)

lemma run_call_refines:
  assumes inv: "buf_inv b" and fits: "call_fits c" and run: "run_call c b = Inr b'"
  shows "buf_inv b' \<and> contents b' = spec_call c (contents b)"
proof (cases c)
  case (Append d)
  then show ?thesis
    using append_buf_cases [OF inv, of "word_of_nat (length d)" d] fits run
    by (auto simp: unat_length_fits)
next
  case (Retrieve n)
  then have "unat n \<le> length (contents b)"
    using retrieve_fault [OF inv, of n] run by fastforce
  then show ?thesis using retrieve_ok [OF inv] Retrieve run by fastforce
next
  case RetrieveAll
  then show ?thesis using retrieveAll_ok [OF inv] run by auto
next
  case (Prepend d)
  then show ?thesis
    using prepend_ok [OF inv, of "word_of_nat (length d)" d] fits run
    by (auto simp: prepend_def prependableBytes_def unat_length_fits unat_simps)
next
  case (Unwrite n)
  then have "unat n \<le> length (contents b)"
    using run inv by (simp add: unwrite_def length_contents unat_simps)
  then show ?thesis using unwrite_ok [OF inv] Unwrite run by fastforce
next
  case (EnsureWritable n)
  then show ?thesis using ensureWritableBytes_cases [OF inv, of n] fits run
    by (auto simp: reserved_def)
qed

section \<open>Properties\<close>


lemmas buf_eval = append_buf_def ensureWritableBytes_def makeSpace_def vector_resize_def
  max_size_def splice_at_def hasWritten_def beginWrite_def retrieve_def retrieveAll_def
  readableBytes_def writableBytes_def prependableBytes_def vector_size_def kCheapPrepend_def
  prepend_def unwrite_def bytes_between_def window_def peek_def Let_def

definition sample_buffer :: buffer where
  "sample_buffer = \<lparr>M_buffer = [0, 0, 0, 0, 0, 0, 0, 0, 0, 0, 0, 0], M_readerIndex = 8, M_writerIndex = 8\<rparr>"

lemma sample_buffer_ok: "buf_inv sample_buffer" "contents sample_buffer = []"
  by (simp_all add: sample_buffer_def buf_inv_def max_size_def contents_def)

lemma sample_calls:
  "foldr_res run_call [Append [1, 2, 3, 4, 5], Retrieve 2, Prepend [9]] sample_buffer =
     Inr \<lparr>M_buffer = [0, 0, 0, 0, 0, 0, 0, 0, 1, 9, 3, 4, 5], M_readerIndex = 9, M_writerIndex = 13\<rparr>"
  by (simp add: sample_buffer_def buf_eval)


text \<open>Chunks appended one after the other are retrieved as one string, their concatenation, once
  what was queued before them is consumed; the buffer is empty afterwards.\<close>

theorem append_retrieve_roundtrip:
  assumes "buf_inv b" and "unat (M_writerIndex b) + length (concat ds) \<le> max_size"
  shows "\<exists>c d e. foldr_res (\<lambda>d. append_buf d (word_of_nat (length d))) ds b = Inr c \<and>
           retrieve (readableBytes b) c = Inr d \<and>
           retrieveAsString (readableBytes d) d = Inr (concat ds, e) \<and> contents e = []"
proof -
  from bufq.puts_get [OF assms, of "readableBytes b"] assms(1) obtain c d where
    cd: "foldr_res (\<lambda>d. append_buf d (word_of_nat (length d))) ds b = Inr c"
      "retrieve (readableBytes b) c = Inr d" "buf_inv d" "contents d = concat ds"
    by (auto simp: length_contents)
  from retrieve_ok [OF cd(3), of "readableBytes d"] cd(3) obtain e where
    "retrieve (readableBytes d) d = Inr e" "contents e = []"
    by (auto simp: length_contents_readable)
  moreover have "window (unat (peek d)) (unat (peek d) + unat (readableBytes d)) (M_buffer d) = concat ds"
    using peek_window [OF cd(3), of "unat (readableBytes d)"] cd(4)
      length_contents_readable [OF cd(3)] by simp
  ultimately show ?thesis using cd by (auto simp: retrieveAsString_def)
qed

theorem append_retrieve_roundtrip_witness:
  "\<exists>c d e. foldr_res (\<lambda>d. append_buf d (word_of_nat (length d))) [[1, 2], [], [3]] sample_buffer = Inr c \<and>
     retrieve (readableBytes sample_buffer) c = Inr d \<and>
     retrieveAsString (readableBytes d) d = Inr ([1, 2, 3], e) \<and> contents e = []"
  using append_retrieve_roundtrip [OF sample_buffer_ok(1), of "[[1, 2], [], [3]]"]
  by (simp add: sample_buffer_def max_size_def)

text \<open>C15. Appending never fails an assertion and never writes outside the vector: it adds exactly the
  given bytes, or throws \<^verbatim>\<open>length_error\<close> when the vector would exceed \<^verbatim>\<open>max_size()\<close>.\<close>

theorem append_total:
  assumes "buf_inv b" and "unat len = length data" and "unat len \<le> max_size"
  shows "(\<exists>b'. append_buf data len b = Inr b' \<and> buf_inv b' \<and> contents b' = contents b @ data) \<or>
         append_buf data len b = Inl LengthError \<and> max_size < unat (M_writerIndex b) + unat len"
  using append_buf_cases [OF assms(1), of len data] assms(2,3) by auto

theorem append_total_witness:
  "(\<exists>b'. append_buf [7, 8] 2 sample_buffer = Inr b' \<and> buf_inv b' \<and>
      contents b' = contents sample_buffer @ [7, 8]) \<or>
   append_buf [7, 8] 2 sample_buffer = Inl LengthError \<and>
     max_size < unat (M_writerIndex sample_buffer) + unat (2 :: size_t)"
  by (rule append_total [OF sample_buffer_ok(1)]) (simp_all add: max_size_def)

text \<open>C16. \<^verbatim>\<open>readFd\<close> queues exactly the bytes \<^verbatim>\<open>readv\<close> delivered, those that went to the stack buffer
  included, and returns their number; on an error it returns -1, saves errno and keeps the buffer.\<close>

theorem readFd_queues_what_was_read:
  assumes "buf_inv b" and "length (M_buffer b) + 65536 \<le> max_size" and "readv_bounded readv"
  shows "\<exists>n e b'. readFd readv fd b = Inr (n, e, b') \<and> buf_inv b' \<and>
    (case readv fd (if writableBytes b < extrabuf_size then [writableBytes b, extrabuf_size]
                    else [writableBytes b]) of
       Inl errno \<Rightarrow> n = -1 \<and> e = Some errno \<and> b' = b
     | Inr bytes \<Rightarrow> n = int (length bytes) \<and> e = None \<and> contents b' = contents b @ bytes)"
proof (cases "readv fd (if writableBytes b < extrabuf_size then [writableBytes b, extrabuf_size]
                 else [writableBytes b])")
  case (Inl errno)
  then show ?thesis using assms(1) by (simp add: readFd_def Let_def split del: if_split)
next
  case (Inr bytes)
  from readFd_data [OF assms this] Inr show ?thesis by (auto split del: if_split)
qed

definition sample_readv :: "int \<Rightarrow> size_t list \<Rightarrow> int + byte list" where
  "sample_readv fd lens = Inr (take (sum_list (map unat lens)) [1, 2, 3, 4, 5, 6])"

theorem readFd_queues_what_was_read_witness:
  "\<exists>b'. readFd sample_readv 3 sample_buffer = Inr (6, None, b') \<and> contents b' = [1, 2, 3, 4, 5, 6]"
proof -
  have "readv_bounded sample_readv"
    by (auto simp: readv_bounded_def sample_readv_def)
  moreover have "length (M_buffer sample_buffer) + 65536 \<le> max_size"
    by (simp add: sample_buffer_def max_size_def)
  moreover have "sample_readv 3 (if writableBytes sample_buffer < extrabuf_size
      then [writableBytes sample_buffer, extrabuf_size] else [writableBytes sample_buffer]) =
      Inr [1, 2, 3, 4, 5, 6]"
    by (simp add: sample_buffer_def sample_readv_def extrabuf_size_def buf_eval)
  ultimately show ?thesis
    using readFd_queues_what_was_read [OF sample_buffer_ok(1), of sample_readv 3] sample_buffer_ok(2)
    by auto
qed

text \<open>C17. A 32-bit integer appended with \<^verbatim>\<open>appendInt32\<close> lies in the queue most significant byte
  first, whatever the byte order of the host, and \<^verbatim>\<open>readInt32\<close> returns it, sign-extended, when
  everything queued before it has been retrieved.\<close>

theorem int32_roundtrip:
  assumes "buf_inv b" and "unat (M_writerIndex b) + 4 \<le> max_size"
  shows "\<exists>c d e. appendInt32 host x b = Inr c \<and>
           contents c = contents b @ be_bytes 4 (unat x) \<and>
           retrieve (readableBytes b) c = Inr d \<and>
           readInt32 host d = Inr (scast x, e) \<and> contents e = []"
proof -
  from append_buf_ok [OF assms(1), of 4 "be_bytes 4 (unat x)"] assms(2) obtain c where
    c: "appendInt32 host x b = Inr c" "buf_inv c" "contents c = contents b @ be_bytes 4 (unat x)"
    by (auto simp: appendInt32_eq)
  from retrieve_ok [OF c(2), of "readableBytes b"] c(3) assms(1) obtain d where
    d: "retrieve (readableBytes b) c = Inr d" "buf_inv d" "contents d = be_bytes 4 (unat x)"
    by (auto simp: length_contents)
  from retrieve_ok [OF d(2), of 4] d(3) obtain e where "retrieve 4 d = Inr e" "contents e = []"
    by auto
  with peekInt32_ok [of d x "[]" host] d c show ?thesis
    by (simp add: readInt32_def retrieveInt32_def)
qed

theorem int32_roundtrip_witness:
  "\<exists>c d e. appendInt32 LittleEndian 4294967294 sample_buffer = Inr c \<and>
     contents c = contents sample_buffer @ be_bytes 4 (unat (4294967294 :: int32)) \<and>
     retrieve (readableBytes sample_buffer) c = Inr d \<and>
     readInt32 LittleEndian d = Inr (scast (4294967294 :: int32), e) \<and> contents e = []"
  by (rule int32_roundtrip [OF sample_buffer_ok(1)]) (simp add: sample_buffer_def max_size_def)

lemma scast_ucast_eq_iff:
  "(scast (ucast (x :: int64) :: int32) :: int64) = x \<longleftrightarrow> -2147483648 \<le> sint x \<and> sint x < 2147483648"
proof -
  let ?y = "ucast x :: int32"
  have "-2147483648 \<le> sint ?y" "sint ?y < 2147483648"
    using sint_ge [of ?y] sint_lt [of ?y] by simp_all
  then have "sint (scast ?y :: int64) = sint ?y"
    unfolding signed_scast_eq by (intro signed_take_bit_int_eq_self) simp_all
  also have "\<dots> = signed_take_bit 31 (uint x)" unfolding signed_ucast_eq by simp
  also have "\<dots> = signed_take_bit 31 (sint x)"
    unfolding sint_uint [of x] signed_take_bit_signed_take_bit by simp
  finally have t: "sint (scast ?y :: int64) = signed_take_bit 31 (sint x)" .
  have "(scast (ucast x :: int32) :: int64) = x \<longleftrightarrow> signed_take_bit 31 (sint x) = sint x"
    by (metis t signed_word_eqI)
  also have "\<dots> \<longleftrightarrow> -2147483648 \<le> sint x \<and> sint x < 2147483648"
    by (simp add: signed_take_bit_int_eq_self_iff)
  finally show ?thesis .
qed

text \<open>\<^verbatim>\<open>readInt64\<close> goes through a result of type \<^verbatim>\<open>int32_t\<close>: it returns the low 32 bits of the
  appended integer, sign-extended, so the value comes back exactly when it is in the range of
  \<^verbatim>\<open>int32_t\<close>.\<close>

theorem readInt64_returns_low_half:
  assumes "buf_inv b" and "contents b = []" and "unat (M_writerIndex b) + 8 \<le> max_size"
  shows "\<exists>c y d. appendInt64 host x b = Inr c \<and> readInt64 host c = Inr (y, d) \<and>
           y = scast (ucast x :: int32) \<and>
           (y = x \<longleftrightarrow> -2147483648 \<le> sint x \<and> sint x < 2147483648)"
proof -
  from append_buf_ok [OF assms(1), of 8 "be_bytes 8 (unat x)"] assms(2,3) obtain c where
    c: "appendInt64 host x b = Inr c" "buf_inv c" "contents c = be_bytes 8 (unat x)"
    by (auto simp: appendInt64_eq)
  from retrieve_ok [OF c(2), of 8] c(3) obtain d where "retrieve 8 c = Inr d" by auto
  with peekInt64_ok [of c x "[]" host] c show ?thesis
    by (simp add: readInt64_def retrieveInt64_def scast_ucast_eq_iff)
qed

theorem readInt64_returns_low_half_witness:
  "\<exists>c y d. appendInt64 LittleEndian 4294967296 sample_buffer = Inr c \<and>
     readInt64 LittleEndian c = Inr (y, d) \<and> y = 0"
  using readInt64_returns_low_half [OF sample_buffer_ok, of LittleEndian 4294967296]
  by (auto simp: sample_buffer_def max_size_def)

text \<open>\<^verbatim>\<open>prependInt16\<close> puts four bytes in front of the queue, not two: on a little-endian host the
  integer in network byte order followed by two zero bytes.\<close>

theorem prependInt16_adds_four_bytes:
  assumes "buf_inv b" and "4 \<le> unat (M_readerIndex b)"
  shows "\<exists>c. prependInt16 LittleEndian x b = Inr c \<and>
           contents c = be_bytes 2 (unat x) @ [0, 0] @ contents b"
proof -
  have "obj_bytes LittleEndian 4 (htobe LittleEndian 2 (unat x)) = be_bytes 2 (unat x) @ [0, 0]"
    using obj_bytes_wide16(1) [of 2 x] replicate_2 by simp
  with prepend_ok [OF assms(1), of 4 "be_bytes 2 (unat x) @ [0, 0]"] assms(2) show ?thesis
    by (auto simp: prependInt16_def unat_ucast_hostToNetwork16)
qed

theorem prependInt16_adds_four_bytes_witness:
  "\<exists>c. prependInt16 LittleEndian 258 sample_buffer = Inr c \<and>
     contents c = be_bytes 2 (unat (258 :: int16)) @ [0, 0] @ contents sample_buffer"
  by (rule prependInt16_adds_four_bytes [OF sample_buffer_ok(1)]) (simp add: sample_buffer_def)

text \<open>C18. When the queue holds a line, a CRLF and more bytes, and no CRLF starts inside the line,
  \<^verbatim>\<open>findCRLF\<close> finds the end of the line, and retrieving up to two bytes after it leaves
  exactly the bytes after the CRLF.\<close>

theorem findCRLF_splits_line:
  assumes inv: "buf_inv b" and c: "contents b = line @ kCRLF @ rest"
    and first: "\<not> sublist kCRLF (line @ [13])"
  shows "\<exists>p b'. findCRLF b = Some p \<and> bytes_between (peek b) p b = line \<and>
           retrieveUntil (p + 2) b = Inr b' \<and> contents b' = rest"
proof -
  note i = buf_invD [OF inv]
  let ?r = "unat (M_readerIndex b)" and ?w = "unat (M_writerIndex b)"
  let ?p = "M_readerIndex b + word_of_nat (length line)"
  have len: "?w - ?r = length line + 2 + length rest"
    using length_contents [OF inv] c by (simp add: kCRLF_def)
  then have p: "unat ?p = ?r + length line" and p2: "unat (?p + 2) = ?r + length line + 2"
    using i by (simp_all add: unat_simps)
  have "butlast kCRLF = [13]" by (simp add: kCRLF_def)
  then have "std_search kCRLF (contents b) = length line"
    using std_search_append [of kCRLF line rest] first c by (simp add: kCRLF_def)
  moreover have "?p \<noteq> M_writerIndex b" using p len by auto
  ultimately have f: "findCRLF b = Some ?p"
    by (simp add: findCRLF_def peek_def beginWrite_def bytes_between_def contents_def Let_def)
  have l: "bytes_between (peek b) ?p b = line"
    using peek_window [OF inv, of "length line"] c p by (simp add: bytes_between_def peek_def)
  have d: "unat (?p + 2 - peek b) = length line + 2"
    using p2 unat_size_sub [of "M_readerIndex b" "?p + 2"] by (simp add: peek_def)
  from retrieve_ok [OF inv, of "?p + 2 - peek b"] obtain b' where
    "retrieve (?p + 2 - peek b) b = Inr b'" "contents b' = rest"
    using c d by (auto simp: kCRLF_def)
  then have "retrieveUntil (?p + 2) b = Inr b'"
    using p2 len i by (simp add: retrieveUntil_def peek_def beginWrite_def word_le_nat_alt)
  with f l \<open>contents b' = rest\<close> show ?thesis by blast
qed

theorem findCRLF_splits_line_witness:
  "\<exists>p b'. findCRLF \<lparr>M_buffer = [0, 0, 0, 0, 0, 0, 0, 0, 65, 66, 13, 10, 67], M_readerIndex = 8,
       M_writerIndex = 13\<rparr> = Some p \<and>
     bytes_between (peek \<lparr>M_buffer = [0, 0, 0, 0, 0, 0, 0, 0, 65, 66, 13, 10, 67],
       M_readerIndex = 8, M_writerIndex = 13\<rparr>) p
       \<lparr>M_buffer = [0, 0, 0, 0, 0, 0, 0, 0, 65, 66, 13, 10, 67], M_readerIndex = 8,
       M_writerIndex = 13\<rparr> = [65, 66] \<and>
     retrieveUntil (p + 2) \<lparr>M_buffer = [0, 0, 0, 0, 0, 0, 0, 0, 65, 66, 13, 10, 67],
       M_readerIndex = 8, M_writerIndex = 13\<rparr> = Inr b' \<and> contents b' = [67]"
  by (rule findCRLF_splits_line)
    (simp_all add: buf_inv_def max_size_def contents_def window_def kCRLF_def sublist_Cons_right)

lemma unat_scast_ucast_int: "unat (n :: size_t) < 2147483648 \<Longrightarrow> unat (scast (ucast n :: int32) :: size_t) = unat n"
proof -
  assume lt: "unat n < 2147483648"
  then have "n < 2147483648" by (simp add: word_less_nat_alt)
  then have "uint n < 2147483648" by (simp add: word_less_alt)
  moreover have "- (2 ^ 63) \<le> uint n" by (rule order.trans [of _ 0]) simp_all
  ultimately have "signed_take_bit 63 (uint n) = uint n"
    by (intro signed_take_bit_int_eq_self) simp_all
  then have "sint n = uint n" by (simp add: sint_uint)
  then have "-2147483648 \<le> sint n" "sint n < 2147483648"
    using \<open>uint n < 2147483648\<close> uint_ge_0 [of n] by linarith+
  then have "(scast (ucast n :: int32) :: size_t) = n"
    by (simp add: scast_ucast_eq_iff)
  then show ?thesis by simp
qed

lemma ensureWritableBytes_fits:
  "buf_inv b \<Longrightarrow> unat (M_writerIndex b) + unat len \<le> length (M_buffer b) \<Longrightarrow>
   ensureWritableBytes len b = Inr b"
  using buf_invD(2) [of b] by (simp add: ensureWritableBytes_def unat_simps)

lemma ensureWritableBytes_fresh:
  assumes "buf_inv b" and "M_readerIndex b = kCheapPrepend" and "M_writerIndex b = kCheapPrepend"
    and "unat len + 8 \<le> max_size"
  shows "\<exists>c. ensureWritableBytes len b = Inr c \<and> buf_inv c \<and> contents c = contents b \<and>
           M_writerIndex c = kCheapPrepend \<and> length (M_buffer c) = max (length (M_buffer b)) (8 + unat len)"
proof (cases "8 + unat len \<le> length (M_buffer b)")
  case True
  with assms show ?thesis using ensureWritableBytes_fits [of b len] by auto
next
  case False
  have n: "length (M_buffer b) - unat (M_writerIndex b) < unat len"
    using False assms buf_invD [OF assms(1)] by simp
  have "unat (writableBytes b + prependableBytes b) = length (M_buffer b)"
    using assms buf_invD [OF assms(1)] by (simp add: unat_simps prependableBytes_def)
  moreover have "unat (len + kCheapPrepend) = unat len + 8"
    using assms(4) by (simp add: unat_simps max_size_def)
  ultimately have g: "writableBytes b + prependableBytes b < len + kCheapPrepend"
    using False by (simp add: word_less_nat_alt)
  from makeSpace_grow [OF assms(1) _ n g] assms obtain c where
    c: "makeSpace len b = Inr c" "buf_inv c" "contents c = contents b"
      "M_writerIndex c = kCheapPrepend" "length (M_buffer c) = 8 + unat len"
    by (auto simp: add.commute)
  with False n assms show ?thesis
    by (auto simp: ensureWritableBytes_def unat_simps)
qed

lemma append_buf_fits:
  assumes inv: "buf_inv b" and data: "unat len \<le> length data"
    and fit: "unat (M_writerIndex b) + unat len \<le> length (M_buffer b)"
  shows "\<exists>b'. append_buf data len b = Inr b' \<and> buf_inv b' \<and>
           contents b' = contents b @ take (unat len) data \<and>
           unat (M_writerIndex b') = unat (M_writerIndex b) + unat len \<and>
           length (M_buffer b') = length (M_buffer b)"
proof -
  let ?d = "take (unat len) data"
  have l: "length ?d = unat len" using data by simp
  note w = write_at_end [OF inv, of ?d, unfolded l, OF fit]
  have "len \<le> writableBytes (b\<lparr>M_buffer := splice_at (M_buffer b) (unat (M_writerIndex b)) ?d\<rparr>)"
    using fit l buf_invD [OF inv] by (simp add: writableBytes_def unat_simps max_size_def)
  then show ?thesis
    using ensureWritableBytes_fits [OF inv fit] data l w
    by (simp add: append_buf_def hasWritten_def beginWrite_def)
qed

text \<open>\<^verbatim>\<open>shrink\<close> keeps the readable bytes and moves them to a fresh vector whose size depends only
  on what is readable and reserved, as long as their number is below the range of \<^verbatim>\<open>int\<close>
  that \<^verbatim>\<open>toStringPiece\<close> stores it in.\<close>

theorem shrink_keeps_contents:
  assumes inv: "buf_inv b" and small: "length (contents b) < 2147483648"
    and space: "length (contents b) + unat reserve + 8 \<le> max_size"
  shows "\<exists>b'. shrink reserve b = Inr b' \<and> buf_inv b' \<and> contents b' = contents b \<and>
           length (M_buffer b') = 8 + max 1024 (length (contents b) + unat reserve)"
proof -
  let ?n = "readableBytes b" and ?k = "length (contents b)"
  have n: "unat ?n = ?k" using inv by (simp add: length_contents)
  have k1024: "unat kInitialSize = 1024" by (simp add: kInitialSize_def)
  from new_Buffer_ok [of kInitialSize] obtain o1 where
    o1: "new_Buffer kInitialSize = Inr o1" "buf_inv o1" "contents o1 = []"
      "M_readerIndex o1 = kCheapPrepend" "M_writerIndex o1 = kCheapPrepend"
      "length (M_buffer o1) = 1032"
    using k1024 by (auto simp: max_size_def)
  have nr: "unat (?n + reserve) = ?k + unat reserve"
    using space n by (simp add: unat_size_add max_size_def del: unat_readableBytes)
  from ensureWritableBytes_fresh [OF o1(2,4,5), of "?n + reserve"] obtain o2 where
    o2: "ensureWritableBytes (?n + reserve) o1 = Inr o2" "buf_inv o2" "contents o2 = []"
      "M_writerIndex o2 = kCheapPrepend" "length (M_buffer o2) = max 1032 (8 + (?k + unat reserve))"
    using o1 nr space by auto
  let ?l = "scast (ucast ?n :: int32) :: size_t"
  have l: "unat ?l = ?k" using unat_scast_ucast_int [of ?n] small n by simp
  have "take ?k (drop (unat (peek b)) (M_buffer b)) = contents b"
    using length_contents [OF inv] by (simp add: contents_def window_def peek_def)
  moreover have "unat (M_writerIndex o2) + unat ?l \<le> length (M_buffer o2)"
    using o2 l by (simp add: le_max_iff_disj)
  moreover have "unat ?l \<le> length (drop (unat (peek b)) (M_buffer b))"
    using l length_contents [OF inv] buf_invD [OF inv] by (simp add: peek_def)
  ultimately obtain o3 where
    "append_StringPiece (toStringPiece b) o2 = Inr o3" "buf_inv o3" "contents o3 = contents b"
      "length (M_buffer o3) = length (M_buffer o2)"
    using append_buf_fits [OF o2(2), of ?l "drop (unat (peek b)) (M_buffer b)"] o2(3) l
    by (auto simp: append_StringPiece_def toStringPiece_def)
  with o1 o2 show ?thesis by (simp add: shrink_def swap_buf_def)
qed

theorem shrink_keeps_contents_witness:
  "\<exists>b'. shrink 0 sample_buffer = Inr b' \<and> contents b' = [] \<and> length (M_buffer b') = 1032"
  using shrink_keeps_contents [OF sample_buffer_ok(1), of 0] sample_buffer_ok(2)
  by (auto simp: max_size_def)

end
