(* ===== verification/Callbacks.thy ===== *)
theory Callbacks
  imports EventLoop Sockets Buffer
begin

text \<open>
  The function objects of the network classes (include/Callbacks.h and the \<^verbatim>\<open>boost::bind\<close> expressions
  of TcpConnection.cpp, Acceptor.cpp, Connector.cpp, TcpServer.cpp and TcpClient.cpp). A bound
  member function is a constructor with the bound arguments; the object it is bound to is the
  number before it. \<open>'u\<close> is the type of the callbacks of the user.
\<close>

datatype cb_event =
    OnConnection
  | OnMessage timestamp
  | OnWriteComplete
  | OnHighWaterMark size_t

datatype 'u conn_task =
    SendInLoop "byte list"
  | ShutdownInLoop
  | ForceCloseInLoop
  | WeakForceClose             \<comment> \<open>makeWeakCallback(shared_from_this(), forceClose)\<close>
  | StartReadInLoop
  | StopReadInLoop
  | ConnectEstablished
  | ConnectDestroyed
  | SetCloseCallback 'u
  | CallUser 'u cb_event       \<comment> \<open>a user callback bound to the connection\<close>
  | ConnRead
  | ConnWrite
  | ConnClose
  | ConnError

datatype connector_task = StartInLoop | StopInLoop | ResetChannel | ConnectorWrite | ConnectorError

datatype 'u net_task =
    ConnTask nat "'u conn_task"
  | ConnectorTask nat connector_task
  | AcceptorRead nat
  | AcceptorListen nat
  | RemoveConnectionInLoop nat nat   \<comment> \<open>server, connection\<close>
  | RemoveConnector nat

type_synonym 'u net_functor = "'u net_task loop_functor"
type_synonym 'u net_loop = "'u net_task event_loop"
type_synonym 'u net_heap = "'u net_functor channel_heap"

section \<open>Channels of a loop, also while it handles events\<close>

text \<open>The invariant of the registration of channels, whatever the loop is doing.\<close>

definition loop_reg :: "int \<Rightarrow> 'f loop_functor channel_heap \<Rightarrow> 'f event_loop \<Rightarrow> bool" where
  "loop_reg tid h l \<longleftrightarrow> virtual_inv h (M_poller l) \<and> (\<forall>a c. h a = Some c \<longrightarrow> M_loop c = M_self l) \<and>
     M_threadId l = tid"

lemma loop_set_events_ok:
  assumes "epoll_documented ctl" and "loop_reg tid h l" and "h a = Some c" and "0 \<le> M_fd c"
    and "fits (loop_channels l) a c"
  shows "\<exists>p i. set_events (loop_updateChannel ctl tid) f a h l =
      Inr (watch h a c (f (M_events c)) i, l\<lparr>M_poller := p\<rparr>) \<and>
    loop_reg tid (watch h a c (f (M_events c)) i) (l\<lparr>M_poller := p\<rparr>) \<and>
    virtual_channels p = (loop_channels l)(M_fd c \<mapsto> a)"
proof -
  let ?c = "c\<lparr>M_events := f (M_events c), M_addedToLoop := True\<rparr>"
  have inv: "virtual_inv h (M_poller l)" using assms(2) by (simp add: loop_reg_def)
  have fits: "fits (virtual_channels (M_poller l)) a c" using assms(5) by (simp add: loop_channels_def)
  from epoll_kernel.virtual_set_events [OF epoll_kernel.intro [OF assms(1)] inv assms(3,4) fits, of f]
  obtain p i where p: "set_events (virtual_updateChannel ctl True) f a h (M_poller l) =
      Inr (watch h a c (f (M_events c)) i, p)"
    "virtual_inv (watch h a c (f (M_events c)) i) p"
    "virtual_channels p = (loop_channels l)(M_fd c \<mapsto> a)"
    by (auto simp: loop_channels_def)
  have "set_events (loop_updateChannel ctl tid) f a h l =
      Inr (watch h a c (f (M_events c)) i, l\<lparr>M_poller := p\<rparr>)"
    using p(1) assms(2,3)
    by (simp add: set_events_def update_def loop_updateChannel_def loop_reg_def ownerLoop_def isInLoopThread_def)
  moreover have "loop_reg tid (watch h a c (f (M_events c)) i) (l\<lparr>M_poller := p\<rparr>)"
    using p(2) assms(2,3) by (auto simp: loop_reg_def watch_def watched_channel_def)
  ultimately show ?thesis using p(3) by blast
qed

lemma fits_watched:
  "fits m a (watched_channel c ev i) \<longleftrightarrow> i = -1 \<and> m (M_fd c) = None \<or> m (M_fd c) = Some a"
  by (simp add: fits_def)

lemma loop_reg_queue [simp]:
  "loop_reg tid h (queueInLoop t f l) = loop_reg tid h l"
  "loop_channels (queueInLoop t f l) = loop_channels l"
  by (simp_all add: loop_reg_def loop_channels_def queueInLoop_def push_functor_def wakeup_def Let_def)

lemma pending_queue: "M_pendingFunctors (queueInLoop t f l) = M_pendingFunctors l @ [f]"
  by (simp add: queueInLoop_def push_functor_def wakeup_def Let_def)

text \<open>The pollers look at the descriptor, the events and the index of a channel only.\<close>

lemma virtual_inv_other_fields:
  assumes "virtual_inv h p" and "h a = Some c" and "M_fd d = M_fd c" and "M_events d = M_events c" and "M_index d = M_index c"
  shows "virtual_inv (h(a \<mapsto> d)) p"
proof (cases p)
  case (PollPoller q)
  have "poll_entry pfds (h(a \<mapsto> d)) = poll_entry pfds h" for pfds
    using assms(2-5) by (auto simp: poll_entry_def fun_eq_iff)
  with PollPoller assms(1) show ?thesis by (simp add: poll_inv_def)
next
  case (EPollPoller q)
  have "epoll_entry calls (h(a \<mapsto> d)) = epoll_entry calls h" for calls
    using assms(2-5) by (auto simp: epoll_entry_def fun_eq_iff)
  with EPollPoller assms(1) show ?thesis by (simp add: epoll_inv_def cong: option.case_cong)
qed

lemma loop_reg_fresh:
  assumes "loop_reg tid h l" and "\<forall>fd. loop_channels l fd \<noteq> Some a" and "M_loop c = M_self l"
  shows "loop_reg tid (h(a \<mapsto> c)) l"
  using assms virtual_inv_new_channel [of h "M_poller l" a c] by (auto simp: loop_reg_def loop_channels_def)

text \<open>A registered channel can be switched off and taken out, also while the loop handles its event.\<close>

lemma loop_disable_remove_ok:
  assumes "epoll_documented ctl" and "loop_reg tid h l" and "h a = Some c" and "0 \<le> M_fd c"
    and "loop_channels l (M_fd c) = Some a"
    and "M_loopEventHandling l \<longrightarrow> M_currentActiveChannel l = Some a \<or> a \<notin> set (M_activeChannels l)"
  shows "\<exists>h1 p1 h2 p2. disableAll (loop_updateChannel ctl tid) a h l = Inr (h1, l\<lparr>M_poller := p1\<rparr>) \<and>
    remove_channel (loop_removeChannel ctl tid) a h1 (l\<lparr>M_poller := p1\<rparr>) = Inr (h2, l\<lparr>M_poller := p2\<rparr>) \<and>
    loop_reg tid h2 (l\<lparr>M_poller := p2\<rparr>) \<and> virtual_channels p2 = (loop_channels l)(M_fd c := None) \<and>
    same_but_index (h(a \<mapsto> c\<lparr>M_events := 0, M_addedToLoop := False\<rparr>)) h2"
proof -
  have r: "virtual_inv h (M_poller l)" "M_threadId l = tid" "\<And>a c. h a = Some c \<Longrightarrow> M_loop c = M_self l"
    using assms(2) by (simp_all add: loop_reg_def)
  note own = r(3) [OF assms(3)]
  from epoll_kernel.virtual_disable_remove [OF epoll_kernel.intro [OF assms(1)] r(1) assms(3,4)] assms(5)
  obtain h1 p1 h2 p2 where
    1: "disableAll (virtual_updateChannel ctl True) a h (M_poller l) = Inr (h1, p1)"
      "remove_channel (virtual_removeChannel ctl True) a h1 p1 = Inr (h2, p2)" "virtual_inv h2 p2"
      "same_but_index (h(a \<mapsto> c\<lparr>M_events := 0, M_addedToLoop := False\<rparr>)) h2"
      "virtual_channels p2 = (loop_channels l)(M_fd c := None)" by (auto simp: loop_channels_def)
  have d: "disableAll (loop_updateChannel ctl tid) a h l = Inr (h1, l\<lparr>M_poller := p1\<rparr>)"
    using 1(1) assms(3) r(2) own
    by (simp add: disableAll_def set_events_def update_def loop_updateChannel_def ownerLoop_def isInLoopThread_def)
  have "fits (loop_channels l) a c" using assms(5) by (simp add: fits_def)
  from loop_set_events_ok [OF assms(1-4) this, of "\<lambda>_. kNoneEvent"] d obtain i where h1: "h1 = watch h a c kNoneEvent i"
    by (auto simp: disableAll_def)
  have "remove_channel (loop_removeChannel ctl tid) a h1 (l\<lparr>M_poller := p1\<rparr>) = Inr (h2, l\<lparr>M_poller := p2\<rparr>)"
    using 1(2) assms(6) r(2) own
    by (simp add: h1 remove_channel_def loop_removeChannel_def ownerLoop_def isInLoopThread_def watched_channel_def isNoneEvent_def)
  moreover have "loop_reg tid h2 (l\<lparr>M_poller := p2\<rparr>)"
    unfolding loop_reg_def
  proof (intro conjI allI impI)
    fix b e
    assume e: "h2 b = Some e"
    let ?h = "h(a \<mapsto> c\<lparr>M_events := 0, M_addedToLoop := False\<rparr>)"
    from same_but_indexE [OF same_but_index_sym [OF 1(4)] e] obtain j where "?h b = Some (e\<lparr>M_index := j\<rparr>)" by blast
    then have "map_option M_loop (?h b) = Some (M_loop e)" by simp
    then show "M_loop e = M_self (l\<lparr>M_poller := p2\<rparr>)" using r(3) [of b] own by (auto split: if_splits)
  qed (use 1(3) r(2) in simp_all)
  ultimately show ?thesis using d 1(4,5) by blast
qed

text \<open>A channel that was taken out passes the assertions of \<^verbatim>\<open>~Channel\<close>.\<close>

lemma removed_channel_deletable:
  assumes "same_but_index (h(a \<mapsto> c\<lparr>M_events := 0, M_addedToLoop := False\<rparr>)) h2" and "loop_reg tid h2 l"
    and "loop_channels l (M_fd c) = None" and "\<not> M_eventHandling c"
  shows "\<exists>d. h2 a = Some d \<and> delete_Channel (isInLoopThread tid l) (loop_hasChannel tid a h2 l) d = Inr ()"
proof -
  from same_but_indexE [OF assms(1), of a] obtain j where
    d: "h2 a = Some (c\<lparr>M_events := 0, M_addedToLoop := False, M_index := j\<rparr>)" by auto
  with assms(2) have "M_loop (c\<lparr>M_events := 0, M_addedToLoop := False, M_index := j\<rparr>) = M_self l"
    unfolding loop_reg_def by blast
  then have "M_loop c = M_self l" by simp
  then have "loop_hasChannel tid a h2 l = Inr False"
    using assms(2,3) virtual_hasChannel_iff [of h2 a, OF d]
    by (simp add: loop_hasChannel_def d loop_reg_def isInLoopThread_def ownerLoop_def loop_channels_def)
  with d assms(4) show ?thesis by (simp add: delete_Channel_def)
qed

section \<open>What a registration leaves alone\<close>

lemma epoll_update_heap: "epoll_update ctl operation a h p = Inr (h', p') \<Longrightarrow> h' = h"
  by (auto simp: epoll_update_def Let_def split: if_splits)

lemma virtual_update_same: "virtual_updateChannel ctl b a h p = Inr (h', p') \<Longrightarrow> same_but_index h h'"
  by (cases p)
    (auto simp: poll_updateChannel_def epoll_updateChannel_def Let_def set_index_def same_but_index_upd
      dest!: epoll_update_heap split: if_splits)

lemma virtual_remove_same: "virtual_removeChannel ctl b a h p = Inr (h', p') \<Longrightarrow> same_but_index h h'"
  by (cases p)
    (auto simp: poll_removeChannel_def epoll_removeChannel_def Let_def set_index_def same_but_index_upd
      dest!: epoll_update_heap split: if_splits option.splits)

lemma set_events_same:
  assumes "set_events (loop_updateChannel ctl tid) f a h l = Inr (h', l')"
  shows "\<exists>c i. h a = Some c \<and> h' a = Some (watched_channel c (f (M_events c)) i)"
proof -
  from assms obtain c where c: "h a = Some c"
    "loop_updateChannel ctl tid a (h(a \<mapsto> c\<lparr>M_events := f (M_events c), M_addedToLoop := True\<rparr>)) l = Inr (h', l')"
    by (auto simp: set_events_def update_def)
  then have "same_but_index (h(a \<mapsto> c\<lparr>M_events := f (M_events c), M_addedToLoop := True\<rparr>)) h'"
    by (auto simp: loop_updateChannel_def dest: virtual_update_same)
  from same_but_indexE [OF this, of a] c(1) show ?thesis by (auto simp: watched_channel_def)
qed

lemma remove_channel_same:
  assumes "remove_channel (loop_removeChannel ctl tid) a h l = Inr (h', l')"
  shows "\<exists>c i. h a = Some c \<and> h' a = Some (c\<lparr>M_addedToLoop := False, M_index := i\<rparr>)"
proof -
  from assms obtain c where c: "h a = Some c"
    "loop_removeChannel ctl tid a (h(a \<mapsto> c\<lparr>M_addedToLoop := False\<rparr>)) l = Inr (h', l')"
    by (auto simp: remove_channel_def)
  then have "same_but_index (h(a \<mapsto> c\<lparr>M_addedToLoop := False\<rparr>)) h'"
    by (auto simp: loop_removeChannel_def dest: virtual_remove_same)
  from same_but_indexE [OF this, of a] c(1) show ?thesis by auto
qed

section \<open>A sample loop\<close>

definition idle_loop :: "nat \<Rightarrow> int \<Rightarrow> 'f event_loop" where
  "idle_loop this tid = \<lparr>M_self = this, M_looping = True, M_quit = False, M_loopEventHandling = False,
     M_callingPendingFunctors = False, M_iteration = 0, M_threadId = tid, M_pollReturnTime = invalid,
     M_poller = PollPoller new_PollPoller,
     M_timerQueue = \<lparr>M_timerfd = 4, M_timerfdChannel = 0, M_timers = [], M_activeTimers = [],
       M_callingExpiredTimers = False, M_cancelingTimers = [], timers = Map.empty, s_numCreated = 0,
       readings = 0, settimes = [], pending_calls = [], ran = []\<rparr>,
     M_wakeupFd = 6, M_wakeupChannel = 1, M_activeChannels = [], M_currentActiveChannel = None,
     M_pendingFunctors = [], M_loopContext = None, eventfd = 0\<rparr>"

lemma idle_loop_reg: "loop_reg tid Map.empty (idle_loop this tid)" "loop_channels (idle_loop this tid) = Map.empty"
  by (simp_all add: loop_reg_def idle_loop_def loop_channels_def new_PollPoller_inv)

end
