(* ===== verification/TcpConnection.thy ===== *)
theory TcpConnection
  imports Callbacks
begin

text \<open>
  The class \<^verbatim>\<open>TcpConnection\<close> (include/TcpConnection.h, src/TcpConnection.cpp).

  \<^item> \<open>conn_world\<close> is what an operation of a connection acts on: the connection, its loop with the
    loop's channels, the system calls made for their effect, \<open>w_wire\<close>, the bytes the kernel took
    from the connection's socket writes, in order, and \<open>w_called\<close>, the user callbacks called so
    far. \<open>w_rest\<close> is the state of the owner of the connection, reached by the close callback only.
  \<^item> \<open>conn_env\<close> is the world outside: the kernel (\<open>ctl\<close>, \<open>sys_write\<close>, \<open>sys_readv\<close>), the body of every
    user callback and the effect of every close callback. A \<open>sys_write\<close> returns the errno or the
    number of bytes taken.
  \<^item> The body of a user callback is a \<open>conn_prog\<close>: a sequence of calls of the connection's public
    functions, which may depend on the state of the connection and on the bytes it reads.
  \<^item> \<^verbatim>\<open>M_state = kDisconnecting\<close> in the condition of \<^verbatim>\<open>forceClose\<close> is read as a comparison.
\<close>

section \<open>State\<close>

datatype StateE = kDisconnected | kConnecting | kConnected | kDisconnecting

record 'u tcp_connection =
  M_connSelf :: nat
  M_connName :: string
  M_state :: StateE
  M_socket :: int
  M_channel :: nat
  M_localAddr :: sockaddr
  M_peerAddr :: sockaddr
  M_connectionCallback :: "'u option"
  M_messageCallback :: "'u option"
  M_writeCompleteCallback :: "'u option"
  M_highWaterMarkCallback :: "'u option"
  M_connCloseCallback :: "'u option"
  M_highWaterMark :: size_t
  M_inputBuffer :: buffer
  M_outputBuffer :: buffer
  M_context :: any
  M_reading :: bool

record ('u, 's) conn_world =
  w_heap :: "'u net_heap"
  w_loop :: "'u net_loop"
  w_conn :: "'u tcp_connection"
  w_wire :: "byte list"
  w_syscalls :: "syscall list"
  w_called :: "('u \<times> cb_event) list"
  w_rest :: 's

datatype 'u conn_prog =
    CDone
  | CSend "byte list" "'u conn_prog"
  | CShutdown "'u conn_prog"
  | CForceClose "'u conn_prog"
  | CStartRead "'u conn_prog"
  | CStopRead "'u conn_prog"
  | CRetrieve "byte list \<Rightarrow> 'u conn_prog"     \<comment> \<open>retrieveAsString on the input buffer\<close>
  | CObserve "StateE \<Rightarrow> 'u conn_prog"

record ('u, 's) conn_env =
  ctl :: epoll_ctl
  sys_write :: "int \<Rightarrow> byte list \<Rightarrow> int + nat"
  sys_readv :: "int \<Rightarrow> size_t list \<Rightarrow> int + byte list"
  cb_body :: "'u \<Rightarrow> cb_event \<Rightarrow> 'u conn_prog"
  close_body :: "'u \<Rightarrow> ('u, 's) conn_world \<Rightarrow> ('u, 's) conn_world res"

section \<open>Access\<close>

definition set_conn :: "('u tcp_connection \<Rightarrow> 'u tcp_connection) \<Rightarrow> ('u, 's) conn_world \<Rightarrow> ('u, 's) conn_world" where
  "set_conn f w = w\<lparr>w_conn := f (w_conn w)\<rparr>"

definition setState :: "StateE \<Rightarrow> ('u, 's) conn_world \<Rightarrow> ('u, 's) conn_world" where
  "setState st = set_conn (\<lambda>c. c\<lparr>M_state := st\<rparr>)"

text \<open>\<open>the_channel w k\<close> dereferences \<^verbatim>\<open>M_channel\<close>; \<open>on_channel\<close> calls one of its functions.\<close>

definition the_channel :: "('u, 's) conn_world \<Rightarrow> ('u net_functor channel \<Rightarrow> 'a res) \<Rightarrow> 'a res" where
  "the_channel w k = with_channel (w_heap w) (M_channel (w_conn w)) k"

definition on_channel :: "(('u net_functor, 'u net_loop) chan_op \<Rightarrow> ('u net_functor, 'u net_loop) chan_op) \<Rightarrow>
    ('u, 's) conn_env \<Rightarrow> int \<Rightarrow> ('u, 's) conn_world \<Rightarrow> ('u, 's) conn_world res" where
  "on_channel f env tid w =
     bindr (f (loop_updateChannel (ctl env) tid) (M_channel (w_conn w)) (w_heap w) (w_loop w)) (\<lambda>(h, l).
       Inr (w\<lparr>w_heap := h, w_loop := l\<rparr>))"

definition conn_inLoopThread :: "int \<Rightarrow> ('u, 's) conn_world \<Rightarrow> bool" where
  "conn_inLoopThread tid w \<longleftrightarrow> isInLoopThread tid (w_loop w)"

text \<open>\<^verbatim>\<open>M_loop->queueInLoop\<close> and \<^verbatim>\<open>M_loop->runInLoop\<close> of a function bound to the connection.\<close>

definition conn_queueInLoop :: "int \<Rightarrow> 'u conn_task \<Rightarrow> ('u, 's) conn_world \<Rightarrow> ('u, 's) conn_world" where
  "conn_queueInLoop tid t w =
     w\<lparr>w_loop := queueInLoop tid (User (ConnTask (M_connSelf (w_conn w)) t)) (w_loop w)\<rparr>"

definition conn_runInLoop :: "int \<Rightarrow> 'u conn_task \<Rightarrow> (('u, 's) conn_world \<Rightarrow> ('u, 's) conn_world res) \<Rightarrow>
    ('u, 's) conn_world \<Rightarrow> ('u, 's) conn_world res" where
  "conn_runInLoop tid t run w =
     (if conn_inLoopThread tid w then run w else Inr (conn_queueInLoop tid t w))"

section \<open>Construction\<close>

definition new_TcpConnection :: "nat \<Rightarrow> nat \<Rightarrow> string \<Rightarrow> int \<Rightarrow> sockaddr \<Rightarrow> sockaddr \<Rightarrow> nat \<Rightarrow>
    ('u tcp_connection \<times> 'u net_functor channel \<times> syscall list) res" where
  "new_TcpConnection this ioLoop nameArg sockfd localAddr peerAddr chan =
     bindr (new_Buffer kInitialSize) (\<lambda>inputBuf.
     bindr (new_Buffer kInitialSize) (\<lambda>outputBuf.
       Inr (\<lparr>M_connSelf = this, M_connName = nameArg, M_state = kConnecting, M_socket = sockfd,
              M_channel = chan, M_localAddr = localAddr, M_peerAddr = peerAddr,
              M_connectionCallback = None, M_messageCallback = None, M_writeCompleteCallback = None,
              M_highWaterMarkCallback = None, M_connCloseCallback = None,
              M_highWaterMark = 64 * 1024 * 1024, M_inputBuffer = inputBuf,
              M_outputBuffer = outputBuf, M_context = None, M_reading = True\<rparr>,
            setErrorCallback (User (ConnTask this ConnError))
              (setCloseCallback (User (ConnTask this ConnClose))
                (setWriteCallback (User (ConnTask this ConnWrite))
                  (setReadCallback (User (ConnTask this ConnRead)) (new_Channel ioLoop sockfd)))),
            setKeepAlive sockfd True)))"

text \<open>The destructor, and those of \<^verbatim>\<open>M_channel\<close> and \<^verbatim>\<open>M_socket\<close>.\<close>

definition delete_TcpConnection :: "int \<Rightarrow> ('u, 's) conn_world \<Rightarrow> ('u, 's) conn_world res" where
  "delete_TcpConnection tid w =
     assertr (M_state (w_conn w) = kDisconnected) ''M_state == kDisconnected''
       (let a = M_channel (w_conn w) in
        the_channel w (\<lambda>ch.
          bindr (delete_Channel (conn_inLoopThread tid w) (loop_hasChannel tid a (w_heap w) (w_loop w)) ch) (\<lambda>_.
            Inr (w\<lparr>w_heap := (w_heap w)(a := None), w_syscalls := w_syscalls w @ delete_Socket (M_socket (w_conn w))\<rparr>))))"

definition name_of_conn :: "'u tcp_connection \<Rightarrow> string" where "name_of_conn c = M_connName c"
definition localAddress :: "'u tcp_connection \<Rightarrow> sockaddr" where "localAddress c = M_localAddr c"
definition peerAddress :: "'u tcp_connection \<Rightarrow> sockaddr" where "peerAddress c = M_peerAddr c"
definition conn_isReading :: "'u tcp_connection \<Rightarrow> bool" where "conn_isReading c = M_reading c"

definition conn_setContext :: "any \<Rightarrow> 'u tcp_connection \<Rightarrow> 'u tcp_connection" where
  "conn_setContext context c = c\<lparr>M_context := context\<rparr>"

definition conn_getContext :: "'u tcp_connection \<Rightarrow> any" where "conn_getContext c = M_context c"

text \<open>\<^verbatim>\<open>getMutableContext\<close>, \<^verbatim>\<open>inputBuffer\<close> and \<^verbatim>\<open>outputBuffer\<close> give pointers to members; \<open>f\<close> is what is
  done through them.\<close>

definition conn_getMutableContext :: "(any \<Rightarrow> any) \<Rightarrow> 'u tcp_connection \<Rightarrow> 'u tcp_connection" where
  "conn_getMutableContext f c = c\<lparr>M_context := f (M_context c)\<rparr>"

definition inputBuffer :: "(buffer \<Rightarrow> buffer) \<Rightarrow> 'u tcp_connection \<Rightarrow> 'u tcp_connection" where
  "inputBuffer f c = c\<lparr>M_inputBuffer := f (M_inputBuffer c)\<rparr>"

definition outputBuffer :: "(buffer \<Rightarrow> buffer) \<Rightarrow> 'u tcp_connection \<Rightarrow> 'u tcp_connection" where
  "outputBuffer f c = c\<lparr>M_outputBuffer := f (M_outputBuffer c)\<rparr>"

definition connected :: "'u tcp_connection \<Rightarrow> bool" where
  "connected c \<longleftrightarrow> M_state c = kConnected"

definition disconnected :: "'u tcp_connection \<Rightarrow> bool" where
  "disconnected c \<longleftrightarrow> M_state c = kDisconnected"

definition setConnectionCallback :: "'u \<Rightarrow> 'u tcp_connection \<Rightarrow> 'u tcp_connection" where
  "setConnectionCallback cb c = c\<lparr>M_connectionCallback := Some cb\<rparr>"

definition setMessageCallback :: "'u \<Rightarrow> 'u tcp_connection \<Rightarrow> 'u tcp_connection" where
  "setMessageCallback cb c = c\<lparr>M_messageCallback := Some cb\<rparr>"

text \<open>The servers and clients pass on a callback that may be empty.\<close>

definition setWriteCompleteCallback :: "'u option \<Rightarrow> 'u tcp_connection \<Rightarrow> 'u tcp_connection" where
  "setWriteCompleteCallback cb c = c\<lparr>M_writeCompleteCallback := cb\<rparr>"

definition setHighWaterMarkCallback :: "'u \<Rightarrow> size_t \<Rightarrow> 'u tcp_connection \<Rightarrow> 'u tcp_connection" where
  "setHighWaterMarkCallback cb highWaterMark c =
     c\<lparr>M_highWaterMarkCallback := Some cb, M_highWaterMark := highWaterMark\<rparr>"

definition conn_setCloseCallback :: "'u \<Rightarrow> 'u tcp_connection \<Rightarrow> 'u tcp_connection" where
  "conn_setCloseCallback cb c = c\<lparr>M_connCloseCallback := Some cb\<rparr>"

definition stateToString :: "'u tcp_connection \<Rightarrow> string" where
  "stateToString c =
     (case M_state c of
        kDisconnected \<Rightarrow> ''kDisconnted''
      | kConnecting \<Rightarrow> ''kConnecting''
      | kConnected \<Rightarrow> ''kConnected''
      | kDisconnecting \<Rightarrow> ''kDisconnecting'')"

definition setTcpNoDelay :: "bool \<Rightarrow> ('u, 's) conn_world \<Rightarrow> ('u, 's) conn_world" where
  "setTcpNoDelay on w =
     w\<lparr>w_syscalls := w_syscalls w @ Socket_setTcpNoDelay (M_socket (w_conn w)) on\<rparr>"

section \<open>Sending\<close>

text \<open>The bytes of \<^verbatim>\<open>peek()\<close>, \<^verbatim>\<open>readableBytes()\<close> of a buffer.\<close>

definition readable_range :: "buffer \<Rightarrow> byte list" where
  "readable_range b = take (unat (readableBytes b)) (drop (unat (peek b)) (M_buffer b))"

text \<open>The direct write: the bytes written, the bytes that remain and \<^verbatim>\<open>faultError\<close>.\<close>

definition write_directly :: "('u, 's) conn_env \<Rightarrow> int \<Rightarrow> int \<Rightarrow> byte list \<Rightarrow> size_t \<Rightarrow> ('u, 's) conn_world \<Rightarrow>
    nat \<times> size_t \<times> bool \<times> ('u, 's) conn_world" where
  "write_directly env tid fd data len w =
     (case sys_write env fd (take (unat len) data) of
        Inr nwrote \<Rightarrow>
          let remaining = len - word_of_nat nwrote;
              w = w\<lparr>w_wire := w_wire w @ take nwrote data\<rparr>
          in (nwrote, remaining, False,
              (case M_writeCompleteCallback (w_conn w) of
                 Some cb \<Rightarrow> if remaining = 0 then conn_queueInLoop tid (CallUser cb OnWriteComplete) w else w
               | None \<Rightarrow> w))
      | Inl err \<Rightarrow> (0, len, err \<noteq> EWOULDBLOCK \<and> (err = EPIPE \<or> err = ECONNRESET), w))"

definition announce_highWater :: "int \<Rightarrow> size_t \<Rightarrow> ('u, 's) conn_world \<Rightarrow> ('u, 's) conn_world" where
  "announce_highWater tid remaining w =
     (let c = w_conn w; oldLen = readableBytes (M_outputBuffer c) in
      case M_highWaterMarkCallback c of
        Some cb \<Rightarrow>
          if M_highWaterMark c \<le> oldLen + remaining \<and> oldLen < M_highWaterMark c
          then conn_queueInLoop tid (CallUser cb (OnHighWaterMark (oldLen + remaining))) w else w
      | None \<Rightarrow> w)"

definition buffer_rest :: "('u, 's) conn_env \<Rightarrow> int \<Rightarrow> byte list \<Rightarrow> size_t \<Rightarrow> ('u, 's) conn_world \<Rightarrow>
    ('u, 's) conn_world res" where
  "buffer_rest env tid rest remaining w =
     (let w = announce_highWater tid remaining w in
      bindr (append_buf rest remaining (M_outputBuffer (w_conn w))) (\<lambda>b.
        let w = set_conn (\<lambda>c. c\<lparr>M_outputBuffer := b\<rparr>) w in
        the_channel w (\<lambda>ch. if \<not> isWriting ch then on_channel enableWriting env tid w else Inr w)))"

definition sendInLoop :: "('u, 's) conn_env \<Rightarrow> int \<Rightarrow> byte list \<Rightarrow> size_t \<Rightarrow> ('u, 's) conn_world \<Rightarrow>
    ('u, 's) conn_world res" where
  "sendInLoop env tid data len w =
     assertInLoopThread (conn_inLoopThread tid w)
       (if M_state (w_conn w) = kDisconnected then Inr w
        else the_channel w (\<lambda>ch.
          let (nwrote, remaining, faultError, w) =
                (if \<not> isWriting ch \<and> readableBytes (M_outputBuffer (w_conn w)) = 0
                 then write_directly env tid (M_fd ch) data len w else (0, len, False, w))
          in assertr (remaining \<le> len) ''remaining <= len''
               (if \<not> faultError \<and> 0 < remaining then buffer_rest env tid (drop nwrote data) remaining w
                else Inr w)))"

text \<open>A string piece is the bytes its pointer addresses and its \<^verbatim>\<open>int\<close> length.\<close>

definition sendInLoop_piece :: "('u, 's) conn_env \<Rightarrow> int \<Rightarrow> byte list \<times> int32 \<Rightarrow> ('u, 's) conn_world \<Rightarrow>
    ('u, 's) conn_world res" where
  "sendInLoop_piece env tid message w = sendInLoop env tid (fst message) (scast (snd message)) w"

definition as_string :: "byte list \<times> int32 \<Rightarrow> byte list" where
  "as_string message = take (unat (scast (snd message) :: size_t)) (fst message)"

definition piece_of :: "byte list \<Rightarrow> byte list \<times> int32" where
  "piece_of s = (s, word_of_nat (length s))"

definition send_piece :: "('u, 's) conn_env \<Rightarrow> int \<Rightarrow> byte list \<times> int32 \<Rightarrow> ('u, 's) conn_world \<Rightarrow>
    ('u, 's) conn_world res" where
  "send_piece env tid message w =
     (if M_state (w_conn w) = kConnected then
        if conn_inLoopThread tid w then sendInLoop_piece env tid message w
        else Inr (conn_queueInLoop tid (SendInLoop (as_string message)) w)
      else Inr w)"

definition send_data :: "('u, 's) conn_env \<Rightarrow> int \<Rightarrow> byte list \<Rightarrow> int32 \<Rightarrow> ('u, 's) conn_world \<Rightarrow>
    ('u, 's) conn_world res" where
  "send_data env tid data len w = send_piece env tid (data, len) w"

definition send_buffer :: "('u, 's) conn_env \<Rightarrow> int \<Rightarrow> buffer \<Rightarrow> ('u, 's) conn_world \<Rightarrow>
    (buffer \<times> ('u, 's) conn_world) res" where
  "send_buffer env tid buf w =
     (if M_state (w_conn w) = kConnected then
        if conn_inLoopThread tid w then
          bindr (sendInLoop env tid (readable_range buf) (readableBytes buf) w) (\<lambda>w.
            Inr (retrieveAll buf, w))
        else
          bindr (retrieveAsString (readableBytes buf) buf) (\<lambda>(s, buf).
            Inr (buf, conn_queueInLoop tid (SendInLoop s) w))
      else Inr (buf, w))"

section \<open>Closing\<close>

definition shutdownInLoop :: "int \<Rightarrow> ('u, 's) conn_world \<Rightarrow> ('u, 's) conn_world res" where
  "shutdownInLoop tid w =
     assertInLoopThread (conn_inLoopThread tid w)
       (the_channel w (\<lambda>ch.
          if \<not> isWriting ch
          then Inr (w\<lparr>w_syscalls := w_syscalls w @ Socket_shutdownWrite (M_socket (w_conn w))\<rparr>)
          else Inr w))"

definition shutdown :: "int \<Rightarrow> ('u, 's) conn_world \<Rightarrow> ('u, 's) conn_world res" where
  "shutdown tid w =
     (if M_state (w_conn w) = kConnected
      then conn_runInLoop tid ShutdownInLoop (shutdownInLoop tid) (setState kDisconnecting w)
      else Inr w)"

definition forceClose :: "int \<Rightarrow> ('u, 's) conn_world \<Rightarrow> ('u, 's) conn_world" where
  "forceClose tid w =
     (if M_state (w_conn w) = kConnected \<or> M_state (w_conn w) = kDisconnecting
      then conn_queueInLoop tid ForceCloseInLoop (setState kDisconnecting w) else w)"

definition forceCloseWithDelay :: "'u net_task timer_env \<Rightarrow> int \<Rightarrow> double \<Rightarrow> ('u, 's) conn_world \<Rightarrow>
    ('u, 's) conn_world res" where
  "forceCloseWithDelay tenv tid seconds w =
     (if M_state (w_conn w) = kConnected \<or> M_state (w_conn w) = kDisconnecting
      then let w = setState kDisconnecting w in
           bindr (runAfter tenv tid seconds (ConnTask (M_connSelf (w_conn w)) WeakForceClose) (w_loop w))
             (\<lambda>(timerId, l). Inr (w\<lparr>w_loop := l\<rparr>))
      else Inr w)"

section \<open>Reading switched on and off\<close>

definition startReadInLoop :: "('u, 's) conn_env \<Rightarrow> int \<Rightarrow> ('u, 's) conn_world \<Rightarrow> ('u, 's) conn_world res" where
  "startReadInLoop env tid w =
     assertInLoopThread (conn_inLoopThread tid w)
       (the_channel w (\<lambda>ch.
          if \<not> M_reading (w_conn w) \<or> \<not> isReading ch then
            bindr (on_channel enableReading env tid w) (\<lambda>w.
              Inr (set_conn (\<lambda>c. c\<lparr>M_reading := True\<rparr>) w))
          else Inr w))"

definition startRead :: "('u, 's) conn_env \<Rightarrow> int \<Rightarrow> ('u, 's) conn_world \<Rightarrow> ('u, 's) conn_world res" where
  "startRead env tid w = conn_runInLoop tid StartReadInLoop (startReadInLoop env tid) w"

definition stopReadInLoop :: "('u, 's) conn_env \<Rightarrow> int \<Rightarrow> ('u, 's) conn_world \<Rightarrow> ('u, 's) conn_world res" where
  "stopReadInLoop env tid w =
     assertInLoopThread (conn_inLoopThread tid w)
       (the_channel w (\<lambda>ch.
          if M_reading (w_conn w) \<or> isReading ch then
            bindr (on_channel disableReading env tid w) (\<lambda>w.
              Inr (set_conn (\<lambda>c. c\<lparr>M_reading := False\<rparr>) w))
          else Inr w))"

definition stopRead :: "('u, 's) conn_env \<Rightarrow> int \<Rightarrow> ('u, 's) conn_world \<Rightarrow> ('u, 's) conn_world res" where
  "stopRead env tid w = conn_runInLoop tid StopReadInLoop (stopReadInLoop env tid) w"

section \<open>User callbacks\<close>

primrec run_conn_prog :: "('u, 's) conn_env \<Rightarrow> int \<Rightarrow> 'u conn_prog \<Rightarrow> ('u, 's) conn_world \<Rightarrow>
    ('u, 's) conn_world res" where
  "run_conn_prog env tid CDone w = Inr w"
| "run_conn_prog env tid (CSend s k) w =
     bindr (send_piece env tid (piece_of s) w) (run_conn_prog env tid k)"
| "run_conn_prog env tid (CShutdown k) w = bindr (shutdown tid w) (run_conn_prog env tid k)"
| "run_conn_prog env tid (CForceClose k) w = run_conn_prog env tid k (forceClose tid w)"
| "run_conn_prog env tid (CStartRead k) w = bindr (startRead env tid w) (run_conn_prog env tid k)"
| "run_conn_prog env tid (CStopRead k) w = bindr (stopRead env tid w) (run_conn_prog env tid k)"
| "run_conn_prog env tid (CRetrieve k) w =
     bindr (retrieveAsString (readableBytes (M_inputBuffer (w_conn w))) (M_inputBuffer (w_conn w))) (\<lambda>(s, b).
       run_conn_prog env tid (k s) (set_conn (\<lambda>c. c\<lparr>M_inputBuffer := b\<rparr>) w))"
| "run_conn_prog env tid (CObserve k) w = run_conn_prog env tid (k (M_state (w_conn w))) w"

text \<open>The default callbacks: the first only logs, the second discards what was read.\<close>

definition defaultConnectionCallback :: "'u conn_prog" where
  "defaultConnectionCallback = CDone"

definition defaultMessageCallback :: "'u conn_prog" where
  "defaultMessageCallback = CRetrieve (\<lambda>_. CDone)"

lemma defaultMessageCallback_retrieves_all:
  "run_conn_prog env tid defaultMessageCallback w =
     Inr (set_conn (\<lambda>c. c\<lparr>M_inputBuffer := retrieveAll (M_inputBuffer c)\<rparr>) w)"
  by (simp add: defaultMessageCallback_def retrieveAsString_def retrieve_def set_conn_def)

definition call_user :: "('u, 's) conn_env \<Rightarrow> int \<Rightarrow> 'u \<Rightarrow> cb_event \<Rightarrow> ('u, 's) conn_world \<Rightarrow>
    ('u, 's) conn_world res" where
  "call_user env tid cb ev w =
     run_conn_prog env tid (cb_body env cb ev) (w\<lparr>w_called := w_called w @ [(cb, ev)]\<rparr>)"

definition call_callback :: "('u, 's) conn_env \<Rightarrow> int \<Rightarrow> string \<Rightarrow> 'u option \<Rightarrow> cb_event \<Rightarrow>
    ('u, 's) conn_world \<Rightarrow> ('u, 's) conn_world res" where
  "call_callback env tid what cb ev w =
     (case cb of None \<Rightarrow> Inl (BadFunctionCall what) | Some f \<Rightarrow> call_user env tid f ev w)"

section \<open>Events\<close>

definition connectEstablished :: "('u, 's) conn_env \<Rightarrow> int \<Rightarrow> ('u, 's) conn_world \<Rightarrow> ('u, 's) conn_world res" where
  "connectEstablished env tid w =
     assertInLoopThread (conn_inLoopThread tid w)
       (assertr (M_state (w_conn w) = kConnecting) ''M_state == kConnecting''
         (let w = setState kConnected w in
          the_channel w (\<lambda>ch.
            let w = w\<lparr>w_heap := (w_heap w)(M_channel (w_conn w) \<mapsto> tie (M_connSelf (w_conn w)) ch)\<rparr> in
            bindr (on_channel enableReading env tid w) (\<lambda>w.
              call_callback env tid ''M_connectionCallback'' (M_connectionCallback (w_conn w)) OnConnection w))))"

definition handleClose :: "('u, 's) conn_env \<Rightarrow> int \<Rightarrow> ('u, 's) conn_world \<Rightarrow> ('u, 's) conn_world res" where
  "handleClose env tid w =
     assertInLoopThread (conn_inLoopThread tid w)
       (assertr (M_state (w_conn w) = kConnected \<or> M_state (w_conn w) = kDisconnecting)
          ''M_state == kConnected || M_state == kDisconnecting''
         (bindr (on_channel disableAll env tid (setState kDisconnected w)) (\<lambda>w.
          bindr (call_callback env tid ''M_connectionCallback'' (M_connectionCallback (w_conn w)) OnConnection w) (\<lambda>w.
            case M_connCloseCallback (w_conn w) of
              None \<Rightarrow> Inl (BadFunctionCall ''M_closeCallback'')
            | Some f \<Rightarrow> close_body env f w))))"

definition forceCloseInLoop :: "('u, 's) conn_env \<Rightarrow> int \<Rightarrow> ('u, 's) conn_world \<Rightarrow> ('u, 's) conn_world res" where
  "forceCloseInLoop env tid w =
     assertInLoopThread (conn_inLoopThread tid w)
       (if M_state (w_conn w) = kConnected \<or> M_state (w_conn w) = kDisconnecting
        then handleClose env tid w else Inr w)"

text \<open>\<^verbatim>\<open>handleError\<close> reads the error of the socket and logs it.\<close>

definition handleError :: "('u, 's) conn_world \<Rightarrow> ('u, 's) conn_world res" where
  "handleError w = the_channel w (\<lambda>ch. Inr w)"

definition conn_handleRead :: "('u, 's) conn_env \<Rightarrow> int \<Rightarrow> timestamp \<Rightarrow> ('u, 's) conn_world \<Rightarrow>
    ('u, 's) conn_world res" where
  "conn_handleRead env tid receiveTime w =
     assertInLoopThread (conn_inLoopThread tid w)
       (the_channel w (\<lambda>ch.
          bindr (readFd (sys_readv env) (M_fd ch) (M_inputBuffer (w_conn w))) (\<lambda>(n, savedErrno, b).
            let w = set_conn (\<lambda>c. c\<lparr>M_inputBuffer := b\<rparr>) w in
            if 0 < n then
              call_callback env tid ''M_messageCallback'' (M_messageCallback (w_conn w)) (OnMessage receiveTime) w
            else if n = 0 then handleClose env tid w
            else handleError w)))"

definition handleWrite :: "('u, 's) conn_env \<Rightarrow> int \<Rightarrow> ('u, 's) conn_world \<Rightarrow> ('u, 's) conn_world res" where
  "handleWrite env tid w =
     assertInLoopThread (conn_inLoopThread tid w)
       (the_channel w (\<lambda>ch.
          if isWriting ch then
            let out = M_outputBuffer (w_conn w) in
            case sys_write env (M_fd ch) (readable_range out) of
              Inl err \<Rightarrow> Inr w
            | Inr n \<Rightarrow>
                if 0 < n then
                  let w = (set_conn (\<lambda>c. c\<lparr>M_outputBuffer := retrieveAll out\<rparr>) w)
                            \<lparr>w_wire := w_wire w @ take n (readable_range out)\<rparr> in
                  if readableBytes (M_outputBuffer (w_conn w)) = 0 then
                    bindr (on_channel disableWriting env tid w) (\<lambda>w.
                      let w = (case M_writeCompleteCallback (w_conn w) of
                                 Some cb \<Rightarrow> conn_queueInLoop tid (CallUser cb OnWriteComplete) w
                               | None \<Rightarrow> w)
                      in if M_state (w_conn w) = kDisconnecting then shutdownInLoop tid w else Inr w)
                  else Inr w
                else Inr w
          else Inr w))"

text \<open>A function bound to the connection, run by the loop. \<^verbatim>\<open>connectDestroyed\<close> is declared but not
  defined; its effect is the argument \<open>destroyed\<close>.\<close>

fun run_conn_task :: "('u, 's) conn_env \<Rightarrow> int \<Rightarrow> (('u, 's) conn_world \<Rightarrow> ('u, 's) conn_world res) \<Rightarrow>
    'u conn_task \<Rightarrow> ('u, 's) conn_world \<Rightarrow> ('u, 's) conn_world res" where
  "run_conn_task env tid destroyed (SendInLoop s) w = sendInLoop_piece env tid (piece_of s) w"
| "run_conn_task env tid destroyed ShutdownInLoop w = shutdownInLoop tid w"
| "run_conn_task env tid destroyed ForceCloseInLoop w = forceCloseInLoop env tid w"
| "run_conn_task env tid destroyed WeakForceClose w = Inr (forceClose tid w)"
| "run_conn_task env tid destroyed StartReadInLoop w = startReadInLoop env tid w"
| "run_conn_task env tid destroyed StopReadInLoop w = stopReadInLoop env tid w"
| "run_conn_task env tid destroyed ConnectEstablished w = connectEstablished env tid w"
| "run_conn_task env tid destroyed ConnectDestroyed w = destroyed w"
| "run_conn_task env tid destroyed (SetCloseCallback cb) w = Inr (set_conn (conn_setCloseCallback cb) w)"
| "run_conn_task env tid destroyed (CallUser cb ev) w = call_user env tid cb ev w"
| "run_conn_task env tid destroyed ConnRead w = conn_handleRead env tid (M_pollReturnTime (w_loop w)) w"
| "run_conn_task env tid destroyed ConnWrite w = handleWrite env tid w"
| "run_conn_task env tid destroyed ConnClose w = handleClose env tid w"
| "run_conn_task env tid destroyed ConnError w = handleError w"

section \<open>The invariant\<close>

text \<open>The registration of the connection's channel \<open>ch\<close>.\<close>

definition conn_reg :: "int \<Rightarrow> ('u, 's) conn_world \<Rightarrow> 'u net_functor channel \<Rightarrow> bool" where
  "conn_reg tid w ch \<longleftrightarrow>
     loop_reg tid (w_heap w) (w_loop w) \<and> w_heap w (M_channel (w_conn w)) = Some ch \<and>
     M_fd ch = M_socket (w_conn w) \<and> 0 \<le> M_fd ch \<and>
     fits (loop_channels (w_loop w)) (M_channel (w_conn w)) ch"

text \<open>Bytes wait in the output buffer exactly while the channel asks to write; a connection that is
  down does not ask.\<close>

definition writing_ok :: "StateE \<Rightarrow> bool \<Rightarrow> byte list \<Rightarrow> bool" where
  "writing_ok st writing out \<longleftrightarrow> (if st = kDisconnected then \<not> writing else writing = (out \<noteq> []))"

definition conn_inv :: "int \<Rightarrow> ('u, 's) conn_world \<Rightarrow> bool" where
  "conn_inv tid w \<longleftrightarrow>
     buf_inv (M_inputBuffer (w_conn w)) \<and> buf_inv (M_outputBuffer (w_conn w)) \<and>
     (\<exists>ch. conn_reg tid w ch \<and>
        writing_ok (M_state (w_conn w)) (isWriting ch) (contents (M_outputBuffer (w_conn w))))"

text \<open>The bytes sent so far: those the kernel took and those that wait.\<close>

definition stream :: "('u, 's) conn_world \<Rightarrow> byte list" where
  "stream w = w_wire w @ contents (M_outputBuffer (w_conn w))"

definition write_bounded :: "(int \<Rightarrow> byte list \<Rightarrow> int + nat) \<Rightarrow> bool" where
  "write_bounded wr \<longleftrightarrow> (\<forall>fd data n. wr fd data = Inr n \<longrightarrow> n \<le> length data)"

definition env_ok :: "('u, 's) conn_env \<Rightarrow> bool" where
  "env_ok env \<longleftrightarrow> epoll_documented (ctl env) \<and> write_bounded (sys_write env) \<and> readv_bounded (sys_readv env)"

lemma conn_regD:
  assumes "conn_reg tid w ch"
  shows "the_channel w k = k ch" and "conn_inLoopThread tid w"
  using assms by (simp_all add: conn_reg_def the_channel_def conn_inLoopThread_def loop_reg_def isInLoopThread_def)

lemma conn_reg_cong:
  assumes "conn_reg tid w ch" and "w_heap w' = w_heap w" and "w_loop w' = w_loop w"
    and "M_channel (w_conn w') = M_channel (w_conn w)" and "M_socket (w_conn w') = M_socket (w_conn w)"
  shows "conn_reg tid w' ch"
  using assms by (simp add: conn_reg_def)

text \<open>Changes that leave the registration alone.\<close>

lemma conn_reg_simps [simp]:
  "conn_reg tid (w\<lparr>w_wire := x\<rparr>) ch = conn_reg tid w ch"
  "conn_reg tid (w\<lparr>w_syscalls := y\<rparr>) ch = conn_reg tid w ch"
  "conn_reg tid (w\<lparr>w_called := z\<rparr>) ch = conn_reg tid w ch"
  "conn_reg tid (conn_queueInLoop t task w) ch = conn_reg tid w ch"
  "conn_reg tid (setState st w) ch = conn_reg tid w ch"
  "conn_reg tid (set_conn (\<lambda>c. c\<lparr>M_outputBuffer := b\<rparr>) w) ch = conn_reg tid w ch"
  "conn_reg tid (set_conn (\<lambda>c. c\<lparr>M_inputBuffer := b\<rparr>) w) ch = conn_reg tid w ch"
  "conn_reg tid (set_conn (\<lambda>c. c\<lparr>M_reading := r\<rparr>) w) ch = conn_reg tid w ch"
  by (simp_all add: conn_reg_def conn_queueInLoop_def setState_def set_conn_def)

lemma conn_queue_simps [simp]:
  "w_conn (conn_queueInLoop t task w) = w_conn w" "w_wire (conn_queueInLoop t task w) = w_wire w"
  "w_heap (conn_queueInLoop t task w) = w_heap w" "w_called (conn_queueInLoop t task w) = w_called w"
  "w_syscalls (conn_queueInLoop t task w) = w_syscalls w" "w_rest (conn_queueInLoop t task w) = w_rest w"
  by (simp_all add: conn_queueInLoop_def)

lemma setState_simps [simp]:
  "w_conn (setState st w) = (w_conn w)\<lparr>M_state := st\<rparr>" "w_heap (setState st w) = w_heap w"
  "w_loop (setState st w) = w_loop w" "w_wire (setState st w) = w_wire w" "w_rest (setState st w) = w_rest w"
  "w_syscalls (setState st w) = w_syscalls w" "w_called (setState st w) = w_called w"
  by (simp_all add: setState_def set_conn_def)

lemma set_conn_simps [simp]:
  "w_conn (set_conn f w) = f (w_conn w)" "w_heap (set_conn f w) = w_heap w"
  "w_loop (set_conn f w) = w_loop w" "w_wire (set_conn f w) = w_wire w" "w_rest (set_conn f w) = w_rest w"
  "w_syscalls (set_conn f w) = w_syscalls w" "w_called (set_conn f w) = w_called w"
  by (simp_all add: set_conn_def)

lemma announce_simps [simp]:
  "conn_reg tid (announce_highWater t r w) ch = conn_reg tid w ch"
  "w_conn (announce_highWater t r w) = w_conn w" "w_wire (announce_highWater t r w) = w_wire w"
  "w_called (announce_highWater t r w) = w_called w" "w_syscalls (announce_highWater t r w) = w_syscalls w"
  "w_rest (announce_highWater t r w) = w_rest w" "w_heap (announce_highWater t r w) = w_heap w"
  by (simp_all add: announce_highWater_def Let_def split: option.split)

text \<open>Switching events on or off: the channel keeps everything but its events and its index.\<close>

lemma on_channel_ok:
  assumes reg: "conn_reg tid w ch" and env: "env_ok env"
    and f: "f (loop_updateChannel (ctl env) tid) = set_events (loop_updateChannel (ctl env) tid) g"
  shows "\<exists>h l i. on_channel f env tid w = Inr (w\<lparr>w_heap := h, w_loop := l\<rparr>) \<and>
    conn_reg tid (w\<lparr>w_heap := h, w_loop := l\<rparr>) (watched_channel ch (g (M_events ch)) i)"
proof -
  let ?a = "M_channel (w_conn w)"
  note r = reg [unfolded conn_reg_def]
  from env have ctl: "epoll_documented (ctl env)" by (simp add: env_ok_def)
  from loop_set_events_ok [OF ctl, of tid "w_heap w" "w_loop w" ?a ch g] r obtain p i where
    1: "set_events (loop_updateChannel (ctl env) tid) g ?a (w_heap w) (w_loop w) =
        Inr (watch (w_heap w) ?a ch (g (M_events ch)) i, (w_loop w)\<lparr>M_poller := p\<rparr>)"
      "loop_reg tid (watch (w_heap w) ?a ch (g (M_events ch)) i) ((w_loop w)\<lparr>M_poller := p\<rparr>)"
      "virtual_channels p = (loop_channels (w_loop w))(M_fd ch \<mapsto> ?a)" by auto
  then show ?thesis using r
    by (intro exI [of _ "watch (w_heap w) ?a ch (g (M_events ch)) i"] exI [of _ "(w_loop w)\<lparr>M_poller := p\<rparr>"] exI [of _ i])
      (simp add: on_channel_def f conn_reg_def fits_watched loop_channels_def)
qed

lemmas event_ops = enableReading_def disableReading_def enableWriting_def disableWriting_def disableAll_def

lemma writing_bits [simp]:
  "isWriting (watched_channel ch (ev OR kWriteEvent) i)"
  "\<not> isWriting (watched_channel ch (ev AND NOT kWriteEvent) i)"
  "\<not> isWriting (watched_channel ch kNoneEvent i)"
  "isWriting (watched_channel ch (M_events ch OR kReadEvent) i) = isWriting ch"
  "isWriting (watched_channel ch (M_events ch AND NOT kReadEvent) i) = isWriting ch"
proof -
  have out: "has_bits ev 4 \<longleftrightarrow> bit ev 2" for ev
    using bit_iff_and_push_bit_not_eq_0 [of ev 2] by (simp add: has_bits_def event_masks)
  show "isWriting (watched_channel ch (ev OR kWriteEvent) i)"
    "\<not> isWriting (watched_channel ch (ev AND NOT kWriteEvent) i)"
    "\<not> isWriting (watched_channel ch kNoneEvent i)"
    "isWriting (watched_channel ch (M_events ch OR kReadEvent) i) = isWriting ch"
    "isWriting (watched_channel ch (M_events ch AND NOT kReadEvent) i) = isWriting ch"
    by (simp_all add: isWriting_def out event_masks bit_simps)
qed

lemma readable_range_contents: "buf_inv b \<Longrightarrow> readable_range b = contents b"
  by (simp add: readable_range_def contents_def window_def peek_def)

lemma readable_zero: "buf_inv b \<Longrightarrow> readableBytes b = 0 \<longleftrightarrow> contents b = []"
  using length_contents_readable [of b] by (metis length_0_conv unat_eq_zero)

lemma conn_invI:
  assumes "conn_reg tid w ch" and "buf_inv (M_inputBuffer (w_conn w))" and "buf_inv (M_outputBuffer (w_conn w))"
    and "writing_ok (M_state (w_conn w)) (isWriting ch) (contents (M_outputBuffer (w_conn w)))"
  shows "conn_inv tid w"
  using assms by (auto simp: conn_inv_def)

lemma conn_invE:
  assumes "conn_inv tid w"
  obtains ch where "conn_reg tid w ch" "buf_inv (M_inputBuffer (w_conn w))" "buf_inv (M_outputBuffer (w_conn w))"
    "writing_ok (M_state (w_conn w)) (isWriting ch) (contents (M_outputBuffer (w_conn w)))"
  using assms by (auto simp: conn_inv_def)

section \<open>What an operation leaves alone\<close>

text \<open>\<open>same_conn w w'\<close>: the parts of the connection that only its owner sets.\<close>

definition same_conn :: "'u tcp_connection \<Rightarrow> 'u tcp_connection \<Rightarrow> bool" where
  "same_conn c c' \<longleftrightarrow> M_connSelf c' = M_connSelf c \<and> M_socket c' = M_socket c \<and> M_channel c' = M_channel c \<and>
     M_connectionCallback c' = M_connectionCallback c \<and> M_messageCallback c' = M_messageCallback c \<and>
     M_connCloseCallback c' = M_connCloseCallback c"

lemma same_conn_refl [simp]: "same_conn c c"
  by (simp add: same_conn_def)

lemma same_conn_trans: "same_conn c d \<Longrightarrow> same_conn d e \<Longrightarrow> same_conn c e"
  by (simp add: same_conn_def)

section \<open>Sending\<close>

lemma buffer_rest_ok:
  assumes reg: "conn_reg tid w ch" and bufs: "buf_inv (M_inputBuffer (w_conn w))" "buf_inv (M_outputBuffer (w_conn w))"
    and env: "env_ok env" and rest: "length rest = unat remaining" "unat remaining \<le> max_size" "rest \<noteq> []"
    and st: "M_state (w_conn w) \<noteq> kDisconnected"
  shows "(\<exists>w'. buffer_rest env tid rest remaining w = Inr w' \<and> conn_inv tid w' \<and> stream w' = stream w @ rest \<and>
      same_conn (w_conn w) (w_conn w') \<and> M_state (w_conn w') = M_state (w_conn w) \<and>
      w_called w' = w_called w \<and> w_syscalls w' = w_syscalls w) \<or>
    buffer_rest env tid rest remaining w = Inl LengthError \<and>
      max_size < unat (M_writerIndex (M_outputBuffer (w_conn w))) + unat remaining"
proof -
  let ?w = "announce_highWater tid remaining w"
  have "append_buf rest remaining (M_outputBuffer (w_conn w)) = Inl LengthError \<and>
      max_size < unat (M_writerIndex (M_outputBuffer (w_conn w))) + unat remaining \<or>
    (\<exists>b. append_buf rest remaining (M_outputBuffer (w_conn w)) = Inr b \<and> buf_inv b \<and>
      contents b = contents (M_outputBuffer (w_conn w)) @ rest)"
    using append_buf_cases [OF bufs(2), of remaining rest] rest by auto
  then show ?thesis
  proof (elim disjE exE conjE)
    assume "append_buf rest remaining (M_outputBuffer (w_conn w)) = Inl LengthError"
      "max_size < unat (M_writerIndex (M_outputBuffer (w_conn w))) + unat remaining"
    then show ?thesis by (simp add: buffer_rest_def)
  next
    fix b assume b: "append_buf rest remaining (M_outputBuffer (w_conn w)) = Inr b" "buf_inv b"
      "contents b = contents (M_outputBuffer (w_conn w)) @ rest"
    let ?v = "set_conn (\<lambda>c. c\<lparr>M_outputBuffer := b\<rparr>) ?w"
    have v: "conn_reg tid ?v ch" using reg by simp
    have run: "buffer_rest env tid rest remaining w =
        (if \<not> isWriting ch then on_channel enableWriting env tid ?v else Inr ?v)"
      using b(1) by (simp add: buffer_rest_def conn_regD(1) [OF v])
    from on_channel_ok [OF v env, of enableWriting "\<lambda>ev. ev OR kWriteEvent"] obtain h l i where
      on: "on_channel enableWriting env tid ?v = Inr (?v\<lparr>w_heap := h, w_loop := l\<rparr>)"
        "conn_reg tid (?v\<lparr>w_heap := h, w_loop := l\<rparr>) (watched_channel ch (M_events ch OR kWriteEvent) i)"
      by (auto simp: enableWriting_def)
    have inv: "conn_inv tid u" if "conn_reg tid u d" "isWriting d" "w_conn u = w_conn ?v" for u d
      using that bufs(1) b(2,3) rest(3) st
      by (intro conn_invI [OF that(1)]) (simp_all add: writing_ok_def set_conn_def)
    show ?thesis
    proof (cases "isWriting ch")
      case True
      with run inv [OF v] b(3) show ?thesis by (simp add: set_conn_def stream_def same_conn_def)
    next
      case False
      with run on(1) inv [OF on(2)] b(3) show ?thesis by (simp add: set_conn_def stream_def same_conn_def)
    qed
  qed
qed

text \<open>What a send adds: the states it may end in, and the growth of the stream.\<close>

definition sent_from :: "int \<Rightarrow> ('u, 's) conn_world \<Rightarrow> byte list \<Rightarrow> ('u, 's) conn_world \<Rightarrow> bool" where
  "sent_from tid w data w' \<longleftrightarrow> conn_inv tid w' \<and> stream w' = stream w @ data \<and>
     same_conn (w_conn w) (w_conn w') \<and> M_state (w_conn w') = M_state (w_conn w) \<and>
     w_called w' = w_called w \<and> w_syscalls w' = w_syscalls w"

lemma send_rest_ok:
  assumes inv: "conn_inv tid w" and env: "env_ok env" and rest: "length rest = unat remaining" "unat remaining \<le> max_size"
    and st: "M_state (w_conn w) \<noteq> kDisconnected"
  shows "(\<exists>w'. (if 0 < remaining then buffer_rest env tid rest remaining w else Inr w) = Inr w' \<and> sent_from tid w rest w') \<or>
    (if 0 < remaining then buffer_rest env tid rest remaining w else Inr w) = Inl LengthError \<and>
      max_size < unat (M_writerIndex (M_outputBuffer (w_conn w))) + length rest"
proof (cases "0 < remaining")
  case True
  then have "rest \<noteq> []" using rest(1) by (auto simp: word_less_nat_alt)
  with inv show ?thesis using buffer_rest_ok [OF _ _ _ env rest _ st] True rest(1)
    by (elim conn_invE) (auto simp: sent_from_def)
next
  case False
  then have "rest = []" using rest(1) by (simp add: word_less_nat_alt)
  with False inv show ?thesis by (simp add: sent_from_def)
qed

text \<open>The direct write, when nothing waits.\<close>

lemma write_directly_ok:
  assumes reg: "conn_reg tid w ch" and bufs: "buf_inv (M_inputBuffer (w_conn w))" "buf_inv (M_outputBuffer (w_conn w))"
    and env: "env_ok env" and idle: "\<not> isWriting ch" "contents (M_outputBuffer (w_conn w)) = []"
    and len: "length data = unat len" and n: "sys_write env (M_fd ch) data = Inr n"
  shows "\<exists>w1. write_directly env tid (M_fd ch) data len w = (n, len - word_of_nat n, False, w1) \<and>
    sent_from tid w (take n data) w1 \<and> w_conn w1 = w_conn w \<and> n \<le> length data \<and>
    unat (len - word_of_nat n) = length data - n"
proof -
  from env n have le: "n \<le> length data" by (auto simp: env_ok_def write_bounded_def)
  have small: "n < 18446744073709551616" using le len unat_size_less [of len] by linarith
  then have rem: "unat (len - word_of_nat n) = length data - n" using le len by (simp add: unat_simps)
  let ?w0 = "w\<lparr>w_wire := w_wire w @ take n data\<rparr>"
  have ok: "sent_from tid w (take n data) u" if "conn_reg tid u ch" "w_conn u = w_conn w" "w_wire u = w_wire w @ take n data"
      "w_called u = w_called w" "w_syscalls u = w_syscalls w" for u
    using that bufs idle by (auto simp: sent_from_def stream_def writing_ok_def intro!: conn_invI [OF that(1)])
  have take: "take (unat len) data = data" using len by simp
  show ?thesis
  proof (cases "M_writeCompleteCallback (w_conn w)")
    case None
    with ok [of ?w0] reg le rem show ?thesis
      by (intro exI [of _ ?w0]) (simp add: write_directly_def n take Let_def)
  next
    case (Some cb)
    let ?w1 = "if len - word_of_nat n = 0 then conn_queueInLoop tid (CallUser cb OnWriteComplete) ?w0 else ?w0"
    from Some ok [of ?w1] reg le rem show ?thesis
      by (intro exI [of _ ?w1]) (auto simp: write_directly_def n take Let_def)
  qed
qed

lemma sendInLoop_ok:
  assumes inv: "conn_inv tid w" and env: "env_ok env" and len: "length data = unat len" "unat len \<le> max_size"
    and st: "M_state (w_conn w) \<noteq> kDisconnected"
  shows "(\<exists>w'. sendInLoop env tid data len w = Inr w' \<and>
      (sent_from tid w data w' \<or>
       sent_from tid w [] w' \<and> contents (M_outputBuffer (w_conn w)) = [] \<and>
         (\<exists>err \<in> {EPIPE, ECONNRESET}. sys_write env (M_socket (w_conn w)) data = Inl err))) \<or>
    sendInLoop env tid data len w = Inl LengthError \<and>
      max_size < unat (M_writerIndex (M_outputBuffer (w_conn w))) + length data"
proof -
  from inv obtain ch where reg: "conn_reg tid w ch"
    and bufs: "buf_inv (M_inputBuffer (w_conn w))" "buf_inv (M_outputBuffer (w_conn w))"
    and wr: "isWriting ch = (contents (M_outputBuffer (w_conn w)) \<noteq> [])"
    using st by (auto simp: conn_inv_def writing_ok_def)
  have fd: "M_fd ch = M_socket (w_conn w)" using reg by (simp add: conn_reg_def)
  note unfold = sendInLoop_def conn_regD [OF reg] st assertInLoopThread_True
  note rest = send_rest_ok [OF inv env len st]
  show ?thesis
  proof (cases "contents (M_outputBuffer (w_conn w)) = []")
    case False
    then have "sendInLoop env tid data len w = (if 0 < len then buffer_rest env tid data len w else Inr w)"
      using wr by (simp add: unfold)
    with rest show ?thesis by auto
  next
    case True
    then have direct: "\<not> isWriting ch" "readableBytes (M_outputBuffer (w_conn w)) = 0"
      using wr readable_zero [OF bufs(2)] by simp_all
    show ?thesis
    proof (cases "sys_write env (M_fd ch) data")
      case (Inl err)
      let ?fault = "err \<noteq> EWOULDBLOCK \<and> (err = EPIPE \<or> err = ECONNRESET)"
      have "sendInLoop env tid data len w =
          (if \<not> ?fault \<and> 0 < len then buffer_rest env tid data len w else Inr w)"
        using direct Inl len by (simp add: unfold write_directly_def)
      moreover have "sent_from tid w [] w" using inv by (simp add: sent_from_def)
      ultimately show ?thesis using rest True Inl fd by (cases ?fault) auto
    next
      case (Inr n)
      from write_directly_ok [OF reg bufs env direct(1) True len(1) Inr] obtain w1 where
        1: "write_directly env tid (M_fd ch) data len w = (n, len - word_of_nat n, False, w1)"
          "sent_from tid w (take n data) w1" "w_conn w1 = w_conn w" "n \<le> length data"
          "unat (len - word_of_nat n) = length data - n" by blast
      have le: "len - word_of_nat n \<le> len" using 1(5) len(1) by (simp add: word_le_nat_alt)
      have inv1: "conn_inv tid w1" using 1(2) by (simp add: sent_from_def)
      have "sendInLoop env tid data len w =
          (if 0 < len - word_of_nat n then buffer_rest env tid (drop n data) (len - word_of_nat n) w1 else Inr w1)"
        using direct 1(1) le by (simp add: unfold)
      moreover have "sent_from tid w data w'" if "sent_from tid w1 (drop n data) w'" for w'
        using that 1(2) by (auto simp: sent_from_def intro: same_conn_trans)
      moreover have "length (drop n data) = unat (len - word_of_nat n)" "unat (len - word_of_nat n) \<le> max_size"
        "M_state (w_conn w1) \<noteq> kDisconnected" using 1(3-5) len st by simp_all
      note send_rest_ok [OF inv1 env this]
      moreover have "length (drop n data) \<le> length data" by simp
      ultimately show ?thesis unfolding 1(3) by (auto simp del: length_drop)
    qed
  qed
qed

section \<open>User callbacks keep the invariant\<close>

text \<open>The call returns in a state with \<open>P\<close>, or throws \<^verbatim>\<open>length_error\<close>: no assertion fails and no
  freed object is used.\<close>

definition safely :: "'a res \<Rightarrow> ('a \<Rightarrow> bool) \<Rightarrow> bool" where
  "safely m P \<longleftrightarrow> (\<exists>x. m = Inr x \<and> P x) \<or> m = Inl LengthError"

lemma safely_Inr [simp]: "safely (Inr x) P \<longleftrightarrow> P x"
  by (simp add: safely_def)

lemma safely_LengthError [simp]: "safely (Inl LengthError) P"
  by (simp add: safely_def)

lemma safely_bind: "safely m P \<Longrightarrow> (\<And>x. P x \<Longrightarrow> safely (f x) Q) \<Longrightarrow> safely (bindr m f) Q"
  by (fastforce simp: safely_def)

lemma safely_mono: "safely m P \<Longrightarrow> (\<And>x. P x \<Longrightarrow> Q x) \<Longrightarrow> safely m Q"
  by (auto simp: safely_def)

lemma safely_returns: "safely m P \<Longrightarrow> m = Inr x \<Longrightarrow> P x"
  by (auto simp: safely_def)

text \<open>What the public functions of a connection, called in the loop thread, may change.\<close>

definition prog_frame :: "int \<Rightarrow> ('u, 's) conn_world \<Rightarrow> ('u, 's) conn_world \<Rightarrow> bool" where
  "prog_frame tid w w' \<longleftrightarrow> conn_inv tid w' \<and> same_conn (w_conn w) (w_conn w') \<and> w_called w' = w_called w \<and>
     (M_state (w_conn w') = M_state (w_conn w) \<or>
      M_state (w_conn w) = kConnected \<and> M_state (w_conn w') = kDisconnecting)"

lemma prog_frame_refl: "conn_inv tid w \<Longrightarrow> prog_frame tid w w"
  by (simp add: prog_frame_def)

lemma prog_frame_trans: "prog_frame tid w1 w2 \<Longrightarrow> prog_frame tid w2 w3 \<Longrightarrow> prog_frame tid w1 w3"
  by (auto simp: prog_frame_def intro: same_conn_trans)

lemma prog_chain:
  "safely m (prog_frame tid w) \<Longrightarrow> (\<And>x. conn_inv tid x \<Longrightarrow> safely (f x) (prog_frame tid x)) \<Longrightarrow>
   safely (bindr m f) (prog_frame tid w)"
proof (erule safely_bind)
  fix x
  assume x: "prog_frame tid w x" and "\<And>x. conn_inv tid x \<Longrightarrow> safely (f x) (prog_frame tid x)"
  then have "safely (f x) (prog_frame tid x)" by (simp add: prog_frame_def)
  then show "safely (f x) (prog_frame tid w)" by (rule safely_mono) (rule prog_frame_trans [OF x])
qed

lemma small_length: "length s < 2147483648 \<Longrightarrow> unat (scast (word_of_nat (length s) :: int32) :: size_t) = length s"
proof -
  assume "length s < 2147483648"
  moreover have "(word_of_nat (length s) :: int32) = ucast (word_of_nat (length s) :: size_t)"
    by (simp add: word_unat_eq_iff unsigned_ucast_eq unsigned_of_nat)
  ultimately show ?thesis
    using unat_scast_ucast_int [of "word_of_nat (length s)"] by (simp add: unat_size_of_nat)
qed

lemma conn_inv_queue [simp]: "conn_inv tid (conn_queueInLoop t task w) = conn_inv tid w"
  by (simp add: conn_inv_def)

lemma conn_inv_disconnecting:
  "conn_inv tid w \<Longrightarrow> M_state (w_conn w) \<noteq> kDisconnected \<Longrightarrow> conn_inv tid (setState kDisconnecting w)"
  by (auto elim!: conn_invE intro!: conn_invI simp: writing_ok_def setState_def set_conn_def conn_reg_def)

lemma send_piece_ok:
  assumes inv: "conn_inv tid w" and env: "env_ok env" and len: "length s < 2147483648"
  shows "safely (send_piece env tid (piece_of s) w) (prog_frame tid w)"
proof (cases "M_state (w_conn w) = kConnected")
  case True
  note small = small_length [OF len]
  from inv have "conn_inLoopThread tid w" by (auto elim!: conn_invE dest: conn_regD)
  with True have run: "send_piece env tid (piece_of s) w =
      sendInLoop env tid s (scast (word_of_nat (length s) :: int32)) w"
    by (simp add: send_piece_def sendInLoop_piece_def piece_of_def)
  have "length s = unat (scast (word_of_nat (length s) :: int32) :: size_t)"
    "unat (scast (word_of_nat (length s) :: int32) :: size_t) \<le> max_size" using small len by (simp_all add: max_size_def)
  from sendInLoop_ok [OF inv env this] True show ?thesis
    unfolding run by (auto simp: safely_def sent_from_def prog_frame_def)
next
  case False
  then show ?thesis using inv by (simp add: send_piece_def prog_frame_refl)
qed

lemma shutdownInLoop_ok:
  assumes "conn_reg tid w ch"
  shows "shutdownInLoop tid w = Inr (if isWriting ch then w
    else w\<lparr>w_syscalls := w_syscalls w @ [ShutdownWrite (M_socket (w_conn w))]\<rparr>)"
  using conn_regD [OF assms]
  by (simp add: shutdownInLoop_def conn_regD(1) [OF assms] Socket_shutdownWrite_def sockets_shutdownWrite_def)

lemma shutdownInLoop_keeps:
  assumes "conn_inv tid w"
  shows "\<exists>w'. shutdownInLoop tid w = Inr w' \<and> conn_inv tid w' \<and> w_conn w' = w_conn w \<and> w_called w' = w_called w"
proof -
  from assms obtain ch where ch: "conn_reg tid w ch" by (rule conn_invE)
  have "conn_inv tid (w\<lparr>w_syscalls := x\<rparr>)" for x using assms by (simp add: conn_inv_def)
  with assms show ?thesis by (simp add: shutdownInLoop_ok [OF ch])
qed

lemma shutdown_ok:
  assumes "conn_inv tid w"
  shows "safely (shutdown tid w) (prog_frame tid w)"
proof (cases "M_state (w_conn w) = kConnected")
  case True
  let ?w = "setState kDisconnecting w"
  have inv: "conn_inv tid ?w" using assms True by (simp add: conn_inv_disconnecting)
  then have "conn_inLoopThread tid ?w" by (auto elim!: conn_invE dest: conn_regD)
  with True have "shutdown tid w = shutdownInLoop tid ?w" by (simp add: shutdown_def conn_runInLoop_def)
  moreover have "same_conn (w_conn w) (w_conn ?w)" "w_called ?w = w_called w" "M_state (w_conn ?w) = kDisconnecting"
    by (simp_all add: setState_def set_conn_def same_conn_def)
  ultimately show ?thesis using shutdownInLoop_keeps [OF inv] True by (auto simp: prog_frame_def)
next
  case False
  then show ?thesis using assms by (simp add: shutdown_def prog_frame_refl)
qed

lemma forceClose_ok: "conn_inv tid w \<Longrightarrow> prog_frame tid w (forceClose tid w)"
  using conn_inv_disconnecting [of tid w]
  by (auto simp: forceClose_def prog_frame_def setState_def set_conn_def same_conn_def)

lemma switch_reading_ok:
  assumes inv: "conn_inv tid w" and env: "env_ok env"
    and f: "f = enableReading \<and> g = (\<lambda>ev. ev OR kReadEvent) \<or> f = disableReading \<and> g = (\<lambda>ev. ev AND NOT kReadEvent)"
  shows "\<exists>h l. on_channel f env tid w = Inr (w\<lparr>w_heap := h, w_loop := l\<rparr>) \<and>
    conn_inv tid (set_conn (\<lambda>c. c\<lparr>M_reading := r\<rparr>) (w\<lparr>w_heap := h, w_loop := l\<rparr>))"
proof -
  from inv obtain ch where ch: "conn_reg tid w ch" "buf_inv (M_inputBuffer (w_conn w))"
    "buf_inv (M_outputBuffer (w_conn w))"
    "writing_ok (M_state (w_conn w)) (isWriting ch) (contents (M_outputBuffer (w_conn w)))" by (rule conn_invE)
  from on_channel_ok [OF ch(1) env, of f g] f obtain h l i where
    1: "on_channel f env tid w = Inr (w\<lparr>w_heap := h, w_loop := l\<rparr>)"
      "conn_reg tid (w\<lparr>w_heap := h, w_loop := l\<rparr>) (watched_channel ch (g (M_events ch)) i)"
    by (auto simp: event_ops)
  have "conn_inv tid (set_conn (\<lambda>c. c\<lparr>M_reading := r\<rparr>) (w\<lparr>w_heap := h, w_loop := l\<rparr>))"
    using 1(2) ch(2-4) f
    by (intro conn_invI [of _ _ "watched_channel ch (g (M_events ch)) i"]) (auto simp: set_conn_def conn_reg_def)
  with 1(1) show ?thesis by blast
qed

lemma startRead_ok:
  assumes inv: "conn_inv tid w" and env: "env_ok env"
  shows "safely (startRead env tid w) (prog_frame tid w)" and "safely (stopRead env tid w) (prog_frame tid w)"
proof -
  from inv obtain ch where reg: "conn_reg tid w ch" by (rule conn_invE)
  note ch = conn_regD [OF reg]
  have frame: "prog_frame tid w (set_conn (\<lambda>c. c\<lparr>M_reading := r\<rparr>) (w\<lparr>w_heap := h, w_loop := l\<rparr>))"
    if "conn_inv tid (set_conn (\<lambda>c. c\<lparr>M_reading := r\<rparr>) (w\<lparr>w_heap := h, w_loop := l\<rparr>))" for r h l
    using that by (simp add: prog_frame_def set_conn_def same_conn_def)
  from switch_reading_ok [OF inv env, of enableReading _ True] obtain h l where
    "on_channel enableReading env tid w = Inr (w\<lparr>w_heap := h, w_loop := l\<rparr>)"
    "conn_inv tid (set_conn (\<lambda>c. c\<lparr>M_reading := True\<rparr>) (w\<lparr>w_heap := h, w_loop := l\<rparr>))" by blast
  with frame inv show "safely (startRead env tid w) (prog_frame tid w)"
    by (simp add: startRead_def conn_runInLoop_def startReadInLoop_def ch prog_frame_refl)
  from switch_reading_ok [OF inv env, of disableReading _ False] obtain h l where
    "on_channel disableReading env tid w = Inr (w\<lparr>w_heap := h, w_loop := l\<rparr>)"
    "conn_inv tid (set_conn (\<lambda>c. c\<lparr>M_reading := False\<rparr>) (w\<lparr>w_heap := h, w_loop := l\<rparr>))" by blast
  with frame inv show "safely (stopRead env tid w) (prog_frame tid w)"
    by (simp add: stopRead_def conn_runInLoop_def stopReadInLoop_def ch prog_frame_refl)
qed

text \<open>The strings a callback sends have lengths a \<^verbatim>\<open>StringPiece\<close> can hold.\<close>

primrec prog_small :: "'u conn_prog \<Rightarrow> bool" where
  "prog_small CDone = True"
| "prog_small (CSend s k) = (length s < 2147483648 \<and> prog_small k)"
| "prog_small (CShutdown k) = prog_small k"
| "prog_small (CForceClose k) = prog_small k"
| "prog_small (CStartRead k) = prog_small k"
| "prog_small (CStopRead k) = prog_small k"
| "prog_small (CRetrieve k) = (\<forall>s. prog_small (k s))"
| "prog_small (CObserve k) = (\<forall>st. prog_small (k st))"

lemma retrieve_input_ok:
  assumes "conn_inv tid w"
  shows "\<exists>b. retrieveAsString (readableBytes (M_inputBuffer (w_conn w))) (M_inputBuffer (w_conn w)) =
      Inr (contents (M_inputBuffer (w_conn w)), b) \<and> prog_frame tid w (set_conn (\<lambda>c. c\<lparr>M_inputBuffer := b\<rparr>) w)"
proof -
  let ?b = "M_inputBuffer (w_conn w)"
  from assms obtain ch where ch: "conn_reg tid w ch" "buf_inv ?b" "buf_inv (M_outputBuffer (w_conn w))"
    "writing_ok (M_state (w_conn w)) (isWriting ch) (contents (M_outputBuffer (w_conn w)))" by (rule conn_invE)
  from retrieve_ok [OF ch(2), of "readableBytes ?b"] length_contents_readable [OF ch(2)] obtain b where
    b: "retrieve (readableBytes ?b) ?b = Inr b" "buf_inv b" by auto
  have "unat (M_readerIndex ?b) + (unat (M_writerIndex ?b) - unat (M_readerIndex ?b)) = unat (M_writerIndex ?b)"
    using buf_invD(1) [OF ch(2)] by simp
  then have "retrieveAsString (readableBytes ?b) ?b = Inr (contents ?b, b)"
    using b(1) ch(2) by (simp add: retrieveAsString_def contents_def peek_def)
  moreover have "prog_frame tid w (set_conn (\<lambda>c. c\<lparr>M_inputBuffer := b\<rparr>) w)"
    using ch b(2) by (auto simp: prog_frame_def set_conn_def same_conn_def conn_reg_def intro!: conn_invI [of _ _ ch])
  ultimately show ?thesis by blast
qed

lemma run_conn_prog_ok:
  assumes "conn_inv tid w" and "env_ok env" and "prog_small p"
  shows "safely (run_conn_prog env tid p w) (prog_frame tid w)"
  using assms(1,3)
proof (induction p arbitrary: w)
  case CDone
  then show ?case by (simp add: prog_frame_refl)
next
  case (CSend s k)
  then show ?case by (auto intro!: prog_chain send_piece_ok assms(2))
next
  case (CShutdown k)
  then show ?case by (auto intro!: prog_chain shutdown_ok)
next
  case (CForceClose k)
  then show ?case
    using prog_chain [of "Inr (forceClose tid w)" tid w "run_conn_prog env tid k"] forceClose_ok [of tid w] by simp
next
  case (CStartRead k)
  then show ?case by (auto intro!: prog_chain startRead_ok assms(2))
next
  case (CStopRead k)
  then show ?case by (auto intro!: prog_chain startRead_ok assms(2))
next
  case (CRetrieve k)
  from retrieve_input_ok [OF CRetrieve.prems(1)] obtain b where
    b: "retrieveAsString (readableBytes (M_inputBuffer (w_conn w))) (M_inputBuffer (w_conn w)) =
        Inr (contents (M_inputBuffer (w_conn w)), b)"
      "prog_frame tid w (set_conn (\<lambda>c. c\<lparr>M_inputBuffer := b\<rparr>) w)" by blast
  let ?s = "contents (M_inputBuffer (w_conn w))"
  from CRetrieve prog_chain [of "Inr (set_conn (\<lambda>c. c\<lparr>M_inputBuffer := b\<rparr>) w)" tid w "run_conn_prog env tid (k ?s)"] b
  show ?case by simp
next
  case (CObserve k)
  then show ?case by simp
qed

section \<open>Events keep the invariant\<close>

text \<open>What the owner of a connection promises of the close callbacks it installs: they leave the
  connection, its buffers, its registration and the history alone.\<close>

definition close_frame :: "int \<Rightarrow> ('u, 's) conn_world \<Rightarrow> ('u, 's) conn_world \<Rightarrow> bool" where
  "close_frame tid w w' \<longleftrightarrow> conn_inv tid w' \<and> w_conn w' = w_conn w \<and> w_wire w' = w_wire w \<and>
     w_called w' = w_called w \<and> w_syscalls w' = w_syscalls w"

definition owner_ok :: "int \<Rightarrow> ('u, 's) conn_env \<Rightarrow> bool" where
  "owner_ok tid env \<longleftrightarrow> env_ok env \<and> (\<forall>cb ev. prog_small (cb_body env cb ev)) \<and>
     (\<forall>f w w'. conn_inv tid w \<longrightarrow> close_body env f w = Inr w' \<longrightarrow> close_frame tid w w')"

text \<open>The connection callback is called once when the connection comes up, once when it goes down.\<close>

definition connection_calls :: "('u, 's) conn_world \<Rightarrow> nat" where
  "connection_calls w = length (filter (\<lambda>(cb, ev). ev = OnConnection) (w_called w))"

fun calls_due :: "StateE \<Rightarrow> nat" where
  "calls_due kConnecting = 0"
| "calls_due kConnected = 1"
| "calls_due kDisconnecting = 1"
| "calls_due kDisconnected = 2"

fun state_rank :: "StateE \<Rightarrow> nat" where
  "state_rank kConnecting = 0"
| "state_rank kConnected = 1"
| "state_rank kDisconnecting = 2"
| "state_rank kDisconnected = 3"

definition conn_good :: "int \<Rightarrow> ('u, 's) conn_world \<Rightarrow> bool" where
  "conn_good tid w \<longleftrightarrow> conn_inv tid w \<and> connection_calls w = calls_due (M_state (w_conn w))"

text \<open>\<open>advances\<close>: a step from \<open>w\<close> to \<open>w'\<close> keeps the invariant and never goes back in the life of the
  connection.\<close>

definition advances :: "int \<Rightarrow> ('u, 's) conn_world \<Rightarrow> ('u, 's) conn_world \<Rightarrow> bool" where
  "advances tid w w' \<longleftrightarrow> conn_good tid w' \<and> state_rank (M_state (w_conn w)) \<le> state_rank (M_state (w_conn w'))"

lemma prog_frame_advances:
  assumes "conn_good tid w" and "prog_frame tid w w'"
  shows "advances tid w w'"
  using assms by (auto simp: advances_def conn_good_def prog_frame_def connection_calls_def)

lemma conn_inv_called [simp]: "conn_inv tid (w\<lparr>w_called := x\<rparr>) = conn_inv tid w"
  by (simp add: conn_inv_def)

lemma call_user_ok:
  assumes "conn_inv tid w" and "owner_ok tid env"
  shows "safely (call_user env tid cb ev w) (prog_frame tid (w\<lparr>w_called := w_called w @ [(cb, ev)]\<rparr>))"
  using run_conn_prog_ok [of tid "w\<lparr>w_called := w_called w @ [(cb, ev)]\<rparr>" env "cb_body env cb ev"] assms
  by (simp add: call_user_def owner_ok_def)

lemma call_callback_ok:
  assumes "conn_inv tid w" and "owner_ok tid env" and "call_callback env tid what f ev w = Inr w'"
  shows "\<exists>cb. f = Some cb \<and> prog_frame tid (w\<lparr>w_called := w_called w @ [(cb, ev)]\<rparr>) w'"
  using assms(3) safely_returns [OF call_user_ok [OF assms(1,2)]]
  by (auto simp: call_callback_def split: option.splits)

text \<open>A callback for anything but a change of the connection counts as a step of the program.\<close>

lemma other_callback_advances:
  assumes "conn_good tid w" and "ev \<noteq> OnConnection"
    and "prog_frame tid (w\<lparr>w_called := w_called w @ [(cb, ev)]\<rparr>) w'"
  shows "advances tid w w'"
  using assms by (auto simp: advances_def conn_good_def prog_frame_def connection_calls_def)

text \<open>\<^verbatim>\<open>connectEstablished\<close> up to the callback, and \<^verbatim>\<open>handleClose\<close> up to the callback.\<close>

lemma connectEstablished_up:
  assumes inv: "conn_inv tid w" and env: "env_ok env" and st: "M_state (w_conn w) = kConnecting"
  shows "\<exists>w1. connectEstablished env tid w =
      call_callback env tid ''M_connectionCallback'' (M_connectionCallback (w_conn w)) OnConnection w1 \<and>
    conn_inv tid w1 \<and> w_conn w1 = (w_conn w)\<lparr>M_state := kConnected\<rparr> \<and> w_called w1 = w_called w"
proof -
  from inv obtain ch where reg: "conn_reg tid w ch" and bufs: "buf_inv (M_inputBuffer (w_conn w))"
      "buf_inv (M_outputBuffer (w_conn w))"
    and wr: "writing_ok (M_state (w_conn w)) (isWriting ch) (contents (M_outputBuffer (w_conn w)))"
    by (rule conn_invE)
  let ?w1 = "setState kConnected w" and ?ch = "tie (M_connSelf (w_conn w)) ch"
  let ?w2 = "?w1\<lparr>w_heap := (w_heap w)(M_channel (w_conn w) \<mapsto> ?ch)\<rparr>"
  have reg1: "conn_reg tid ?w1 ch" using reg by simp
  have reg2: "conn_reg tid ?w2 ?ch"
    using reg virtual_inv_other_fields [of "w_heap w" "M_poller (w_loop w)" "M_channel (w_conn w)" ch ?ch]
    by (auto simp: conn_reg_def loop_reg_def tie_def fits_def)
  from on_channel_ok [OF reg2 env, of enableReading "\<lambda>ev. ev OR kReadEvent"] obtain h l i where
    on: "on_channel enableReading env tid ?w2 = Inr (?w2\<lparr>w_heap := h, w_loop := l\<rparr>)"
      "conn_reg tid (?w2\<lparr>w_heap := h, w_loop := l\<rparr>) (watched_channel ?ch (M_events ch OR kReadEvent) i)"
    by (auto simp: enableReading_def tie_def)
  have same: "isWriting (watched_channel ?ch (M_events ch OR kReadEvent) j) = isWriting ch" for j
    using writing_bits(4) [of ?ch j] by (simp add: tie_def isWriting_def)
  have "conn_inv tid (?w2\<lparr>w_heap := h, w_loop := l\<rparr>)"
    using bufs wr st by (intro conn_invI [OF on(2)]) (simp_all add: same writing_ok_def)
  with st show ?thesis
    by (intro exI [of _ "?w2\<lparr>w_heap := h, w_loop := l\<rparr>"])
      (simp add: connectEstablished_def conn_regD(2) [OF reg] conn_regD(1) [OF reg1] on(1) Let_def)
qed

lemma handleClose_down:
  assumes inv: "conn_inv tid w" and env: "env_ok env"
    and st: "M_state (w_conn w) = kConnected \<or> M_state (w_conn w) = kDisconnecting"
  shows "\<exists>w1. handleClose env tid w =
      bindr (call_callback env tid ''M_connectionCallback'' (M_connectionCallback (w_conn w)) OnConnection w1) (\<lambda>w.
        case M_connCloseCallback (w_conn w) of
          None \<Rightarrow> Inl (BadFunctionCall ''M_closeCallback'') | Some f \<Rightarrow> close_body env f w) \<and>
    conn_inv tid w1 \<and> w_conn w1 = (w_conn w)\<lparr>M_state := kDisconnected\<rparr> \<and> w_called w1 = w_called w \<and>
    (\<forall>ch. w_heap w1 (M_channel (w_conn w)) = Some ch \<longrightarrow> isNoneEvent ch)"
proof -
  from inv obtain ch where reg: "conn_reg tid w ch" and bufs: "buf_inv (M_inputBuffer (w_conn w))"
      "buf_inv (M_outputBuffer (w_conn w))" by (rule conn_invE)
  let ?w1 = "setState kDisconnected w"
  have "conn_reg tid ?w1 ch" using reg by simp
  from on_channel_ok [OF this env, of disableAll "\<lambda>ev. kNoneEvent"] obtain h l i where
    on: "on_channel disableAll env tid ?w1 = Inr (?w1\<lparr>w_heap := h, w_loop := l\<rparr>)"
      "conn_reg tid (?w1\<lparr>w_heap := h, w_loop := l\<rparr>) (watched_channel ch kNoneEvent i)"
    by (auto simp: disableAll_def)
  have "conn_inv tid (?w1\<lparr>w_heap := h, w_loop := l\<rparr>)"
    using bufs by (intro conn_invI [OF on(2)]) (simp_all add: writing_ok_def)
  moreover have "isNoneEvent d" if "h (M_channel (w_conn w)) = Some d" for d
    using on(2) that by (simp add: conn_reg_def isNoneEvent_def watched_channel_def)
  ultimately show ?thesis using st
    by (intro exI [of _ "?w1\<lparr>w_heap := h, w_loop := l\<rparr>"])
      (simp add: handleClose_def conn_regD(2) [OF reg] on(1))
qed

lemma connectEstablished_advances:
  assumes good: "conn_good tid w" and own: "owner_ok tid env" and run: "connectEstablished env tid w = Inr w'"
  shows "advances tid w w'"
proof -
  have inv: "conn_inv tid w" and env: "env_ok env" using good own by (simp_all add: conn_good_def owner_ok_def)
  from run have st: "M_state (w_conn w) = kConnecting" by (auto simp: connectEstablished_def)
  from connectEstablished_up [OF inv env st] run obtain w1 where
    1: "call_callback env tid ''M_connectionCallback'' (M_connectionCallback (w_conn w)) OnConnection w1 = Inr w'"
      "conn_inv tid w1" "w_conn w1 = (w_conn w)\<lparr>M_state := kConnected\<rparr>" "w_called w1 = w_called w" by auto
  from call_callback_ok [OF 1(2) own 1(1)] obtain cb where
    "prog_frame tid (w1\<lparr>w_called := w_called w1 @ [(cb, OnConnection)]\<rparr>) w'" by blast
  with good st 1(3,4) show ?thesis
    by (auto simp: advances_def conn_good_def prog_frame_def connection_calls_def)
qed

lemma handleClose_advances:
  assumes good: "conn_good tid w" and own: "owner_ok tid env" and run: "handleClose env tid w = Inr w'"
  shows "advances tid w w'" and "M_state (w_conn w') = kDisconnected"
proof -
  have inv: "conn_inv tid w" and env: "env_ok env" using good own by (simp_all add: conn_good_def owner_ok_def)
  from run have st: "M_state (w_conn w) = kConnected \<or> M_state (w_conn w) = kDisconnecting"
    by (auto simp: handleClose_def)
  from handleClose_down [OF inv env st] obtain w1 where
    eq: "handleClose env tid w =
        bindr (call_callback env tid ''M_connectionCallback'' (M_connectionCallback (w_conn w)) OnConnection w1) (\<lambda>w.
          case M_connCloseCallback (w_conn w) of
            None \<Rightarrow> Inl (BadFunctionCall ''M_closeCallback'') | Some f \<Rightarrow> close_body env f w)"
    and w1: "conn_inv tid w1" "w_conn w1 = (w_conn w)\<lparr>M_state := kDisconnected\<rparr>" "w_called w1 = w_called w"
    by blast
  from run [unfolded eq] obtain w2 f where
    "call_callback env tid ''M_connectionCallback'' (M_connectionCallback (w_conn w)) OnConnection w1 = Inr w2"
    "close_body env f w2 = Inr w'"
    by (auto split: option.splits)
  note 1 = this(1) w1 this(2)
  from call_callback_ok [OF 1(2) own 1(1)] obtain cb where
    2: "prog_frame tid (w1\<lparr>w_called := w_called w1 @ [(cb, OnConnection)]\<rparr>) w2" by blast
  then have "conn_inv tid w2" by (simp add: prog_frame_def)
  with own 1(5) have "close_frame tid w2 w'" unfolding owner_ok_def by blast
  with 2 good st 1(3,4) show "advances tid w w'" "M_state (w_conn w') = kDisconnected"
    by (auto simp: advances_def conn_good_def prog_frame_def close_frame_def connection_calls_def)
qed

lemma handleRead_advances:
  assumes good: "conn_good tid w" and own: "owner_ok tid env" and run: "conn_handleRead env tid t w = Inr w'"
  shows "advances tid w w'"
proof -
  from good obtain ch where reg: "conn_reg tid w ch" and bufs: "buf_inv (M_inputBuffer (w_conn w))"
      "buf_inv (M_outputBuffer (w_conn w))"
    and wr: "writing_ok (M_state (w_conn w)) (isWriting ch) (contents (M_outputBuffer (w_conn w)))"
    by (auto simp: conn_good_def elim: conn_invE)
  from run obtain n e b where read: "readFd (sys_readv env) (M_fd ch) (M_inputBuffer (w_conn w)) = Inr (n, e, b)"
    by (auto simp: conn_handleRead_def conn_regD [OF reg])
  let ?w = "set_conn (\<lambda>c. c\<lparr>M_inputBuffer := b\<rparr>) w"
  have "buf_inv b" using readFd_returns [OF bufs(1) _ read] own by (simp add: owner_ok_def env_ok_def)
  then have "conn_inv tid ?w" using reg bufs(2) wr by (auto simp: set_conn_def conn_reg_def intro!: conn_invI [of _ _ ch])
  then have good': "conn_good tid ?w" "advances tid w ?w"
    using good by (simp_all add: advances_def conn_good_def connection_calls_def set_conn_def)
  have from_w: "advances tid w u" if "advances tid ?w u" for u
    using that by (simp add: advances_def set_conn_def)
  from run read consider "0 < n" "call_callback env tid ''M_messageCallback'' (M_messageCallback (w_conn ?w)) (OnMessage t) ?w = Inr w'"
    | "handleClose env tid ?w = Inr w'" | "handleError ?w = Inr w'"
    by (auto simp: conn_handleRead_def conn_regD [OF reg] Let_def split: if_splits)
  then show ?thesis
  proof cases
    case 1
    from call_callback_ok [OF \<open>conn_inv tid ?w\<close> own 1(2)] other_callback_advances [OF good'(1)] from_w
    show ?thesis by blast
  next
    case 2
    from handleClose_advances(1) [OF good'(1) own 2] from_w show ?thesis by blast
  next
    case 3
    with good'(2) show ?thesis by (auto simp: handleError_def the_channel_def)
  qed
qed

lemma handleWrite_idle:
  assumes "conn_reg tid w ch" and "buf_inv (M_outputBuffer (w_conn w))"
    and "\<not> isWriting ch \<or> (\<forall>n. sys_write env (M_fd ch) (contents (M_outputBuffer (w_conn w))) = Inr n \<longrightarrow> n = 0)"
  shows "handleWrite env tid w = Inr w"
  using assms(2,3) by (auto simp: handleWrite_def conn_regD [OF assms(1)] readable_range_contents Let_def split: sum.split)

text \<open>A write event while bytes wait: what the kernel takes goes to the wire, and the buffer is
  emptied whatever the kernel took.\<close>

lemma handleWrite_writes:
  assumes reg: "conn_reg tid w ch" and bufs: "buf_inv (M_inputBuffer (w_conn w))" "buf_inv (M_outputBuffer (w_conn w))"
    and env: "env_ok env" and wr: "isWriting ch" "M_state (w_conn w) \<noteq> kDisconnected"
    and n: "sys_write env (M_fd ch) (contents (M_outputBuffer (w_conn w))) = Inr n" "0 < n"
  shows "\<exists>w'. handleWrite env tid w = Inr w' \<and> conn_inv tid w' \<and> same_conn (w_conn w) (w_conn w') \<and>
    M_state (w_conn w') = M_state (w_conn w) \<and> w_called w' = w_called w \<and>
    w_wire w' = w_wire w @ take n (contents (M_outputBuffer (w_conn w))) \<and>
    contents (M_outputBuffer (w_conn w')) = [] \<and>
    w_syscalls w' = w_syscalls w @ (if M_state (w_conn w) = kDisconnecting then [ShutdownWrite (M_socket (w_conn w))] else [])"
proof -
  let ?out = "M_outputBuffer (w_conn w)"
  let ?c = "(w_conn w)\<lparr>M_outputBuffer := retrieveAll ?out\<rparr>"
  let ?w1 = "(set_conn (\<lambda>c. c\<lparr>M_outputBuffer := retrieveAll ?out\<rparr>) w)\<lparr>w_wire := w_wire w @ take n (contents ?out)\<rparr>"
  have empty: "buf_inv (retrieveAll ?out)" "contents (retrieveAll ?out) = []"
    using retrieveAll_ok [OF bufs(2)] by simp_all
  have c1: "w_conn ?w1 = ?c" by (simp add: set_conn_def)
  have "conn_reg tid ?w1 ch" using reg by simp
  from on_channel_ok [OF this env, of disableWriting "\<lambda>ev. ev AND NOT kWriteEvent"] obtain h l i where
    on: "on_channel disableWriting env tid ?w1 = Inr (?w1\<lparr>w_heap := h, w_loop := l\<rparr>)"
      "conn_reg tid (?w1\<lparr>w_heap := h, w_loop := l\<rparr>) (watched_channel ch (M_events ch AND NOT kWriteEvent) i)"
    by (auto simp: disableWriting_def)
  let ?w2 = "?w1\<lparr>w_heap := h, w_loop := l\<rparr>"
  define w3 where "w3 = (case M_writeCompleteCallback ?c of
      Some cb \<Rightarrow> conn_queueInLoop tid (CallUser cb OnWriteComplete) ?w2 | None \<Rightarrow> ?w2)"
  have w3: "conn_reg tid w3 (watched_channel ch (M_events ch AND NOT kWriteEvent) i)" "w_conn w3 = ?c"
    "w_wire w3 = w_wire w @ take n (contents ?out)" "w_called w3 = w_called w" "w_syscalls w3 = w_syscalls w"
    using on(2) by (simp_all add: w3_def c1 set_conn_def split: option.split)
  have run: "handleWrite env tid w = (if M_state (w_conn w3) = kDisconnecting then shutdownInLoop tid w3 else Inr w3)"
    using wr n readable_zero [OF empty(1)] empty(2)
    by (simp add: handleWrite_def conn_regD [OF reg] readable_range_contents [OF bufs(2)] on(1) c1 w3_def Let_def)
  have inv: "conn_inv tid u" if "conn_reg tid u (watched_channel ch (M_events ch AND NOT kWriteEvent) i)" "w_conn u = ?c" for u
    using that bufs(1) empty wr(2) by (intro conn_invI [OF that(1)]) (simp_all add: writing_ok_def)
  show ?thesis
  proof (cases "M_state (w_conn w) = kDisconnecting")
    case True
    let ?w4 = "w3\<lparr>w_syscalls := w_syscalls w @ [ShutdownWrite (M_socket (w_conn w))]\<rparr>"
    have "handleWrite env tid w = Inr ?w4" using True w3 by (simp add: run shutdownInLoop_ok [OF w3(1)])
    with True w3 inv [of ?w4] empty(2) show ?thesis by (intro exI [of _ ?w4]) (simp add: same_conn_def)
  next
    case False
    with w3 inv [of w3] empty(2) show ?thesis by (intro exI [of _ w3]) (simp add: run same_conn_def)
  qed
qed

lemma handleWrite_advances:
  assumes good: "conn_good tid w" and own: "owner_ok tid env" and run: "handleWrite env tid w = Inr w'"
  shows "advances tid w w'"
proof -
  from good obtain ch where reg: "conn_reg tid w ch" and bufs: "buf_inv (M_inputBuffer (w_conn w))"
      "buf_inv (M_outputBuffer (w_conn w))"
    and wr: "writing_ok (M_state (w_conn w)) (isWriting ch) (contents (M_outputBuffer (w_conn w)))"
    by (auto simp: conn_good_def elim: conn_invE)
  have env: "env_ok env" using own by (simp add: owner_ok_def)
  show ?thesis
  proof (cases "\<exists>n>0. isWriting ch \<and> sys_write env (M_fd ch) (contents (M_outputBuffer (w_conn w))) = Inr n")
    case True
    then obtain n where "isWriting ch" "sys_write env (M_fd ch) (contents (M_outputBuffer (w_conn w))) = Inr n" "0 < n"
      by blast
    moreover have "M_state (w_conn w) \<noteq> kDisconnected" using wr \<open>isWriting ch\<close> by (auto simp: writing_ok_def)
    ultimately have "prog_frame tid w w'"
      using handleWrite_writes [OF reg bufs env] run by (auto simp: prog_frame_def)
    with good show ?thesis by (rule prog_frame_advances)
  next
    case False
    then have "handleWrite env tid w = Inr w" by (intro handleWrite_idle [OF reg bufs(2)]) auto
    with run good show ?thesis by (auto simp: advances_def)
  qed
qed

section \<open>The life of a connection\<close>

text \<open>
  A step of a connection: a function bound to it is run by the loop thread (a queued one or the
  handler of an event), another thread calls a public function, or the loop changes its queue and
  its clock. Every step may meet another environment of the kind \<open>E\<close>.
\<close>

fun task_small :: "'u conn_task \<Rightarrow> bool" where
  "task_small (SendInLoop s) \<longleftrightarrow> length s < 2147483648"
| "task_small (CallUser cb ev) \<longleftrightarrow> ev \<noteq> OnConnection"
| "task_small ConnectDestroyed \<longleftrightarrow> False"
| "task_small _ \<longleftrightarrow> True"

inductive conn_step :: "(('u, 's) conn_env \<Rightarrow> bool) \<Rightarrow> int \<Rightarrow> ('u, 's) conn_world \<Rightarrow> ('u, 's) conn_world \<Rightarrow> bool"
  for E tid where
  task: "E env \<Longrightarrow> task_small t \<Longrightarrow> run_conn_task env tid Inr t w = Inr w' \<Longrightarrow> conn_step E tid w w'"
| other_send: "t \<noteq> tid \<Longrightarrow> send_piece env t (piece_of s) w = Inr w' \<Longrightarrow> conn_step E tid w w'"
| other_shutdown: "t \<noteq> tid \<Longrightarrow> shutdown t w = Inr w' \<Longrightarrow> conn_step E tid w w'"
| other_forceClose: "conn_step E tid w (forceClose t w)"
| other_startRead: "t \<noteq> tid \<Longrightarrow> startRead env t w = Inr w' \<Longrightarrow> conn_step E tid w w'"
| other_stopRead: "t \<noteq> tid \<Longrightarrow> stopRead env t w = Inr w' \<Longrightarrow> conn_step E tid w w'"
| loop_turn: "conn_step E tid w (w\<lparr>w_loop := (w_loop w)\<lparr>M_pendingFunctors := q, eventfd := n, M_pollReturnTime := pt\<rparr>\<rparr>)"

inductive conn_run :: "(('u, 's) conn_env \<Rightarrow> bool) \<Rightarrow> int \<Rightarrow> ('u, 's) conn_world \<Rightarrow> ('u, 's) conn_world \<Rightarrow> bool"
  for E tid w0 where
  start: "conn_run E tid w0 w0"
| step: "conn_run E tid w0 w \<Longrightarrow> conn_step E tid w w' \<Longrightarrow> conn_run E tid w0 w'"

inductive_cases conn_stepE: "conn_step E tid w w'"

lemma sendInLoop_advances:
  assumes good: "conn_good tid w" and own: "owner_ok tid env" and len: "length s < 2147483648"
    and run: "sendInLoop_piece env tid (piece_of s) w = Inr w'"
  shows "advances tid w w'"
proof (cases "M_state (w_conn w) = kDisconnected")
  case True
  with run have "w' = w" by (auto simp: sendInLoop_piece_def sendInLoop_def assertInLoopThread_def split: if_splits)
  with good show ?thesis by (simp add: advances_def)
next
  case False
  let ?len = "scast (word_of_nat (length s) :: int32) :: size_t"
  have inv: "conn_inv tid w" and env: "env_ok env" using good own by (simp_all add: conn_good_def owner_ok_def)
  have "length s = unat ?len" "unat ?len \<le> max_size" using small_length [OF len] len by (simp_all add: max_size_def)
  from sendInLoop_ok [OF inv env this False] run have "prog_frame tid w w'"
    by (auto simp: sendInLoop_piece_def piece_of_def prog_frame_def sent_from_def)
  with good show ?thesis by (rule prog_frame_advances)
qed

lemma conn_task_advances:
  assumes good: "conn_good tid w" and own: "owner_ok tid env" and small: "task_small t"
    and run: "run_conn_task env tid Inr t w = Inr w'"
  shows "advances tid w w'"
proof -
  have inv: "conn_inv tid w" and env: "env_ok env" using good own by (simp_all add: conn_good_def owner_ok_def)
  then have here: "conn_inLoopThread tid w" by (auto elim!: conn_invE dest: conn_regD)
  have reading: "advances tid w w'"
    if "startRead env tid w = Inr w' \<or> stopRead env tid w = Inr w'"
    using that safely_returns [OF startRead_ok(1) [OF inv env]] safely_returns [OF startRead_ok(2) [OF inv env]]
      prog_frame_advances [OF good] by blast
  show ?thesis
  proof (cases t)
    case (SendInLoop s)
    with sendInLoop_advances [OF good own] small run show ?thesis by simp
  next
    case ShutdownInLoop
    with shutdownInLoop_keeps [OF inv] run good show ?thesis
      by (auto simp: advances_def conn_good_def connection_calls_def)
  next
    case ForceCloseInLoop
    with handleClose_advances(1) [OF good own] run good here show ?thesis
      by (auto simp: forceCloseInLoop_def advances_def split: if_splits)
  next
    case WeakForceClose
    with run forceClose_ok [OF inv] prog_frame_advances [OF good] show ?thesis by auto
  next
    case StartReadInLoop
    with run here reading show ?thesis by (simp add: startRead_def conn_runInLoop_def)
  next
    case StopReadInLoop
    with run here reading show ?thesis by (simp add: stopRead_def conn_runInLoop_def)
  next
    case ConnectEstablished
    with connectEstablished_advances [OF good own] run show ?thesis by simp
  next
    case (SetCloseCallback cb)
    with run good show ?thesis
      by (auto simp: advances_def conn_good_def connection_calls_def conn_inv_def conn_reg_def conn_setCloseCallback_def)
  next
    case (CallUser cb ev)
    with run have "call_user env tid cb ev w = Inr w'" by simp
    from safely_returns [OF call_user_ok [OF inv own] this] CallUser small show ?thesis
      by (intro other_callback_advances [OF good]) auto
  next
    case ConnRead
    with handleRead_advances [OF good own] run show ?thesis by simp
  next
    case ConnWrite
    with handleWrite_advances [OF good own] run show ?thesis by simp
  next
    case ConnClose
    with handleClose_advances(1) [OF good own] run show ?thesis by simp
  next
    case ConnError
    with run good show ?thesis by (auto simp: handleError_def the_channel_def advances_def)
  qed (use small in simp)
qed

lemma disconnecting_advances:
  assumes "conn_good tid w" and "M_state (w_conn w) = kConnected \<or> M_state (w_conn w) = kDisconnecting"
  shows "advances tid w (conn_queueInLoop t task (setState kDisconnecting w))"
  using assms conn_inv_disconnecting [of tid w]
  by (auto simp: advances_def conn_good_def connection_calls_def)

lemma conn_step_advances:
  assumes own: "\<And>env. E env \<Longrightarrow> owner_ok tid env" and step: "conn_step E tid w w'" and good: "conn_good tid w"
  shows "advances tid w w'"
proof -
  have queue: "advances tid w (conn_queueInLoop t task w)" for t task
    using good by (simp add: advances_def conn_good_def connection_calls_def)
  have stay: "advances tid w w" using good by (simp add: advances_def)
  have there: "\<not> conn_inLoopThread t (setState st w)" "\<not> conn_inLoopThread t w" if "t \<noteq> tid" for t st
    using good that
    by (auto simp: conn_good_def conn_inv_def conn_reg_def loop_reg_def conn_inLoopThread_def isInLoopThread_def)
  from step show ?thesis
  proof (cases rule: conn_step.cases)
    case (task env t)
    with conn_task_advances [OF good own] show ?thesis by blast
  next
    case (other_send t env s)
    with there queue stay show ?thesis by (auto simp: send_piece_def split: if_splits)
  next
    case (other_shutdown t)
    with there disconnecting_advances [OF good] stay show ?thesis
      by (auto simp: shutdown_def conn_runInLoop_def split: if_splits)
  next
    case (other_forceClose t)
    with disconnecting_advances [OF good] stay show ?thesis by (auto simp: forceClose_def)
  next
    case (other_startRead t env)
    with there queue show ?thesis by (auto simp: startRead_def conn_runInLoop_def)
  next
    case (other_stopRead t env)
    with there queue show ?thesis by (auto simp: stopRead_def conn_runInLoop_def)
  next
    case (loop_turn q n pt)
    with good show ?thesis
      by (auto simp: advances_def conn_good_def connection_calls_def conn_inv_def conn_reg_def loop_reg_def
          loop_channels_def)
  qed
qed

section \<open>What a connection leaves to its owner\<close>

text \<open>A step leaves the state of the owner, the name of the connection and whether it is down alone,
  unless it ends the connection and calls the close callback.\<close>

definition owner_key :: "('u, 's) conn_world \<Rightarrow> 's \<times> string \<times> nat \<times> bool" where
  "owner_key w = (w_rest w, M_connName (w_conn w), M_connSelf (w_conn w), M_state (w_conn w) = kDisconnected)"

lemma owner_key_simps [simp]:
  "owner_key (conn_queueInLoop t task w) = owner_key w"
  "owner_key (w\<lparr>w_heap := h\<rparr>) = owner_key w" "owner_key (w\<lparr>w_loop := l\<rparr>) = owner_key w"
  "owner_key (w\<lparr>w_wire := x\<rparr>) = owner_key w" "owner_key (w\<lparr>w_syscalls := y\<rparr>) = owner_key w"
  "owner_key (w\<lparr>w_called := z\<rparr>) = owner_key w"
  "owner_key (announce_highWater t r w) = owner_key w"
  "owner_key (set_conn (\<lambda>c. c\<lparr>M_inputBuffer := b\<rparr>) w) = owner_key w"
  "owner_key (set_conn (\<lambda>c. c\<lparr>M_outputBuffer := b\<rparr>) w) = owner_key w"
  "owner_key (set_conn (\<lambda>c. c\<lparr>M_reading := r'\<rparr>) w) = owner_key w"
  "owner_key (set_conn (conn_setCloseCallback cb) w) = owner_key w"
  by (simp_all add: owner_key_def conn_setCloseCallback_def)

lemma setState_owner:
  "M_state (w_conn w) \<noteq> kDisconnected \<Longrightarrow> st \<noteq> kDisconnected \<Longrightarrow> owner_key (setState st w) = owner_key w"
  by (simp add: owner_key_def)

lemma on_channel_owner: "on_channel f env tid w = Inr w' \<Longrightarrow> owner_key w' = owner_key w"
  by (auto simp: on_channel_def)

lemma write_directly_owner: "write_directly env tid fd data len w = (a, b, c, w') \<Longrightarrow> owner_key w' = owner_key w"
  by (auto simp: write_directly_def Let_def split: sum.splits option.splits if_splits)

lemma buffer_rest_owner: "buffer_rest env tid rest remaining w = Inr w' \<Longrightarrow> owner_key w' = owner_key w"
  by (auto simp: buffer_rest_def Let_def the_channel_def split: if_splits dest!: on_channel_owner)

lemma sendInLoop_owner:
  assumes "sendInLoop env tid data len w = Inr w'"
  shows "owner_key w' = owner_key w"
proof (cases "M_state (w_conn w) = kDisconnected")
  case True
  with assms show ?thesis by (auto simp: sendInLoop_def)
next
  case False
  with assms obtain ch where ch: "w_heap w (M_channel (w_conn w)) = Some ch" by (auto simp: sendInLoop_def the_channel_def)
  obtain n r f w1 where 1: "(if \<not> isWriting ch \<and> readableBytes (M_outputBuffer (w_conn w)) = 0
      then write_directly env tid (M_fd ch) data len w else (0, len, False, w)) = (n, r, f, w1)" by (cases rule: prod_cases4)
  then have "owner_key w1 = owner_key w" by (auto split: if_splits dest: write_directly_owner)
  moreover from assms False have "w' = w1 \<or> buffer_rest env tid (drop n data) r w1 = Inr w'"
    by (auto simp: sendInLoop_def the_channel_def ch 1 split: if_splits)
  ultimately show ?thesis using buffer_rest_owner by metis
qed

lemma send_piece_owner: "send_piece env tid message w = Inr w' \<Longrightarrow> owner_key w' = owner_key w"
  by (auto simp: send_piece_def sendInLoop_piece_def split: if_splits dest: sendInLoop_owner)

lemma shutdownInLoop_owner: "shutdownInLoop tid w = Inr w' \<Longrightarrow> owner_key w' = owner_key w"
  by (auto simp: shutdownInLoop_def the_channel_def split: if_splits)

lemma shutdown_owner: "shutdown tid w = Inr w' \<Longrightarrow> owner_key w' = owner_key w"
  by (auto simp: shutdown_def conn_runInLoop_def setState_owner split: if_splits dest!: shutdownInLoop_owner)

lemma forceClose_owner [simp]: "owner_key (forceClose tid w) = owner_key w"
  by (simp add: forceClose_def setState_owner)

lemma reading_owner:
  "startReadInLoop env tid w = Inr w' \<Longrightarrow> owner_key w' = owner_key w"
  "stopReadInLoop env tid w = Inr w' \<Longrightarrow> owner_key w' = owner_key w"
  by (auto simp: startReadInLoop_def stopReadInLoop_def the_channel_def split: if_splits dest: on_channel_owner)

lemma startRead_owner:
  "startRead env t w = Inr w' \<Longrightarrow> owner_key w' = owner_key w" "stopRead env t w = Inr w' \<Longrightarrow> owner_key w' = owner_key w"
  by (auto simp: startRead_def stopRead_def conn_runInLoop_def split: if_splits dest: reading_owner)

lemma run_conn_prog_owner: "run_conn_prog env tid prog w = Inr w' \<Longrightarrow> owner_key w' = owner_key w"
proof (induction prog arbitrary: w)
  case (CSend s k)
  then show ?case by (auto dest!: send_piece_owner)
next
  case (CShutdown k)
  then show ?case by (auto dest!: shutdown_owner)
next
  case (CForceClose k)
  then show ?case by fastforce
next
  case (CStartRead k)
  then show ?case by (auto dest!: startRead_owner)
next
  case (CStopRead k)
  then show ?case by (auto dest!: startRead_owner)
next
  case (CRetrieve k)
  then show ?case by fastforce
qed auto

lemma call_user_owner: "call_user env tid cb ev w = Inr w' \<Longrightarrow> owner_key w' = owner_key w"
  by (auto simp: call_user_def dest!: run_conn_prog_owner)

lemma call_callback_owner: "call_callback env tid what cb ev w = Inr w' \<Longrightarrow> owner_key w' = owner_key w"
  by (auto simp: call_callback_def split: option.splits dest: call_user_owner)

text \<open>\<open>closes\<close>: the step ends the connection and hands it to a close callback.\<close>

definition closes :: "('u, 's) conn_env \<Rightarrow> ('u, 's) conn_world \<Rightarrow> ('u, 's) conn_world \<Rightarrow> bool" where
  "closes env w w' \<longleftrightarrow> M_state (w_conn w) \<noteq> kDisconnected \<and>
     (\<exists>f w1. owner_key w1 = owner_key (setState kDisconnected w) \<and> close_body env f w1 = Inr w')"

lemma closes_from: "owner_key w2 = owner_key w1 \<Longrightarrow> closes env w2 w' \<Longrightarrow> closes env w1 w'"
  by (simp add: closes_def owner_key_def)

lemma connectEstablished_owner: "connectEstablished env tid w = Inr w' \<Longrightarrow> owner_key w' = owner_key w"
  by (auto simp: connectEstablished_def the_channel_def Let_def setState_owner dest!: on_channel_owner call_callback_owner)

lemma handleClose_owner:
  assumes "handleClose env tid w = Inr w'"
  shows "closes env w w'"
proof -
  from assms obtain w1 w2 f where 1: "on_channel disableAll env tid (setState kDisconnected w) = Inr w1"
    "call_callback env tid ''M_connectionCallback'' (M_connectionCallback (w_conn w1)) OnConnection w1 = Inr w2"
    "close_body env f w2 = Inr w'" by (auto simp: handleClose_def split: option.splits)
  moreover have "M_state (w_conn w) \<noteq> kDisconnected" using assms by (auto simp: handleClose_def)
  ultimately show ?thesis unfolding closes_def using on_channel_owner [OF 1(1)] call_callback_owner [OF 1(2)] by metis
qed

lemma handleRead_owner:
  assumes "conn_handleRead env tid t w = Inr w'"
  shows "owner_key w' = owner_key w \<or> closes env w w'"
proof -
  from assms obtain b where "call_callback env tid ''M_messageCallback'' (M_messageCallback (w_conn w)) (OnMessage t)
        (set_conn (\<lambda>c. c\<lparr>M_inputBuffer := b\<rparr>) w) = Inr w' \<or>
      handleClose env tid (set_conn (\<lambda>c. c\<lparr>M_inputBuffer := b\<rparr>) w) = Inr w' \<or>
      handleError (set_conn (\<lambda>c. c\<lparr>M_inputBuffer := b\<rparr>) w) = Inr w'"
    by (auto simp: conn_handleRead_def the_channel_def Let_def split: if_splits)
  then show ?thesis
    using closes_from [of "set_conn (\<lambda>c. c\<lparr>M_inputBuffer := b\<rparr>) w" w]
    by (auto simp: handleError_def the_channel_def dest!: call_callback_owner handleClose_owner)
qed

lemma handleWrite_owner: "handleWrite env tid w = Inr w' \<Longrightarrow> owner_key w' = owner_key w"
  by (auto simp: handleWrite_def the_channel_def Let_def split: if_splits sum.splits option.splits
      dest!: on_channel_owner shutdownInLoop_owner)

lemma conn_task_owner:
  assumes "task_small t" and "run_conn_task env tid Inr t w = Inr w'"
  shows "owner_key w' = owner_key w \<or> closes env w w'"
proof (cases t)
  case (SendInLoop s)
  with assms(2) show ?thesis by (auto simp: sendInLoop_piece_def dest: sendInLoop_owner)
next
  case ForceCloseInLoop
  with assms(2) show ?thesis by (auto simp: forceCloseInLoop_def split: if_splits dest: handleClose_owner)
next
  case ConnError
  with assms(2) show ?thesis by (auto simp: handleError_def the_channel_def)
qed (use assms in \<open>auto dest: shutdownInLoop_owner reading_owner connectEstablished_owner call_user_owner handleRead_owner
    handleWrite_owner handleClose_owner\<close>)

lemma conn_step_owner:
  assumes "conn_step E tid w w'"
  shows "owner_key w' = owner_key w \<or> (\<exists>env. E env \<and> closes env w w')"
  using assms
proof (cases rule: conn_step.cases)
  case (task env t)
  then show ?thesis using conn_task_owner by blast
qed (auto dest: send_piece_owner shutdown_owner startRead_owner)

text \<open>The owner of a connection, as the connection sees it: the environments it runs it in.\<close>

locale connection_owner =
  fixes E :: "('u, 's) conn_env \<Rightarrow> bool" and tid :: int
  assumes owned: "E env \<Longrightarrow> owner_ok tid env"
begin

lemma run_advances: "conn_run E tid w0 w \<Longrightarrow> conn_good tid w0 \<Longrightarrow> advances tid w0 w"
proof (induction rule: conn_run.induct)
  case start
  then show ?case by (simp add: advances_def)
next
  case (step w w')
  then have "advances tid w w'" using conn_step_advances [OF owned] by (auto simp: advances_def)
  with step show ?case by (auto simp: advances_def)
qed

end

section \<open>A new connection comes up\<close>

text \<open>A connection constructed on a free descriptor is consistent, and \<^verbatim>\<open>connectEstablished\<close> brings it up,
  whatever the user's connection callback does.\<close>

lemma new_TcpConnection_ok:
  assumes "loop_reg tid h l" and "\<forall>x. loop_channels l x \<noteq> Some chan" and "loop_channels l fd = None" and "0 \<le> fd"
  shows "\<exists>conn ch calls. new_TcpConnection c (M_self l) nm fd la pa chan = Inr (conn, ch, calls) \<and> M_state conn = kConnecting \<and>
    M_connSelf conn = c \<and> M_socket conn = fd \<and> M_channel conn = chan \<and>
    (\<forall>w :: ('u, 's) conn_world. w_heap w = h(chan \<mapsto> ch) \<and> w_loop w = l \<and> M_channel (w_conn w) = chan \<and> M_socket (w_conn w) = fd \<and>
       M_state (w_conn w) = kConnecting \<and> M_inputBuffer (w_conn w) = M_inputBuffer conn \<and>
       M_outputBuffer (w_conn w) = M_outputBuffer conn \<longrightarrow> conn_inv tid w)"
proof -
  obtain b where b: "new_Buffer kInitialSize = Inr b" "buf_inv b" "contents b = []"
    using new_Buffer_ok [of kInitialSize] by (auto simp: kInitialSize_def max_size_def)
  let ?ch = "setErrorCallback (User (ConnTask c ConnError))
              (setCloseCallback (User (ConnTask c ConnClose))
                (setWriteCallback (User (ConnTask c ConnWrite))
                  (setReadCallback (User (ConnTask c ConnRead)) (new_Channel (M_self l) fd))))"
  have ch: "M_loop ?ch = M_self l" "M_fd ?ch = fd" "M_index ?ch = -1" "\<not> isWriting ?ch"
    by (simp_all add: setErrorCallback_def setCloseCallback_def setWriteCallback_def setReadCallback_def new_Channel_def
        isWriting_def has_bits_def)
  have inv: "conn_inv tid w" if "w_heap w = h(chan \<mapsto> ?ch)" "w_loop w = l" "M_channel (w_conn w) = chan" "M_socket (w_conn w) = fd"
      "M_state (w_conn w) = kConnecting" "M_inputBuffer (w_conn w) = b" "M_outputBuffer (w_conn w) = b" for w :: "('u, 's) conn_world"
  proof (rule conn_invI)
    show "conn_reg tid w ?ch"
      using loop_reg_fresh [OF assms(1,2) ch(1)] assms(3,4) unfolding conn_reg_def fits_def that ch by simp
  qed (use that b ch(4) in \<open>simp_all add: writing_ok_def\<close>)
  then show ?thesis by (simp add: new_TcpConnection_def b(1))
qed

lemma connectEstablished_comes_up:
  assumes "conn_inv tid w" and "owner_ok tid env" and "M_state (w_conn w) = kConnecting" and "M_connectionCallback (w_conn w) = Some f"
    and "w_called w = []"
  shows "safely (connectEstablished env tid w) (\<lambda>cw. conn_inv tid cw \<and> same_conn (w_conn w) (w_conn cw) \<and>
    M_state (w_conn cw) \<in> {kConnected, kDisconnecting} \<and> w_called cw = [(f, OnConnection)] \<and> w_rest cw = w_rest w)"
proof -
  from connectEstablished_up [OF assms(1), of env] assms(2-5) obtain w1 where
    w1: "connectEstablished env tid w = call_user env tid f OnConnection w1" "conn_inv tid w1"
      "w_conn w1 = (w_conn w)\<lparr>M_state := kConnected\<rparr>" "w_called w1 = []" by (auto simp: owner_ok_def call_callback_def)
  have "w_rest cw = w_rest w" if "connectEstablished env tid w = Inr cw" for cw
    using connectEstablished_owner [OF that] by (simp add: owner_key_def)
  with call_user_ok [OF w1(2) assms(2), of f OnConnection] show ?thesis
    by (auto simp: safely_def prog_frame_def same_conn_def w1)
qed

section \<open>A connection is destroyed\<close>

text \<open>A connection that is down still has its channel in the loop: \<^verbatim>\<open>handleClose\<close> only disables it. Destroyed
  like that it fails an assertion of \<^verbatim>\<open>~Channel\<close>; once the channel is disabled and removed, which is
  left to \<^verbatim>\<open>connectDestroyed\<close>, the destructor closes the socket and the descriptor is free.\<close>

lemma delete_before_removal:
  assumes "M_state (w_conn w) = kDisconnected" and "w_heap w (M_channel (w_conn w)) = Some ch"
    and "M_addedToLoop ch" and "\<not> M_eventHandling ch"
  shows "delete_TcpConnection tid w = Inl (AssertFailed ''!M_addedToLoop'')"
  using assms by (simp add: delete_TcpConnection_def the_channel_def delete_Channel_def)

lemma delete_after_removal:
  assumes "epoll_documented (ctl env)" and "conn_reg tid w ch" and "\<not> M_loopEventHandling (w_loop w)" and "\<not> M_eventHandling ch"
    and "loop_channels (w_loop w) (M_fd ch) = Some (M_channel (w_conn w))" and "M_state (w_conn w) = kDisconnected"
  shows "\<exists>w1 w2. on_channel disableAll env tid w = Inr w1 \<and>
    bindr (remove_channel (loop_removeChannel (ctl env) tid) (M_channel (w_conn w)) (w_heap w1) (w_loop w1))
      (\<lambda>(h, l). delete_TcpConnection tid (w1\<lparr>w_heap := h, w_loop := l\<rparr>)) = Inr w2 \<and>
    w_syscalls w2 = w_syscalls w @ [Close (M_socket (w_conn w))] \<and> w_heap w2 (M_channel (w_conn w)) = None \<and>
    loop_channels (w_loop w2) = (loop_channels (w_loop w))(M_socket (w_conn w) := None)"
proof -
  let ?a = "M_channel (w_conn w)"
  note r = assms(2) [unfolded conn_reg_def]
  from loop_disable_remove_ok [OF assms(1), of tid "w_heap w" "w_loop w" ?a ch] r assms(3,5) obtain h1 p1 h2 p2 where
    1: "disableAll (loop_updateChannel (ctl env) tid) ?a (w_heap w) (w_loop w) = Inr (h1, (w_loop w)\<lparr>M_poller := p1\<rparr>)"
      "remove_channel (loop_removeChannel (ctl env) tid) ?a h1 ((w_loop w)\<lparr>M_poller := p1\<rparr>) = Inr (h2, (w_loop w)\<lparr>M_poller := p2\<rparr>)"
      "loop_reg tid h2 ((w_loop w)\<lparr>M_poller := p2\<rparr>)" "virtual_channels p2 = (loop_channels (w_loop w))(M_fd ch := None)"
      "same_but_index ((w_heap w)(?a \<mapsto> ch\<lparr>M_events := 0, M_addedToLoop := False\<rparr>)) h2" by auto
  from removed_channel_deletable [OF 1(5,3) _ assms(4)] 1(4) obtain c where
    "h2 ?a = Some c" "delete_Channel (isInLoopThread tid (w_loop w)) (loop_hasChannel tid ?a h2 ((w_loop w)\<lparr>M_poller := p2\<rparr>)) c = Inr ()"
    by (auto simp: loop_channels_def isInLoopThread_def)
  then show ?thesis using 1 r assms(6)
    by (simp add: on_channel_def delete_TcpConnection_def the_channel_def conn_inLoopThread_def isInLoopThread_def loop_channels_def
        delete_Socket_def sockets_close_def Let_def)
qed

section \<open>A sample connection\<close>

definition empty_buffer :: buffer where
  "empty_buffer = \<lparr>M_buffer = replicate 1032 0, M_readerIndex = 8, M_writerIndex = 8\<rparr>"

text \<open>A connection on descriptor 9 with one callback for everything, in the given state.\<close>

definition sample_connection :: "StateE \<Rightarrow> buffer \<Rightarrow> nat tcp_connection" where
  "sample_connection st out = \<lparr>M_connSelf = 50, M_connName = ''c'', M_state = st, M_socket = 9, M_channel = 3,
     M_localAddr = [], M_peerAddr = [], M_connectionCallback = Some 0, M_messageCallback = Some 0,
     M_writeCompleteCallback = None, M_highWaterMarkCallback = None, M_connCloseCallback = Some 0,
     M_highWaterMark = 64 * 1024 * 1024, M_inputBuffer = empty_buffer, M_outputBuffer = out, M_context = None, M_reading = True\<rparr>"

definition sample_conn_world :: "StateE \<Rightarrow> buffer \<Rightarrow> int32 \<Rightarrow> (nat, unit) conn_world" where
  "sample_conn_world st out ev = \<lparr>w_heap = [3 \<mapsto> (new_Channel 7 9)\<lparr>M_events := ev\<rparr>], w_loop = idle_loop 7 1,
     w_conn = sample_connection st out, w_wire = [], w_syscalls = [], w_called = [], w_rest = ()\<rparr>"

definition sample_conn_env :: "(int \<Rightarrow> byte list \<Rightarrow> int + nat) \<Rightarrow> (nat, unit) conn_env" where
  "sample_conn_env wr = \<lparr>ctl = kernel_ctl, sys_write = wr, sys_readv = \<lambda>_ _. Inr [], cb_body = \<lambda>_ _. CDone,
     close_body = \<lambda>_. Inr\<rparr>"

definition waiting_buffer :: buffer where
  "waiting_buffer = \<lparr>M_buffer = replicate 8 0 @ [104, 105, 33] @ replicate 1021 0, M_readerIndex = 8, M_writerIndex = 11\<rparr>"

lemma sample_buffers:
  "buf_inv empty_buffer" "contents empty_buffer = []" "buf_inv waiting_buffer" "contents waiting_buffer = [104, 105, 33]"
  by (simp_all add: empty_buffer_def waiting_buffer_def buf_inv_def contents_def max_size_def window_def)

lemma sample_conn_inv:
  assumes "buf_inv out" and "writing_ok st (isWriting ((new_Channel 7 9)\<lparr>M_events := ev\<rparr> :: nat net_functor channel)) (contents out)"
  shows "conn_inv 1 (sample_conn_world st out ev)"
  using assms sample_buffers
  by (intro conn_invI [of _ _ "(new_Channel 7 9)\<lparr>M_events := ev\<rparr>"])
    (auto simp: sample_conn_world_def sample_connection_def conn_reg_def loop_reg_def idle_loop_def
      new_Channel_def fits_def loop_channels_def new_PollPoller_inv new_PollPoller_channels)

lemma sample_env_ok: "write_bounded wr \<Longrightarrow> env_ok (sample_conn_env wr)" "write_bounded wr \<Longrightarrow> owner_ok 1 (sample_conn_env wr)"
  by (auto simp: env_ok_def owner_ok_def sample_conn_env_def epoll_documented_kernel_ctl readv_bounded_def
      close_frame_def)

section \<open>Properties\<close>


lemma kernel_takes_two: "write_bounded (\<lambda>_ d. Inr (min 2 (length d)))"
  by (simp add: write_bounded_def)


text \<open>C30. A write event empties the output buffer whatever the kernel took: the bytes beyond those
  taken are neither on the wire nor waiting any more. Only a write that takes all of them keeps
  the byte stream.\<close>

theorem partial_write_discards_rest:
  assumes "conn_inv tid w" and "env_ok env" and "M_state (w_conn w) \<noteq> kDisconnected"
    and "contents (M_outputBuffer (w_conn w)) = out" and "out \<noteq> []"
    and "sys_write env (M_socket (w_conn w)) out = Inr n" and "0 < n"
  shows "\<exists>w'. handleWrite env tid w = Inr w' \<and> conn_inv tid w' \<and> contents (M_outputBuffer (w_conn w')) = [] \<and>
    stream w = stream w' @ drop n out \<and> (stream w' = stream w \<longleftrightarrow> n = length out)"
proof -
  from assms(1,3-5) obtain ch where ch: "conn_reg tid w ch" "buf_inv (M_inputBuffer (w_conn w))"
    "buf_inv (M_outputBuffer (w_conn w))" "isWriting ch" by (auto simp: conn_inv_def writing_ok_def)
  have "n \<le> length out" using assms(2,6) by (auto simp: env_ok_def write_bounded_def)
  moreover have "sys_write env (M_fd ch) (contents (M_outputBuffer (w_conn w))) = Inr n"
    using ch(1) assms(4,6) by (simp add: conn_reg_def)
  from handleWrite_writes [OF ch(1-3) assms(2) ch(4) assms(3) this assms(7)] obtain w' where
    "handleWrite env tid w = Inr w'" "conn_inv tid w'" "contents (M_outputBuffer (w_conn w')) = []"
    "w_wire w' = w_wire w @ take n out" using assms(4) by auto
  ultimately show ?thesis using assms(4) by (auto simp: stream_def take_all_iff)
qed

lemma sample_writing: "writing_ok kConnected (isWriting ((new_Channel 7 9)\<lparr>M_events := kWriteEvent\<rparr> :: nat net_functor channel))
    (contents waiting_buffer)"
  using writing_bits(1) [of "new_Channel 7 9 :: nat net_functor channel" 0 0] sample_buffers
  by (simp add: writing_ok_def isWriting_def watched_channel_def)

theorem partial_write_discards_rest_witness:
  "\<exists>w'. handleWrite (sample_conn_env (\<lambda>_ d. Inr (min 2 (length d)))) 1
      (sample_conn_world kConnected waiting_buffer kWriteEvent) = Inr w' \<and>
    stream (sample_conn_world kConnected waiting_buffer kWriteEvent) = [104, 105, 33] \<and> stream w' = [104, 105]"
  using partial_write_discards_rest [of 1 "sample_conn_world kConnected waiting_buffer kWriteEvent"
      "sample_conn_env (\<lambda>_ d. Inr (min 2 (length d)))" "[104, 105, 33]" 2,
      OF sample_conn_inv [OF sample_buffers(3) sample_writing] sample_env_ok(1) [OF kernel_takes_two]] sample_buffers
  by (auto simp: sample_conn_world_def sample_connection_def stream_def sample_conn_env_def)

text \<open>C31. A shutdown by the loop thread half-closes the socket once nothing waits: at once when the
  output buffer is empty, otherwise after the write event that empties it, behind the bytes sent
  before. While bytes wait no shutdown is issued.\<close>

theorem graceful_shutdown:
  assumes "conn_inv tid w" and "env_ok env" and "M_state (w_conn w) = kConnected"
    and "contents (M_outputBuffer (w_conn w)) = out"
    and "sys_write env (M_socket (w_conn w)) out = Inr (length out)"
  shows "\<exists>w1 w2. shutdown tid w = Inr w1 \<and> M_state (w_conn w1) = kDisconnecting \<and> stream w1 = stream w \<and>
    w_syscalls w1 = w_syscalls w @ (if out = [] then [ShutdownWrite (M_socket (w_conn w))] else []) \<and>
    handleWrite env tid w1 = Inr w2 \<and> conn_inv tid w2 \<and> w_wire w2 = stream w \<and>
    w_syscalls w2 = w_syscalls w @ [ShutdownWrite (M_socket (w_conn w))]"
proof -
  let ?w = "setState kDisconnecting w"
  from assms(1,3,4) obtain ch where ch: "conn_reg tid w ch" "buf_inv (M_inputBuffer (w_conn w))"
    "buf_inv (M_outputBuffer (w_conn w))" "isWriting ch = (out \<noteq> [])" by (auto simp: conn_inv_def writing_ok_def)
  have reg: "conn_reg tid ?w ch" using ch(1) by simp
  have inv: "conn_inv tid ?w" using assms(1,3) by (simp add: conn_inv_disconnecting)
  define w1 where "w1 = (if isWriting ch then ?w
    else ?w\<lparr>w_syscalls := w_syscalls w @ [ShutdownWrite (M_socket (w_conn w))]\<rparr>)"
  have sh: "shutdown tid w = Inr w1"
    using assms(3) conn_regD(2) [OF reg] shutdownInLoop_ok [OF reg] by (simp add: shutdown_def conn_runInLoop_def w1_def)
  have reg1: "conn_reg tid w1 ch" and inv1: "conn_inv tid w1" and c1: "w_conn w1 = (w_conn w)\<lparr>M_state := kDisconnecting\<rparr>"
    and s1: "stream w1 = stream w" "w_wire w1 = w_wire w"
      "w_syscalls w1 = w_syscalls w @ (if out = [] then [ShutdownWrite (M_socket (w_conn w))] else [])"
    using reg inv ch(4) by (auto simp: w1_def conn_inv_def stream_def)
  show ?thesis
  proof (cases "out = []")
    case True
    then have "handleWrite env tid w1 = Inr w1" using ch c1 by (intro handleWrite_idle [OF reg1]) simp_all
    with True sh inv1 c1 s1 assms(4) show ?thesis by (auto simp: stream_def)
  next
    case False
    have "sys_write env (M_fd ch) (contents (M_outputBuffer (w_conn w1))) = Inr (length out)"
      using ch(1) assms(4,5) c1 by (simp add: conn_reg_def)
    from handleWrite_writes [OF reg1 _ _ assms(2) _ _ this] False ch c1 assms(4) obtain w2 where
      "handleWrite env tid w1 = Inr w2" "conn_inv tid w2" "w_wire w2 = w_wire w1 @ out"
      "w_syscalls w2 = w_syscalls w1 @ [ShutdownWrite (M_socket (w_conn w))]" by auto
    with False sh c1 s1 assms(4) show ?thesis by (auto simp: stream_def)
  qed
qed

theorem graceful_shutdown_witness:
  "\<exists>w1 w2. shutdown 1 (sample_conn_world kConnected waiting_buffer kWriteEvent) = Inr w1 \<and> w_syscalls w1 = [] \<and>
    handleWrite (sample_conn_env (\<lambda>_ d. Inr (length d))) 1 w1 = Inr w2 \<and> w_wire w2 = [104, 105, 33] \<and>
    w_syscalls w2 = [ShutdownWrite 9]"
  using graceful_shutdown [of 1 "sample_conn_world kConnected waiting_buffer kWriteEvent"
      "sample_conn_env (\<lambda>_ d. Inr (length d))" "[104, 105, 33]",
      OF sample_conn_inv [OF sample_buffers(3) sample_writing] sample_env_ok(1)] sample_buffers
  by (auto simp: sample_conn_world_def sample_connection_def stream_def sample_conn_env_def write_bounded_def)


text \<open>The sample connection comes up.\<close>

lemma sample_run:
  "\<exists>w. conn_run (\<lambda>env. env = sample_conn_env (\<lambda>_ d. Inr (length d))) 1 (sample_conn_world kConnecting empty_buffer 0) w \<and>
     M_state (w_conn w) = kConnected"
proof -
  let ?w0 = "sample_conn_world kConnecting empty_buffer 0" and ?env = "sample_conn_env (\<lambda>_ d. Inr (length d))"
  have "conn_inv 1 ?w0" using sample_buffers by (intro sample_conn_inv) (simp_all add: writing_ok_def isWriting_def has_bits_def)
  moreover have "env_ok ?env" by (rule sample_env_ok) (simp add: write_bounded_def)
  moreover have "M_state (w_conn ?w0) = kConnecting" "M_connectionCallback (w_conn ?w0) = Some 0"
    by (simp_all add: sample_conn_world_def sample_connection_def)
  ultimately obtain w1 where w1: "connectEstablished ?env 1 ?w0 = call_callback ?env 1 ''M_connectionCallback'' (Some 0) OnConnection w1"
      "w_conn w1 = (w_conn ?w0)\<lparr>M_state := kConnected\<rparr>"
    using connectEstablished_up [of 1 ?w0 ?env] by auto
  let ?w2 = "w1\<lparr>w_called := w_called w1 @ [(0, OnConnection)]\<rparr>"
  have "cb_body ?env = (\<lambda>_ _. CDone)" by (simp add: sample_conn_env_def)
  have "run_conn_task ?env 1 Inr ConnectEstablished ?w0 = Inr ?w2"
    using \<open>cb_body ?env = (\<lambda>_ _. CDone)\<close> by (simp add: w1(1) call_callback_def call_user_def)
  then have "conn_step (\<lambda>env. env = ?env) 1 ?w0 ?w2"
    by (intro conn_step.task [where env = ?env and t = ConnectEstablished]) simp_all
  from conn_run.step [OF conn_run.start this] w1(2) show ?thesis by (intro exI [of _ ?w2]) simp
qed


lemma startRead_switches_on:
  assumes "conn_inv tid w" and "env_ok env"
  shows "\<exists>w' ch. startRead env tid w = Inr w' \<and> conn_inv tid w' \<and> conn_reg tid w' ch \<and> isReading ch \<and>
    w_conn w' = (w_conn w)\<lparr>M_reading := True\<rparr>"
proof -
  from assms(1) obtain ch where reg: "conn_reg tid w ch" by (rule conn_invE)
  show ?thesis
  proof (cases "M_reading (w_conn w) \<and> isReading ch")
    case True
    then have "startRead env tid w = Inr w"
      by (simp add: startRead_def conn_runInLoop_def startReadInLoop_def conn_regD [OF reg])
    with True reg assms(1) show ?thesis by auto
  next
    case False
    let ?r = "\<lambda>c. c\<lparr>M_reading := True\<rparr>"
    from on_channel_ok [OF reg assms(2), of enableReading "\<lambda>ev. ev OR kReadEvent"] obtain h l i where
      on: "on_channel enableReading env tid w = Inr (w\<lparr>w_heap := h, w_loop := l\<rparr>)"
        "conn_reg tid (w\<lparr>w_heap := h, w_loop := l\<rparr>) (watched_channel ch (M_events ch OR kReadEvent) i)"
      by (auto simp: enableReading_def)
    from switch_reading_ok [OF assms, of enableReading "\<lambda>ev. ev OR kReadEvent" True] obtain h' l' where
      same: "on_channel enableReading env tid w = Inr (w\<lparr>w_heap := h', w_loop := l'\<rparr>)"
        "conn_inv tid (set_conn ?r (w\<lparr>w_heap := h', w_loop := l'\<rparr>))" by auto
    have "w\<lparr>w_heap := h, w_loop := l\<rparr> = w\<lparr>w_heap := h', w_loop := l'\<rparr>" using on(1) same(1) by simp
    with same(2) have "conn_inv tid (set_conn ?r (w\<lparr>w_heap := h, w_loop := l\<rparr>))" by metis
    moreover have "startRead env tid w = Inr (set_conn ?r (w\<lparr>w_heap := h, w_loop := l\<rparr>))"
      using False on(1)
      by (auto simp: startRead_def conn_runInLoop_def startReadInLoop_def conn_regD [OF reg])
    moreover have "isReading (watched_channel ch (M_events ch OR kReadEvent) i)"
      by (simp add: isReading_def has_bits_def event_masks word_ao_absorbs)
    ultimately show ?thesis using on(2)
      by (intro exI [of _ "set_conn ?r (w\<lparr>w_heap := h, w_loop := l\<rparr>)"] exI [of _ "watched_channel ch (M_events ch OR kReadEvent) i"])
        simp
  qed
qed

text \<open>Calling \<^verbatim>\<open>startRead\<close> on a connection that is down switches its channel on again; the next read
  event, at the end of the stream, then aborts the process in \<^verbatim>\<open>handleClose\<close>.\<close>

theorem startRead_after_close_aborts:
  assumes "conn_inv tid w" and "env_ok env" and "M_state (w_conn w) = kDisconnected"
    and "\<forall>lens. sys_readv env (M_socket (w_conn w)) lens = Inr []"
  shows "\<exists>w' ch. startRead env tid w = Inr w' \<and> w_heap w' (M_channel (w_conn w)) = Some ch \<and> isReading ch \<and>
    conn_handleRead env tid t w' =
      Inl (AssertFailed ''M_state == kConnected || M_state == kDisconnecting'')"
proof -
  from startRead_switches_on [OF assms(1,2)] obtain w' ch where
    w': "startRead env tid w = Inr w'" "conn_reg tid w' ch" "isReading ch" "w_conn w' = (w_conn w)\<lparr>M_reading := True\<rparr>"
    by blast
  have "readFd (sys_readv env) (M_fd ch) b = Inr (0, None, b\<lparr>M_buffer := splice_at (M_buffer b) (unat (M_writerIndex b)) []\<rparr>)" for b
    using w'(2,4) assms(4) by (simp add: readFd_def Let_def conn_reg_def)
  then have "conn_handleRead env tid t w' = Inl (AssertFailed ''M_state == kConnected || M_state == kDisconnecting'')"
    using w'(4) assms(3) conn_regD(2) [OF w'(2)]
    by (simp add: conn_handleRead_def conn_regD(1) [OF w'(2)] handleClose_def conn_inLoopThread_def)
  with w' show ?thesis by (auto simp: conn_reg_def)
qed

theorem startRead_after_close_aborts_witness:
  "\<exists>w' ch. startRead (sample_conn_env (\<lambda>_ d. Inr (length d))) 1 (sample_conn_world kDisconnected empty_buffer 0) = Inr w' \<and>
    w_heap w' 3 = Some ch \<and> isReading ch \<and>
    conn_handleRead (sample_conn_env (\<lambda>_ d. Inr (length d))) 1 (Timestamp 0) w' =
      Inl (AssertFailed ''M_state == kConnected || M_state == kDisconnecting'')"
proof -
  have "conn_inv 1 (sample_conn_world kDisconnected empty_buffer 0)"
    using sample_buffers by (intro sample_conn_inv) (simp_all add: writing_ok_def isWriting_def has_bits_def)
  moreover have "env_ok (sample_conn_env (\<lambda>_ d. Inr (length d)))" by (rule sample_env_ok) (simp add: write_bounded_def)
  ultimately show ?thesis
    using startRead_after_close_aborts [where t = "Timestamp 0"]
    by (fastforce simp: sample_conn_world_def sample_connection_def sample_conn_env_def)
qed

end
