(* ===== verification/Acceptor.thy ===== *)
theory Acceptor
  imports Callbacks
begin

text \<open>
  The class \<^verbatim>\<open>Acceptor\<close> (include/Acceptor.h, src/Acceptor.cpp).

  \<^item> \<open>acc_world\<close> is what an operation of an acceptor acts on: the acceptor, its loop with the loop's
    channels, the descriptors, and the system calls made for their effect. \<open>a_rest\<close> is the state
    of the owner of the acceptor, reached by the new-connection callback only.
  \<^item> The answers of the kernel are arguments. \<open>new_conn\<close> is the effect of the new-connection callback.
  \<^item> \<^verbatim>\<open>newConnectionCallback(connfd, peerAddr)\<close> is read as a call of the member.
\<close>

record 'u acceptor =
  M_acceptorSelf :: nat
  M_acceptSocket :: int
  M_acceptChannel :: nat
  M_newConnectionCallback :: "'u option"
  M_listenning :: bool
  M_idleFd :: int

record ('u, 's) acc_world =
  a_heap :: "'u net_heap"
  a_loop :: "'u net_loop"
  a_acc :: "'u acceptor"
  a_fds :: fd_table
  a_syscalls :: "syscall list"
  a_rest :: 's

section \<open>Operations\<close>

text \<open>\<^verbatim>\<open>open("/dev/null", O_RDONLY | O_CLOEXEC)\<close>.\<close>

definition open_devnull :: "int + int \<Rightarrow> fd_table \<Rightarrow> int \<times> fd_table" where
  "open_devnull answer t =
     (case answer of
        Inl e \<Rightarrow> (-1, t\<lparr>errno := e\<rparr>)
      | Inr fd \<Rightarrow> (fd, t\<lparr>status_flags := (status_flags t)(fd \<mapsto> 0),
                          descriptor_flags := (descriptor_flags t)(fd \<mapsto> FD_CLOEXEC)\<rparr>))"

definition do_close :: "int \<Rightarrow> ('u, 's) acc_world \<Rightarrow> ('u, 's) acc_world" where
  "do_close fd w = w\<lparr>a_fds := close_fd fd (a_fds w), a_syscalls := a_syscalls w @ sockets_close fd\<rparr>"

definition new_Acceptor :: "nat \<Rightarrow> sockaddr \<Rightarrow> bool \<Rightarrow> nat \<Rightarrow> int + int \<times> int32 \<Rightarrow> int + int \<Rightarrow> 'u net_heap \<Rightarrow>
    'u net_loop \<Rightarrow> fd_table \<Rightarrow> 's \<Rightarrow> ('u, 's) acc_world res" where
  "new_Acceptor this listenAddr reuseport chan socket devnull h l t s =
     (let (sockfd, t) = createNonblockingOrDie socket t;
          acceptChannel = new_Channel (M_self l) sockfd;
          (idleFd, t) = open_devnull devnull t
      in assertr (0 \<le> idleFd) ''M_idleFd >= 0''
          (Inr \<lparr>a_heap = h(chan \<mapsto> setReadCallback (User (AcceptorRead this)) acceptChannel), a_loop = l,
             a_acc = \<lparr>M_acceptorSelf = this, M_acceptSocket = sockfd, M_acceptChannel = chan,
               M_newConnectionCallback = None, M_listenning = False, M_idleFd = idleFd\<rparr>,
             a_fds = t, a_syscalls = setReuseAddr sockfd True @ setReusePort sockfd reuseport @ bindAddress sockfd listenAddr,
             a_rest = s\<rparr>))"

definition setNewConnectionCallback :: "'u \<Rightarrow> 'u acceptor \<Rightarrow> 'u acceptor" where
  "setNewConnectionCallback cb a = a\<lparr>M_newConnectionCallback := Some cb\<rparr>"

definition listenning :: "'u acceptor \<Rightarrow> bool" where
  "listenning a = M_listenning a"

definition acceptor_listen :: "epoll_ctl \<Rightarrow> int \<Rightarrow> ('u, 's) acc_world \<Rightarrow> ('u, 's) acc_world res" where
  "acceptor_listen ctl tid w =
     assertInLoopThread (isInLoopThread tid (a_loop w))
       (let w = w\<lparr>a_acc := (a_acc w)\<lparr>M_listenning := True\<rparr>,
                  a_syscalls := a_syscalls w @ Socket_listen (M_acceptSocket (a_acc w))\<rparr>
        in bindr (enableReading (loop_updateChannel ctl tid) (M_acceptChannel (a_acc w)) (a_heap w) (a_loop w))
             (\<lambda>(h, l). Inr (w\<lparr>a_heap := h, a_loop := l\<rparr>)))"

text \<open>The destructor: its body, then the members \<^verbatim>\<open>M_acceptChannel\<close> and \<^verbatim>\<open>M_acceptSocket\<close>.\<close>

definition delete_Acceptor :: "epoll_ctl \<Rightarrow> int \<Rightarrow> ('u, 's) acc_world \<Rightarrow> ('u, 's) acc_world res" where
  "delete_Acceptor ctl tid w =
     (let a = M_acceptChannel (a_acc w) in
      bindr (disableAll (loop_updateChannel ctl tid) a (a_heap w) (a_loop w)) (\<lambda>(h, l).
      bindr (remove_channel (loop_removeChannel ctl tid) a h l) (\<lambda>(h, l).
        let w = do_close (M_idleFd (a_acc w)) (w\<lparr>a_heap := h, a_loop := l\<rparr>) in
        with_channel h a (\<lambda>ch.
          bindr (delete_Channel (isInLoopThread tid l) (loop_hasChannel tid a h l) ch) (\<lambda>_.
            Inr (do_close (M_acceptSocket (a_acc w)) (w\<lparr>a_heap := h(a := None)\<rparr>)))))))"

text \<open>The answers for one call of \<open>handleRead\<close>.\<close>

record accept_answers =
  ans_accept :: "int + int \<times> int32"
  ans_peer :: sockaddr
  ans_idle_accept :: "int + int \<times> int32"
  ans_devnull :: "int + int"

definition acceptor_handleRead :: "('u \<Rightarrow> int \<Rightarrow> sockaddr \<Rightarrow> ('u, 's) acc_world \<Rightarrow> ('u, 's) acc_world res) \<Rightarrow>
    accept_answers \<Rightarrow> int \<Rightarrow> ('u, 's) acc_world \<Rightarrow> ('u, 's) acc_world res" where
  "acceptor_handleRead new_conn ans tid w =
     assertInLoopThread (isInLoopThread tid (a_loop w))
       (let peerAddr = replicate sizeof_sockaddr_in6 0;
            (connfd, peerAddr, t) = Socket_accept (ans_accept ans) (ans_peer ans) peerAddr (a_fds w);
            w = w\<lparr>a_fds := t\<rparr>
        in if 0 \<le> connfd then
             case M_newConnectionCallback (a_acc w) of
               Some cb \<Rightarrow> new_conn cb connfd peerAddr w
             | None \<Rightarrow> Inr (do_close connfd w)
           else if errno (a_fds w) = EMFILE then
             let w = do_close (M_idleFd (a_acc w)) w;
                 (idleFd, t) = kernel_fd (ans_idle_accept ans) (a_fds w);
                 w = w\<lparr>a_fds := t, a_syscalls := a_syscalls w @ [AcceptNull (M_acceptSocket (a_acc w))]\<rparr>;
                 w = do_close idleFd w;
                 (idleFd, t) = open_devnull (ans_devnull ans) (a_fds w)
             in Inr (w\<lparr>a_fds := t, a_syscalls := a_syscalls w @ [OpenDevNull], a_acc := (a_acc w)\<lparr>M_idleFd := idleFd\<rparr>\<rparr>)
           else Inr w)"

section \<open>Registration\<close>

text \<open>The acceptor's channel is in the heap and its descriptor may be registered.\<close>

definition acc_reg :: "int \<Rightarrow> ('u, 's) acc_world \<Rightarrow> 'u net_functor channel \<Rightarrow> bool" where
  "acc_reg tid w ch \<longleftrightarrow>
     loop_reg tid (a_heap w) (a_loop w) \<and> a_heap w (M_acceptChannel (a_acc w)) = Some ch \<and>
     M_fd ch = M_acceptSocket (a_acc w) \<and> 0 \<le> M_fd ch \<and> \<not> M_eventHandling ch \<and>
     fits (loop_channels (a_loop w)) (M_acceptChannel (a_acc w)) ch"

lemma new_Acceptor_ok:
  assumes "loop_reg tid h l" and "\<forall>fd. loop_channels l fd \<noteq> Some chan" and "loop_channels l fd = None"
    and "0 \<le> fd" and "0 \<le> idle" and "fd \<noteq> idle"
  shows "\<exists>w. new_Acceptor this addr reuse chan (Inr (fd, flags)) (Inr idle) h l t s = Inr w \<and>
    acc_reg tid w (setReadCallback (User (AcceptorRead this)) (new_Channel (M_self l) fd)) \<and>
    M_acceptSocket (a_acc w) = fd \<and> M_acceptChannel (a_acc w) = chan \<and> M_idleFd (a_acc w) = idle \<and> a_loop w = l \<and>
    open_fd (a_fds w) fd \<and> open_fd (a_fds w) idle \<and>
    a_syscalls w = [SetSockOpt fd SO_REUSEADDR 1, Bind fd (take sizeof_sockaddr_in (getSockAddr addr))]"
proof -
  let ?c = "setReadCallback (User (AcceptorRead this)) (new_Channel (M_self l) fd) :: 'a net_functor channel"
  have "loop_reg tid (h(chan \<mapsto> ?c)) l"
    by (rule loop_reg_fresh [OF assms(1,2)]) (simp add: setReadCallback_def new_Channel_def)
  moreover have "fits (loop_channels l) chan ?c" using assms(3) by (simp add: fits_def setReadCallback_def new_Channel_def)
  moreover have "open_fd (install_fd fd flags t) fd" using assms(4) by (simp add: open_fd_install)
  from setNonBlock_open [OF this] have "createNonblockingOrDie (Inr (fd, flags)) t =
      (fd, t\<lparr>status_flags := (status_flags t)(fd \<mapsto> flags OR O_NONBLOCK), descriptor_flags := (descriptor_flags t)(fd \<mapsto> FD_CLOEXEC)\<rparr>)"
    by (simp add: createNonblockingOrDie_def kernel_fd_def install_fd_def)
  ultimately show ?thesis using assms(4-6)
    by (simp add: new_Acceptor_def acc_reg_def open_devnull_def setReuseAddr_def setReusePort_def bindAddress_def
        bindOrDie_def open_fd_def setReadCallback_def new_Channel_def Let_def)
qed

lemma acceptor_listen_ok:
  assumes "epoll_documented ctl" and "acc_reg tid w ch"
  shows "\<exists>p i w'. acceptor_listen ctl tid w = Inr w' \<and>
    w' = w\<lparr>a_heap := watch (a_heap w) (M_acceptChannel (a_acc w)) ch (M_events ch OR kReadEvent) i,
      a_loop := (a_loop w)\<lparr>M_poller := p\<rparr>, a_acc := (a_acc w)\<lparr>M_listenning := True\<rparr>,
      a_syscalls := a_syscalls w @ [Listen (M_acceptSocket (a_acc w)) SOMAXCONN]\<rparr> \<and>
    acc_reg tid w' (watched_channel ch (M_events ch OR kReadEvent) i) \<and>
    loop_channels (a_loop w') = (loop_channels (a_loop w))(M_acceptSocket (a_acc w) \<mapsto> M_acceptChannel (a_acc w))"
proof -
  let ?a = "M_acceptChannel (a_acc w)"
  note r = assms(2) [unfolded acc_reg_def]
  from loop_set_events_ok [OF assms(1), of tid "a_heap w" "a_loop w" ?a ch "\<lambda>ev. ev OR kReadEvent"] r obtain p i where
    "enableReading (loop_updateChannel ctl tid) ?a (a_heap w) (a_loop w) =
       Inr (watch (a_heap w) ?a ch (M_events ch OR kReadEvent) i, (a_loop w)\<lparr>M_poller := p\<rparr>)"
    "loop_reg tid (watch (a_heap w) ?a ch (M_events ch OR kReadEvent) i) ((a_loop w)\<lparr>M_poller := p\<rparr>)"
    "virtual_channels p = (loop_channels (a_loop w))(M_fd ch \<mapsto> ?a)"
    by (auto simp: enableReading_def)
  moreover have "isInLoopThread tid (a_loop w)" using r by (simp add: loop_reg_def isInLoopThread_def)
  ultimately show ?thesis using r
    by (intro exI [of _ p] exI [of _ i])
      (simp add: acceptor_listen_def Socket_listen_def listenOrDie_def acc_reg_def loop_channels_def fits_def
        watched_channel_def)
qed

lemma delete_Acceptor_ok:
  assumes "epoll_documented ctl" and "acc_reg tid w ch" and "\<not> M_loopEventHandling (a_loop w)"
    and "loop_channels (a_loop w) (M_fd ch) = Some (M_acceptChannel (a_acc w))"
    and "open_fd (a_fds w) (M_idleFd (a_acc w))" and "open_fd (a_fds w) (M_acceptSocket (a_acc w))"
    and "M_idleFd (a_acc w) \<noteq> M_acceptSocket (a_acc w)"
  shows "\<exists>w'. delete_Acceptor ctl tid w = Inr w' \<and>
    loop_channels (a_loop w') = (loop_channels (a_loop w))(M_fd ch := None) \<and>
    a_syscalls w' = a_syscalls w @ [Close (M_idleFd (a_acc w)), Close (M_acceptSocket (a_acc w))] \<and>
    \<not> open_fd (a_fds w') (M_idleFd (a_acc w)) \<and> \<not> open_fd (a_fds w') (M_acceptSocket (a_acc w)) \<and>
    errno (a_fds w') = errno (a_fds w)"
proof -
  let ?a = "M_acceptChannel (a_acc w)"
  note r = assms(2) [unfolded acc_reg_def]
  from loop_disable_remove_ok [OF assms(1), of tid "a_heap w" "a_loop w" ?a ch] r assms(3,4) obtain h1 p1 h2 p2 where
    1: "disableAll (loop_updateChannel ctl tid) ?a (a_heap w) (a_loop w) = Inr (h1, (a_loop w)\<lparr>M_poller := p1\<rparr>)"
      "remove_channel (loop_removeChannel ctl tid) ?a h1 ((a_loop w)\<lparr>M_poller := p1\<rparr>) = Inr (h2, (a_loop w)\<lparr>M_poller := p2\<rparr>)"
      "loop_reg tid h2 ((a_loop w)\<lparr>M_poller := p2\<rparr>)" "virtual_channels p2 = (loop_channels (a_loop w))(M_fd ch := None)"
      "same_but_index ((a_heap w)(?a \<mapsto> ch\<lparr>M_events := 0, M_addedToLoop := False\<rparr>)) h2" by auto
  from removed_channel_deletable [OF 1(5,3)] 1(4) r obtain c where
    "h2 ?a = Some c" "delete_Channel True (loop_hasChannel tid ?a h2 ((a_loop w)\<lparr>M_poller := p2\<rparr>)) c = Inr ()"
    by (auto simp: loop_channels_def loop_reg_def isInLoopThread_def)
  then show ?thesis using 1 r assms(5-7)
    by (auto simp: delete_Acceptor_def do_close_def close_fd_def sockets_close_def loop_channels_def
        Let_def open_fd_def loop_reg_def isInLoopThread_def)
qed

section \<open>Properties\<close>

text \<open>The life of an acceptor that listens, on either poller: the constructor reserves a spare
  descriptor and binds, \<^verbatim>\<open>listen\<close> registers the channel for reading, and the destructor fails no
  assertion, takes the channel out and closes both descriptors.\<close>

theorem acceptor_lifecycle:
  assumes "epoll_documented ctl" and "loop_reg tid h l" and "\<forall>fd. loop_channels l fd \<noteq> Some chan"
    and "loop_channels l fd = None" and "0 \<le> fd" and "0 \<le> idle" and "fd \<noteq> idle" and "\<not> M_loopEventHandling l"
  shows "\<exists>w1 w2 ch w3. new_Acceptor this addr reuse chan (Inr (fd, flags)) (Inr idle) h l t s = Inr w1 \<and>
    acceptor_listen ctl tid w1 = Inr w2 \<and> listenning (a_acc w2) \<and>
    a_heap w2 chan = Some ch \<and> isReading ch \<and> loop_channels (a_loop w2) = (loop_channels l)(fd \<mapsto> chan) \<and>
    delete_Acceptor ctl tid w2 = Inr w3 \<and> loop_channels (a_loop w3) = loop_channels l \<and>
    \<not> open_fd (a_fds w3) fd \<and> \<not> open_fd (a_fds w3) idle \<and>
    a_syscalls w3 = [SetSockOpt fd SO_REUSEADDR 1, Bind fd (take sizeof_sockaddr_in (getSockAddr addr)),
      Listen fd SOMAXCONN, Close idle, Close fd]"
proof -
  let ?c = "setReadCallback (User (AcceptorRead this)) (new_Channel (M_self l) fd) :: 'a net_functor channel"
  from new_Acceptor_ok [OF assms(2-7), of this addr reuse flags t s] obtain w1 where
    1: "new_Acceptor this addr reuse chan (Inr (fd, flags)) (Inr idle) h l t s = Inr w1" "acc_reg tid w1 ?c"
      "M_acceptSocket (a_acc w1) = fd" "M_acceptChannel (a_acc w1) = chan" "M_idleFd (a_acc w1) = idle" "a_loop w1 = l"
      "open_fd (a_fds w1) fd" "open_fd (a_fds w1) idle"
      "a_syscalls w1 = [SetSockOpt fd SO_REUSEADDR 1, Bind fd (take sizeof_sockaddr_in (getSockAddr addr))]" by blast
  from acceptor_listen_ok [OF assms(1) 1(2)] obtain p i w2 where
    2: "acceptor_listen ctl tid w1 = Inr w2"
      "w2 = w1\<lparr>a_heap := watch (a_heap w1) chan ?c (M_events ?c OR kReadEvent) i, a_loop := l\<lparr>M_poller := p\<rparr>,
         a_acc := (a_acc w1)\<lparr>M_listenning := True\<rparr>, a_syscalls := a_syscalls w1 @ [Listen fd SOMAXCONN]\<rparr>"
      "acc_reg tid w2 (watched_channel ?c (M_events ?c OR kReadEvent) i)"
      "loop_channels (a_loop w2) = (loop_channels l)(fd \<mapsto> chan)" unfolding 1(3,4,6) by blast
  let ?d = "watched_channel ?c (M_events ?c OR kReadEvent) i"
  have fd: "M_fd ?d = fd" by (simp add: setReadCallback_def new_Channel_def)
  have "isReading ?d" by (simp add: isReading_def has_bits_def event_masks setReadCallback_def new_Channel_def)
  moreover have "a_heap w2 chan = Some ?d" "listenning (a_acc w2)" using 2(2) by (simp_all add: listenning_def)
  moreover have w2: "M_acceptSocket (a_acc w2) = fd" "M_acceptChannel (a_acc w2) = chan" "M_idleFd (a_acc w2) = idle"
    "a_fds w2 = a_fds w1" "M_loopEventHandling (a_loop w2) = M_loopEventHandling l" using 1(3-5) 2(2) by simp_all
  from delete_Acceptor_ok [OF assms(1) 2(3), unfolded w2 fd 2(4)] 1(7,8) assms(7,8) obtain w3 where
    "delete_Acceptor ctl tid w2 = Inr w3" "loop_channels (a_loop w3) = (loop_channels l)(fd := None)"
    "a_syscalls w3 = a_syscalls w2 @ [Close idle, Close fd]" "\<not> open_fd (a_fds w3) idle" "\<not> open_fd (a_fds w3) fd"
    by auto
  moreover have "(loop_channels l)(fd := None) = loop_channels l" using assms(4) by (simp add: fun_upd_idem)
  ultimately show ?thesis using 1(1) 1(9) 2 by auto
qed

theorem acceptor_lifecycle_witness:
  "\<exists>w1 w2 ch w3. new_Acceptor 30 [] True 3 (Inr (9, 2)) (Inr 10) Map.empty (idle_loop 7 1 :: nat net_loop) sample_fds () = Inr w1 \<and>
    acceptor_listen kernel_ctl 1 w1 = Inr w2 \<and> listenning (a_acc w2) \<and>
    a_heap w2 3 = Some ch \<and> isReading ch \<and> loop_channels (a_loop w2) = [9 \<mapsto> 3] \<and>
    delete_Acceptor kernel_ctl 1 w2 = Inr w3 \<and> loop_channels (a_loop w3) = Map.empty \<and>
    \<not> open_fd (a_fds w3) 9 \<and> \<not> open_fd (a_fds w3) 10 \<and>
    a_syscalls w3 = [SetSockOpt 9 SO_REUSEADDR 1, Bind 9 (take sizeof_sockaddr_in (getSockAddr [])),
      Listen 9 SOMAXCONN, Close 10, Close 9]"
  using acceptor_lifecycle [OF epoll_documented_kernel_ctl idle_loop_reg(1), where chan = 3 and fd = 9 and idle = 10
      and this = 30 and flags = 2 and t = sample_fds and s = "()" and addr = "[]" and reuse = True]
  by (simp add: idle_loop_reg(2), simp add: idle_loop_def)

text \<open>C36. What \<^verbatim>\<open>handleRead\<close> does with the answer of \<^verbatim>\<open>accept\<close>. An accepted connection is handed to the
  callback with its descriptor open, non-blocking and closed on exec; without a callback it is
  closed and the descriptors are those from before. An accept that fails, whatever the error,
  changes nothing but \<open>errno\<close>, which reads \<^verbatim>\<open>EBADF\<close>: the branch for \<^verbatim>\<open>EMFILE\<close>, which would drop the
  pending connection with the help of the spare descriptor, is never taken.\<close>

theorem acceptor_handleRead_results:
  assumes "isInLoopThread tid (a_loop w)" and "0 \<le> fd" and "\<not> open_fd (a_fds w) fd" and "storage (ans_peer ans)"
  shows "(ans_accept ans = Inl e \<longrightarrow>
      acceptor_handleRead new_conn ans tid w = Inr (w\<lparr>a_fds := (a_fds w)\<lparr>errno := EBADF\<rparr>\<rparr>)) \<and>
    (ans_accept ans = Inr (fd, flags) \<longrightarrow>
      (case M_newConnectionCallback (a_acc w) of
         Some cb \<Rightarrow> \<exists>peerAddr t. acceptor_handleRead new_conn ans tid w = new_conn cb fd peerAddr (w\<lparr>a_fds := t\<rparr>) \<and>
           status_flags t = (status_flags (a_fds w))(fd \<mapsto> flags OR O_NONBLOCK) \<and>
           descriptor_flags t = (descriptor_flags (a_fds w))(fd \<mapsto> FD_CLOEXEC) \<and>
           take sizeof_sockaddr peerAddr = take sizeof_sockaddr (ans_peer ans)
       | None \<Rightarrow> \<exists>t. acceptor_handleRead new_conn ans tid w =
             Inr (w\<lparr>a_fds := t, a_syscalls := a_syscalls w @ [Close fd]\<rparr>) \<and>
           (\<forall>x. open_fd t x = open_fd (a_fds w) x)))"
proof (intro conjI impI)
  assume "ans_accept ans = Inl e"
  with assms(1) show "acceptor_handleRead new_conn ans tid w = Inr (w\<lparr>a_fds := (a_fds w)\<lparr>errno := EBADF\<rparr>\<rparr>)"
    by (simp add: acceptor_handleRead_def Socket_accept_def sockets_accept_failed EBADF_def EMFILE_def)
next
  let ?t = "(a_fds w)\<lparr>status_flags := (status_flags (a_fds w))(fd \<mapsto> flags OR O_NONBLOCK),
    descriptor_flags := (descriptor_flags (a_fds w))(fd \<mapsto> FD_CLOEXEC)\<rparr>"
  let ?a = "splice_at (replicate sizeof_sockaddr_in6 0) 0 (take sizeof_sockaddr (ans_peer ans)) :: sockaddr"
  assume "ans_accept ans = Inr (fd, flags)"
  with assms(1,2) have *: "acceptor_handleRead new_conn ans tid w =
      (case M_newConnectionCallback (a_acc w) of Some cb \<Rightarrow> new_conn cb fd ?a (w\<lparr>a_fds := ?t\<rparr>)
       | None \<Rightarrow> Inr (do_close fd (w\<lparr>a_fds := ?t\<rparr>)))"
    by (simp add: acceptor_handleRead_def Socket_accept_def sockets_accept_ok setSockAddrInet6_def split: option.split)
  have "take sizeof_sockaddr ?a = take sizeof_sockaddr (ans_peer ans)"
    using assms(4) by (simp add: splice_at_def storage_def sizeof_sockaddr_def sizeof_sockaddr_in6_def)
  moreover have "\<forall>x. open_fd (close_fd fd ?t) x = open_fd (a_fds w) x"
    using assms(2,3) by (auto simp: close_fd_def open_fd_def)
  ultimately show "case M_newConnectionCallback (a_acc w) of
         Some cb \<Rightarrow> \<exists>peerAddr t. acceptor_handleRead new_conn ans tid w = new_conn cb fd peerAddr (w\<lparr>a_fds := t\<rparr>) \<and>
           status_flags t = (status_flags (a_fds w))(fd \<mapsto> flags OR O_NONBLOCK) \<and>
           descriptor_flags t = (descriptor_flags (a_fds w))(fd \<mapsto> FD_CLOEXEC) \<and>
           take sizeof_sockaddr peerAddr = take sizeof_sockaddr (ans_peer ans)
       | None \<Rightarrow> \<exists>t. acceptor_handleRead new_conn ans tid w =
             Inr (w\<lparr>a_fds := t, a_syscalls := a_syscalls w @ [Close fd]\<rparr>) \<and>
           (\<forall>x. open_fd t x = open_fd (a_fds w) x)"
    unfolding *
    by (cases "M_newConnectionCallback (a_acc w)", (auto simp: do_close_def sockets_close_def)[],
      simp, intro exI [of _ ?a] exI [of _ ?t], simp)
qed

text \<open>An acceptor without a callback, on descriptor 9.\<close>

definition sample_acceptor :: "(nat, unit) acc_world" where
  "sample_acceptor = \<lparr>a_heap = Map.empty, a_loop = idle_loop 7 1,
     a_acc = \<lparr>M_acceptorSelf = 30, M_acceptSocket = 9, M_acceptChannel = 3, M_newConnectionCallback = None,
       M_listenning = True, M_idleFd = 10\<rparr>, a_fds = sample_fds, a_syscalls = [], a_rest = ()\<rparr>"

definition sample_answers :: "int + int \<times> int32 \<Rightarrow> accept_answers" where
  "sample_answers a = \<lparr>ans_accept = a, ans_peer = sample_peer6, ans_idle_accept = Inr (11, 0), ans_devnull = Inr 10\<rparr>"

theorem acceptor_handleRead_results_witness:
  "acceptor_handleRead (\<lambda>_ _ _. Inr) (sample_answers (Inl EMFILE)) 1 sample_acceptor =
     Inr (sample_acceptor\<lparr>a_fds := (a_fds sample_acceptor)\<lparr>errno := EBADF\<rparr>\<rparr>) \<and>
   (\<exists>t. acceptor_handleRead (\<lambda>_ _ _. Inr) (sample_answers (Inr (12, 0))) 1 sample_acceptor =
     Inr (sample_acceptor\<lparr>a_fds := t, a_syscalls := [Close 12]\<rparr>))"
proof -
  have h: "isInLoopThread 1 (a_loop sample_acceptor)" "\<not> open_fd (a_fds sample_acceptor) 12"
    by (simp_all add: sample_acceptor_def idle_loop_def isInLoopThread_def sample_fds_def open_fd_def)
  have peer: "storage (ans_peer (sample_answers a))" for a by (simp add: sample_answers_def sample_peer6)
  note r = acceptor_handleRead_results [OF h(1) _ h(2) peer, where new_conn = "\<lambda>_ _ _. Inr" and e = EMFILE and flags = 0]
  from r [of "Inl EMFILE"] r [of "Inr (12, 0)"] show ?thesis by (auto simp: sample_answers_def sample_acceptor_def)
qed

text \<open>An acceptor that is destroyed before it listens: \<^verbatim>\<open>disableAll\<close> registers the channel, and the entry
  of \<^verbatim>\<open>PollPoller\<close> is not the one \<^verbatim>\<open>removeChannel\<close> expects.\<close>

lemma delete_Acceptor_before_listen:
  "\<exists>w e. new_Acceptor 30 [] True 3 (Inr (9, 2)) (Inr 10) Map.empty (idle_loop 7 1 :: nat net_loop) sample_fds () = Inr w \<and>
     delete_Acceptor kernel_ctl 1 w = Inl (AssertFailed e)"
  by (simp add: new_Acceptor_def delete_Acceptor_def open_devnull_def createNonblockingOrDie_def kernel_fd_def
      disableAll_def set_events_def update_def loop_updateChannel_def ownerLoop_def isInLoopThread_def idle_loop_def
      setReadCallback_def new_Channel_def poll_updateChannel_def new_PollPoller_def remove_channel_def loop_removeChannel_def
      poll_removeChannel_def isNoneEvent_def kNoneEvent_def set_index_def assertr_def Let_def)

end
