(* ===== verification/EventLoopThreadPool.thy ===== *)
theory EventLoopThreadPool
  imports Poller Format Buffer
begin

text \<open>
  The class \<^verbatim>\<open>EventLoopThreadPool\<close> (include/EventLoopThreadPool.h, src/EventLoopThreadPool.cpp).

  \<^item> A loop is its address. \<open>startLoop i\<close> is the loop that \<^verbatim>\<open>EventLoopThread::startLoop\<close> returns for the
    thread \<open>i\<close> of the pool; the pool keeps the names of its threads.
  \<^item> \<open>here\<close> says whether the calling thread is that of the base loop.
  \<^item> \<^verbatim>\<open>getNextLoop\<close> has no \<^verbatim>\<open>return\<close> on the path on which the pool has no loops of its own.
\<close>

record event_loop_thread_pool =
  M_baseLoop :: nat
  M_poolName :: string
  M_poolStarted :: bool
  M_numThreads :: int
  M_next :: int32
  M_poolThreads :: "string list"
  M_loops :: "nat list"

definition new_EventLoopThreadPool :: "nat \<Rightarrow> string \<Rightarrow> event_loop_thread_pool" where
  "new_EventLoopThreadPool baseLoop nameArg =
     \<lparr>M_baseLoop = baseLoop, M_poolName = nameArg, M_poolStarted = False, M_numThreads = 0, M_next = 0,
      M_poolThreads = [], M_loops = []\<rparr>"

definition elpool_started :: "event_loop_thread_pool \<Rightarrow> bool" where "elpool_started p = M_poolStarted p"
definition elpool_name :: "event_loop_thread_pool \<Rightarrow> string" where "elpool_name p = M_poolName p"

definition setThreadNum :: "int \<Rightarrow> event_loop_thread_pool \<Rightarrow> event_loop_thread_pool" where
  "setThreadNum numThreads p = p\<lparr>M_numThreads := numThreads\<rparr>"

definition thread_name_of :: "string \<Rightarrow> int \<Rightarrow> string" where
  "thread_name_of name i = snprintf (length name + 32) (name @ dec i)"

text \<open>One turn of the loop of \<^verbatim>\<open>start\<close>.\<close>

definition start_thread :: "(int \<Rightarrow> nat) \<Rightarrow> int \<Rightarrow> event_loop_thread_pool \<Rightarrow> event_loop_thread_pool" where
  "start_thread startLoop i p =
     p\<lparr>M_poolThreads := M_poolThreads p @ [thread_name_of (M_poolName p) i], M_loops := M_loops p @ [startLoop i]\<rparr>"

text \<open>\<open>start\<close> also says on which loop the init callback is called by the calling thread.\<close>

definition elpool_start :: "bool \<Rightarrow> (int \<Rightarrow> nat) \<Rightarrow> bool \<Rightarrow> event_loop_thread_pool \<Rightarrow>
    (event_loop_thread_pool \<times> nat option) res" where
  "elpool_start here startLoop hasInit p =
     assertr (\<not> M_poolStarted p) ''!M_started''
       (assertInLoopThread here
         (let p = p\<lparr>M_poolStarted := True\<rparr>;
              p = fold (start_thread startLoop) [0..M_numThreads p - 1] p
          in Inr (p, if M_numThreads p = 0 \<and> hasInit then Some (M_baseLoop p) else None)))"

definition getNextLoop :: "bool \<Rightarrow> event_loop_thread_pool \<Rightarrow> (nat \<times> event_loop_thread_pool) res" where
  "getNextLoop here p =
     assertInLoopThread here
       (assertr (M_poolStarted p) ''M_started''
         (if M_loops p \<noteq> [] then
            if length (M_loops p) \<le> unat (M_next p) then Inl (DanglingPointer ''M_loops[M_next]'')
            else
              let loop = M_loops p ! unat (M_next p);
                  p = p\<lparr>M_next := M_next p + 1\<rparr>;
                  p = (if (word_of_nat (length (M_loops p)) :: size_t) \<le> scast (M_next p) then p\<lparr>M_next := 0\<rparr> else p)
              in Inr (loop, p)
          else Inl (MissingReturn ''EventLoopThreadPool::getNextLoop'')))"

definition getLoopForHash :: "bool \<Rightarrow> size_t \<Rightarrow> event_loop_thread_pool \<Rightarrow> nat res" where
  "getLoopForHash here hashCode p =
     assertInLoopThread here
       (if M_loops p \<noteq> [] then Inr (M_loops p ! unat (hashCode mod word_of_nat (length (M_loops p))))
        else Inr (M_baseLoop p))"

definition getAllLoops :: "bool \<Rightarrow> event_loop_thread_pool \<Rightarrow> nat list res" where
  "getAllLoops here p =
     assertInLoopThread here
       (assertr (M_poolStarted p) ''M_started'' (Inr (if M_loops p = [] then [M_baseLoop p] else M_loops p)))"

section \<open>Starting\<close>

lemma start_threads:
  "M_loops (fold (start_thread f) is p) = M_loops p @ map f is"
  "M_poolThreads (fold (start_thread f) is p) = M_poolThreads p @ map (thread_name_of (M_poolName p)) is"
  "M_poolStarted (fold (start_thread f) is p) = M_poolStarted p"
  "M_next (fold (start_thread f) is p) = M_next p"
  "M_baseLoop (fold (start_thread f) is p) = M_baseLoop p"
  "M_numThreads (fold (start_thread f) is p) = M_numThreads p"
  by (induction "is" arbitrary: p) (simp_all add: start_thread_def)

text \<open>The names of the threads are distinct: the buffer holds the longest of them.\<close>

lemma thread_name_of_fits:
  assumes "0 \<le> i" and "i < 2147483648"
  shows "thread_name_of name i = name @ dec i"
proof -
  have "nat i < 10 ^ 10" using assms by (simp add: nat_less_iff)
  from length_digits_le [OF _ this] assms(1) have "length (dec i) \<le> 10" by (simp add: dec_def)
  then show ?thesis by (simp add: thread_name_of_def)
qed

section \<open>Round robin\<close>

text \<open>The reference: the loop for the \<open>k\<close>-th call.\<close>

fun take_loops :: "nat \<Rightarrow> event_loop_thread_pool \<Rightarrow> (nat list \<times> event_loop_thread_pool) res" where
  "take_loops 0 p = Inr ([], p)"
| "take_loops (Suc k) p =
     bindr (getNextLoop True p) (\<lambda>(l, p). bindr (take_loops k p) (\<lambda>(ls, p). Inr (l # ls, p)))"

definition pool_ready :: "event_loop_thread_pool \<Rightarrow> bool" where
  "pool_ready p \<longleftrightarrow> M_poolStarted p \<and> M_loops p \<noteq> [] \<and> length (M_loops p) < 2147483648 \<and>
     unat (M_next p) < length (M_loops p)"

lemma unat_next: "unat (w :: int32) < 2147483648 \<Longrightarrow> unat (scast w :: size_t) = unat w"
  using unat_scast_ucast_int [of "ucast w"] by (simp add: unsigned_ucast_eq take_bit_nat_eq_self take_bit_word_eq_self)

lemma getNextLoop_ready:
  assumes "pool_ready p"
  shows "\<exists>p'. getNextLoop True p = Inr (M_loops p ! unat (M_next p), p') \<and> pool_ready p' \<and> M_loops p' = M_loops p \<and>
    unat (M_next p') = (unat (M_next p) + 1) mod length (M_loops p)"
proof -
  let ?n = "length (M_loops p)"
  from assms have p: "M_poolStarted p" "M_loops p \<noteq> []" "?n < 2147483648" "unat (M_next p) < ?n"
    by (simp_all add: pool_ready_def)
  have nxt: "unat (M_next p + 1) = unat (M_next p) + 1" using p(3,4) by (simp add: unat_word_ariths)
  show ?thesis
  proof (cases "unat (M_next p) + 1 < ?n")
    case True
    then have "unat (scast (M_next p + 1) :: size_t) = unat (M_next p) + 1" using p(3) nxt by (simp add: unat_next)
    then have "\<not> (word_of_nat ?n :: size_t) \<le> scast (M_next p + 1)" using True p(3) by (simp add: word_le_nat_alt unat_size_of_nat)
    with True p nxt show ?thesis by (simp add: getNextLoop_def Let_def pool_ready_def)
  next
    case False
    then have last: "unat (M_next p) + 1 = ?n" using p(4) by simp
    then have "unat (scast (M_next p + 1) :: size_t) = ?n" using p(3) nxt by (simp add: unat_next)
    then have "(word_of_nat ?n :: size_t) \<le> scast (M_next p + 1)" using p(3) by (simp add: word_le_nat_alt unat_size_of_nat)
    with last p nxt show ?thesis by (simp add: getNextLoop_def Let_def pool_ready_def)
  qed
qed

lemma take_loops_ready:
  assumes "pool_ready p"
  shows "\<exists>p'. take_loops k p = Inr (map (\<lambda>j. M_loops p ! ((unat (M_next p) + j) mod length (M_loops p))) [0..<k], p') \<and>
    pool_ready p'"
  using assms
proof (induction k arbitrary: p)
  case (Suc k)
  from getNextLoop_ready [OF Suc.prems] obtain p1 where
    1: "getNextLoop True p = Inr (M_loops p ! unat (M_next p), p1)" "pool_ready p1" "M_loops p1 = M_loops p"
      "unat (M_next p1) = (unat (M_next p) + 1) mod length (M_loops p)" by blast
  from Suc.IH [OF 1(2)] obtain p2 where
    2: "take_loops k p1 = Inr (map (\<lambda>j. M_loops p ! ((unat (M_next p) + 1 + j) mod length (M_loops p))) [0..<k], p2)"
      "pool_ready p2" by (auto simp: 1(3,4) mod_simps)
  have "unat (M_next p) mod length (M_loops p) = unat (M_next p)" using Suc.prems by (simp add: pool_ready_def)
  with 1(1) 2 show ?case by (simp add: map_upt_Suc del: upt_Suc)
qed simp

section \<open>Properties\<close>

text \<open>C34. \<^verbatim>\<open>getNextLoop\<close> is fair: after \<^verbatim>\<open>start\<close> with \<open>n > 0\<close> threads its \<open>j\<close>-th call returns the loop of the
  thread \<open>j mod n\<close>, so that \<open>n\<close> calls in a row reach every loop of the pool once. Without threads
  it leaves the function without returning the base loop.\<close>

theorem next_loop_round_robin:
  assumes "0 \<le> n" and "n < 2147483648"
    and "elpool_start True startLoop hasInit (setThreadNum n (new_EventLoopThreadPool base name)) = Inr (p, cb)"
  shows "(0 < n \<longrightarrow> (\<exists>p'. take_loops k p = Inr (map (\<lambda>j. startLoop (int j mod n)) [0..<k], p'))) \<and>
    (n = 0 \<longrightarrow> getNextLoop True p = Inl (MissingReturn ''EventLoopThreadPool::getNextLoop''))"
proof -
  from assms(3) have p: "M_loops p = map startLoop [0..n - 1]" "M_poolStarted p" "M_next p = 0"
    by (auto simp: elpool_start_def setThreadNum_def new_EventLoopThreadPool_def start_threads Let_def)
  have len: "length (M_loops p) = nat n" by (simp add: p(1))
  have "\<exists>p'. take_loops k p = Inr (map (\<lambda>j. startLoop (int j mod n)) [0..<k], p')" if "0 < n"
  proof -
    have ready: "pool_ready p" using that assms(2) p(2,3) len by (auto simp: pool_ready_def)
    have "M_loops p ! (j mod nat n) = startLoop (int j mod n)" for j
    proof -
      have "j mod nat n < nat n" using that by simp
      moreover have "int (j mod nat n) = int j mod n" using that by (simp add: zmod_int)
      ultimately show ?thesis by (simp add: p(1))
    qed
    with take_loops_ready [OF ready, of k] show ?thesis by (auto simp: p(3) len)
  qed
  moreover have "getNextLoop True p = Inl (MissingReturn ''EventLoopThreadPool::getNextLoop'')" if "n = 0"
    using that p by (simp add: getNextLoop_def)
  ultimately show ?thesis by blast
qed

theorem next_loop_round_robin_witness:
  "\<exists>p p'. elpool_start True (\<lambda>i. nat i + 100) False (setThreadNum 3 (new_EventLoopThreadPool 7 ''io'')) = Inr (p, None) \<and>
     take_loops 4 p = Inr ([100, 101, 102, 100], p')"
proof -
  obtain p where p: "elpool_start True (\<lambda>i. nat i + 100) False (setThreadNum 3 (new_EventLoopThreadPool 7 ''io'')) = Inr (p, None)"
    by (simp add: elpool_start_def setThreadNum_def new_EventLoopThreadPool_def Let_def start_threads)
  have "[0..<4] = [0, 1, 2, 3 :: nat]" by (simp add: upt_rec)
  with next_loop_round_robin [OF _ _ p, of 4] p show ?thesis by auto
qed

end
