(* ===== verification/TcpServer.thy ===== *)
theory TcpServer
  imports TcpConnection Acceptor EventLoopThreadPool
begin

text \<open>
  The class \<^verbatim>\<open>TcpServer\<close> (include/TcpServer.h, src/TcpServer.cpp).

  \<^item> \<open>server_world\<close> holds the server, the loop it accepts in (\<open>sv_base\<close>), the loops of its thread pool
    with their channels, by the address of the loop, and the connections by their address, each
    with its loop. The acceptor is in a world of its own, with the server as the state of its
    owner.
  \<^item> \<open>conn_view\<close> is what a connection sees of this world, \<open>conn_put\<close> takes its changes back; the close
    callback \<open>removeConnection\<close> reaches the server through \<open>w_rest\<close>.
  \<^item> \<^verbatim>\<open>ipLoop->runInLoop\<close> is read as a call on \<^verbatim>\<open>ioLoop\<close>, \<^verbatim>\<open>conn->getLoop\<close> as a call. An overflow of
    \<^verbatim>\<open>M_nextConnId\<close> is an error of its own.
\<close>

section \<open>State\<close>

record 'u tcp_server =
  M_serverSelf :: nat
  M_ipPort :: string
  M_serverName :: string
  M_threadPool :: event_loop_thread_pool
  M_serverConnectionCallback :: 'u
  M_serverMessageCallback :: 'u
  M_serverWriteCompleteCallback :: "'u option"
  M_serverThreadInitCallback :: "'u option"
  M_serverStarted :: int32
  M_nextConnId :: int
  M_connections :: "string \<rightharpoonup> nat"

record 'u server_world =
  sv :: "'u tcp_server"
  sv_base :: "'u net_loop"
  sv_loops :: "nat \<Rightarrow> 'u net_loop"
  sv_heaps :: "nat \<Rightarrow> 'u net_heap"
  sv_conns :: "nat \<rightharpoonup> nat \<times> 'u tcp_connection"
  sv_wires :: "nat \<Rightarrow> byte list"
  sv_called :: "nat \<Rightarrow> ('u \<times> cb_event) list"
  sv_syscalls :: "syscall list"

type_synonym 'u server_conn = "('u, 'u server_world) conn_world"

definition conn_view :: "nat \<Rightarrow> nat \<Rightarrow> 'u tcp_connection \<Rightarrow> 'u server_world \<Rightarrow> 'u server_conn" where
  "conn_view c k conn w =
     \<lparr>w_heap = sv_heaps w k, w_loop = sv_loops w k, w_conn = conn, w_wire = sv_wires w c, w_syscalls = sv_syscalls w,
      w_called = sv_called w c, w_rest = w\<rparr>"

definition conn_put :: "nat \<Rightarrow> nat \<Rightarrow> 'u server_conn \<Rightarrow> 'u server_world" where
  "conn_put c k cw =
     (let w = w_rest cw in
      w\<lparr>sv_heaps := (sv_heaps w)(k := w_heap cw), sv_loops := (sv_loops w)(k := w_loop cw),
        sv_conns := (sv_conns w)(c \<mapsto> (k, w_conn cw)), sv_wires := (sv_wires w)(c := w_wire cw),
        sv_called := (sv_called w)(c := w_called cw), sv_syscalls := w_syscalls cw\<rparr>)"

text \<open>A call of a function of the connection \<open>c\<close>.\<close>

definition on_conn :: "nat \<Rightarrow> ('u server_conn \<Rightarrow> 'u server_conn res) \<Rightarrow> 'u server_world \<Rightarrow> 'u server_world res" where
  "on_conn c f w =
     (case sv_conns w c of
        None \<Rightarrow> Inl (DanglingPointer ''TcpConnection'')
      | Some (k, conn) \<Rightarrow> bindr (f (conn_view c k conn w)) (\<lambda>cw. Inr (conn_put c k cw)))"

section \<open>Operations\<close>

text \<open>The constructor: the members, and the acceptor with its callback \<open>newConn\<close>, which stands for
  \<^verbatim>\<open>bind(&TcpServer::newConnection, this, _1, _2)\<close>. \<open>onConnection\<close> and \<open>onMessage\<close> name the default callbacks.\<close>

definition new_TcpServer :: "lib6 \<Rightarrow> endian \<Rightarrow> nat \<Rightarrow> nat \<Rightarrow> sockaddr \<Rightarrow> string \<Rightarrow> 'u \<Rightarrow> 'u \<Rightarrow> 'u tcp_server res" where
  "new_TcpServer lib host this baseLoop listenAddr nameArg onConnection onMessage =
     bindr (toIpPort lib host listenAddr) (\<lambda>ipPort.
       Inr \<lparr>M_serverSelf = this, M_ipPort = ipPort, M_serverName = nameArg,
          M_threadPool = new_EventLoopThreadPool baseLoop nameArg,
          M_serverConnectionCallback = onConnection, M_serverMessageCallback = onMessage,
          M_serverWriteCompleteCallback = None, M_serverThreadInitCallback = None, M_serverStarted = 0, M_nextConnId = 1,
          M_connections = Map.empty\<rparr>)"

definition new_TcpServer_acceptor :: "nat \<Rightarrow> sockaddr \<Rightarrow> bool \<Rightarrow> nat \<Rightarrow> int + int \<times> int32 \<Rightarrow> int + int \<Rightarrow> 'u \<Rightarrow>
    'u net_heap \<Rightarrow> 'u net_loop \<Rightarrow> fd_table \<Rightarrow> 's \<Rightarrow> ('u, 's) acc_world res" where
  "new_TcpServer_acceptor acc listenAddr reusePort chan socket devnull newConn h l t s =
     bindr (new_Acceptor acc listenAddr reusePort chan socket devnull h l t s) (\<lambda>w.
       Inr (w\<lparr>a_acc := setNewConnectionCallback newConn (a_acc w)\<rparr>))"

definition server_setThreadNum :: "int \<Rightarrow> 'u tcp_server \<Rightarrow> 'u tcp_server res" where
  "server_setThreadNum numThreads s =
     assertr (0 \<le> numThreads) ''0 <= numThreads'' (Inr (s\<lparr>M_threadPool := setThreadNum numThreads (M_threadPool s)\<rparr>))"

definition server_ipPort :: "'u tcp_server \<Rightarrow> string" where "server_ipPort s = M_ipPort s"
definition server_name :: "'u tcp_server \<Rightarrow> string" where "server_name s = M_serverName s"
definition threadPool :: "'u tcp_server \<Rightarrow> event_loop_thread_pool" where "threadPool s = M_threadPool s"

definition server_setThreadInitCallback :: "'u option \<Rightarrow> 'u tcp_server \<Rightarrow> 'u tcp_server" where
  "server_setThreadInitCallback cb s = s\<lparr>M_serverThreadInitCallback := cb\<rparr>"

definition server_setConnectionCallback :: "'u \<Rightarrow> 'u tcp_server \<Rightarrow> 'u tcp_server" where
  "server_setConnectionCallback cb s = s\<lparr>M_serverConnectionCallback := cb\<rparr>"

definition server_setMessageCallback :: "'u \<Rightarrow> 'u tcp_server \<Rightarrow> 'u tcp_server" where
  "server_setMessageCallback cb s = s\<lparr>M_serverMessageCallback := cb\<rparr>"

definition server_setWriteCompleteCallback :: "'u option \<Rightarrow> 'u tcp_server \<Rightarrow> 'u tcp_server" where
  "server_setWriteCompleteCallback cb s = s\<lparr>M_serverWriteCompleteCallback := cb\<rparr>"

text \<open>\<^verbatim>\<open>start\<close> acts on the acceptor's world, with the server world as the state of the owner; the acceptor
  loop is \<open>a_loop\<close>. \<open>startLoop i\<close> is the loop of the thread \<open>i\<close>.\<close>

definition server_start :: "epoll_ctl \<Rightarrow> int \<Rightarrow> (int \<Rightarrow> nat) \<Rightarrow> ('u, 'u tcp_server) acc_world \<Rightarrow>
    ('u, 'u tcp_server) acc_world res" where
  "server_start kctl tid startLoop w =
     (let s = a_rest w; w = w\<lparr>a_rest := s\<lparr>M_serverStarted := 1\<rparr>\<rparr> in
      if M_serverStarted s = 0 then
        bindr (elpool_start (isInLoopThread tid (a_loop w)) startLoop (M_serverThreadInitCallback s \<noteq> None) (M_threadPool s))
          (\<lambda>(pool, initialised).
          let w = w\<lparr>a_rest := (a_rest w)\<lparr>M_threadPool := pool\<rparr>\<rparr> in
          assertr (\<not> listenning (a_acc w)) ''!M_acceptor->listening()''
            (if isInLoopThread tid (a_loop w) then acceptor_listen kctl tid w
             else Inr (w\<lparr>a_loop := queueInLoop tid (User (AcceptorListen (M_acceptorSelf (a_acc w)))) (a_loop w)\<rparr>)))
      else Inr w)"

text \<open>The name of the connection with the number \<open>i\<close>.\<close>

definition conn_name :: "'u tcp_server \<Rightarrow> int \<Rightarrow> string" where
  "conn_name s i = M_serverName s @ snprintf 64 (''-'' @ M_ipPort s @ ''#'' @ dec i)"

text \<open>The answers for one new connection: the objects \<^verbatim>\<open>new\<close> returns and \<^verbatim>\<open>getsockname\<close>.\<close>

record new_conn_answers =
  ans_conn :: nat
  ans_chan :: nat
  ans_sockname :: "sockaddr option"

definition newConnection :: "('u, 'u server_world) conn_env \<Rightarrow> new_conn_answers \<Rightarrow> int \<Rightarrow> 'u \<Rightarrow> int \<Rightarrow> sockaddr \<Rightarrow>
    'u server_world \<Rightarrow> 'u server_world res" where
  "newConnection env ans tid closeCb sockfd peerAddr w =
     assertInLoopThread (isInLoopThread tid (sv_base w))
      (bindr (getNextLoop (isInLoopThread tid (sv_base w)) (M_threadPool (sv w))) (\<lambda>(ioLoop, pool).
        let s = (sv w)\<lparr>M_threadPool := pool\<rparr>; connName = conn_name s (M_nextConnId s) in
        if 2147483647 \<le> M_nextConnId s then Inl (Fatal ''overflow of M_nextConnId'')
        else
          let s = s\<lparr>M_nextConnId := M_nextConnId s + 1\<rparr>;
              localAddr = getLocalAddr (ans_sockname ans);
              c = ans_conn ans
          in bindr (new_TcpConnection c ioLoop connName sockfd localAddr peerAddr (ans_chan ans)) (\<lambda>(conn, ch, calls).
               let s = s\<lparr>M_connections := (M_connections s)(connName \<mapsto> c)\<rparr>;
                   conn = conn_setCloseCallback closeCb
                            (setWriteCompleteCallback (M_serverWriteCompleteCallback s)
                              (setMessageCallback (M_serverMessageCallback s)
                                (setConnectionCallback (M_serverConnectionCallback s) conn)));
                   w = w\<lparr>sv := s, sv_heaps := (sv_heaps w)(ioLoop := (sv_heaps w ioLoop)(ans_chan ans \<mapsto> ch)),
                         sv_conns := (sv_conns w)(c \<mapsto> (ioLoop, conn)), sv_wires := (sv_wires w)(c := []),
                         sv_called := (sv_called w)(c := []), sv_syscalls := sv_syscalls w @ calls\<rparr>
               in on_conn c (conn_runInLoop tid ConnectEstablished (connectEstablished env tid)) w)))"

text \<open>\<^verbatim>\<open>bind(&TcpServer::newConnection, this, _1, _2)\<close>, the callback of the acceptor: the base loop is the
  loop of the acceptor.\<close>

definition accept_callback :: "('u, 'u server_world) conn_env \<Rightarrow> new_conn_answers \<Rightarrow> int \<Rightarrow> 'u \<Rightarrow> 'u \<Rightarrow> int \<Rightarrow> sockaddr \<Rightarrow>
    ('u, 'u server_world) acc_world \<Rightarrow> ('u, 'u server_world) acc_world res" where
  "accept_callback env ans tid closeCb cb sockfd peerAddr aw =
     bindr (newConnection env ans tid closeCb sockfd peerAddr ((a_rest aw)\<lparr>sv_base := a_loop aw\<rparr>)) (\<lambda>w.
       Inr (aw\<lparr>a_loop := sv_base w, a_rest := w\<rparr>))"

definition removeConnectionInLoop :: "int \<Rightarrow> 'u server_conn \<Rightarrow> 'u server_conn res" where
  "removeConnectionInLoop tid cw =
     (let w = w_rest cw; s = sv w; name = M_connName (w_conn cw) in
      assertInLoopThread (isInLoopThread tid (sv_base w))
        (let n = (if M_connections s name = None then 0 else 1 :: nat);
             s = s\<lparr>M_connections := (M_connections s)(name := None)\<rparr>
         in assertr (n = 1) ''n == 1''
              (Inr (conn_queueInLoop tid ConnectDestroyed (cw\<lparr>w_rest := w\<lparr>sv := s\<rparr>\<rparr>)))))"

definition removeConnection :: "int \<Rightarrow> 'u server_conn \<Rightarrow> 'u server_conn res" where
  "removeConnection tid cw =
     (let w = w_rest cw in
      if isInLoopThread tid (sv_base w) then removeConnectionInLoop tid cw
      else Inr (cw\<lparr>w_rest := w\<lparr>sv_base :=
             queueInLoop tid (User (RemoveConnectionInLoop (M_serverSelf (sv w)) (M_connSelf (w_conn cw)))) (sv_base w)\<rparr>\<rparr>))"

text \<open>The destructor hands every connection to \<^verbatim>\<open>connectDestroyed\<close> in its own loop and resets the pointer in
  the map, which then counts as absent; \<open>names\<close> is the order of the map, \<open>destroyed\<close> the effect of
  \<^verbatim>\<open>connectDestroyed\<close>, which is declared but not defined.\<close>

definition destroy_connection :: "('u server_conn \<Rightarrow> 'u server_conn res) \<Rightarrow> int \<Rightarrow> string \<Rightarrow> 'u server_world \<Rightarrow>
    'u server_world res" where
  "destroy_connection destroyed tid name w =
     (case M_connections (sv w) name of
        None \<Rightarrow> Inl (DanglingPointer ''it->second'')
      | Some c \<Rightarrow> on_conn c (conn_runInLoop tid ConnectDestroyed destroyed)
          (w\<lparr>sv := (sv w)\<lparr>M_connections := (M_connections (sv w))(name := None)\<rparr>\<rparr>))"

definition delete_TcpServer :: "('u server_conn \<Rightarrow> 'u server_conn res) \<Rightarrow> int \<Rightarrow> string list \<Rightarrow> 'u server_world \<Rightarrow>
    'u server_world res" where
  "delete_TcpServer destroyed tid names w =
     assertInLoopThread (isInLoopThread tid (sv_base w)) (foldr_res (destroy_connection destroyed tid) names w)"

section \<open>The server owns its connections\<close>

text \<open>The environments a connection of the server runs in, in the thread \<open>tid\<close> of its loop.\<close>

definition server_env :: "int \<Rightarrow> ('u, 'u server_world) conn_env \<Rightarrow> bool" where
  "server_env tid env \<longleftrightarrow> env_ok env \<and> (\<forall>cb ev. prog_small (cb_body env cb ev)) \<and> close_body env = (\<lambda>_. removeConnection tid)"

lemma removeConnection_frame:
  assumes "conn_inv tid cw" and "removeConnection t cw = Inr cw'"
  shows "close_frame tid cw cw'"
proof -
  have rest: "conn_inv tid (u\<lparr>w_rest := r\<rparr>) = conn_inv tid u" for u :: "'a server_conn" and r
    by (simp add: conn_inv_def conn_reg_def)
  from assms show ?thesis
    by (auto simp: removeConnection_def removeConnectionInLoop_def close_frame_def rest Let_def split: if_splits)
qed

interpretation server_owner: connection_owner "server_env tid" tid for tid
  by unfold_locales (auto simp: server_env_def owner_ok_def removeConnection_frame)

text \<open>A connection of the server only moves forward in its life.\<close>

lemma server_connection_advances:
  "conn_run (server_env tid) tid cw0 cw \<Longrightarrow> conn_good tid cw0 \<Longrightarrow> advances tid cw0 cw"
  by (rule server_owner.run_advances)

section \<open>Steps\<close>

text \<open>
  The base loop accepts a connection, a connection takes a step in its own thread, or the base
  loop runs the next of its pending functors; those that are not removals do not concern the
  connections.
\<close>

inductive server_step :: "int \<Rightarrow> 'u server_world \<Rightarrow> 'u server_world \<Rightarrow> bool" for btid where
  accept: "sv_conns w (ans_conn ans) = None \<Longrightarrow>
    newConnection env ans btid closeCb sockfd peerAddr w = Inr w' \<Longrightarrow> server_step btid w w'"
| connection: "sv_conns w c = Some (k, conn) \<Longrightarrow> tid \<noteq> btid \<Longrightarrow>
    conn_step (server_env tid) tid (conn_view c k conn w) cw \<Longrightarrow> server_step btid w (conn_put c k cw)"
| removal: "M_pendingFunctors (sv_base w) = User (RemoveConnectionInLoop srv c) # q \<Longrightarrow>
    on_conn c (removeConnectionInLoop btid) (w\<lparr>sv_base := (sv_base w)\<lparr>M_pendingFunctors := q\<rparr>\<rparr>) = Inr w' \<Longrightarrow>
    server_step btid w w'"
| other_functor: "M_pendingFunctors (sv_base w) = f # q \<Longrightarrow> (\<And>srv c. f \<noteq> User (RemoveConnectionInLoop srv c)) \<Longrightarrow>
    server_step btid w (w\<lparr>sv_base := (sv_base w)\<lparr>M_pendingFunctors := q\<rparr>\<rparr>)"

inductive server_reaches :: "int \<Rightarrow> 'u server_world \<Rightarrow> 'u server_world \<Rightarrow> bool" for btid w0 where
  start: "server_reaches btid w0 w0"
| step: "server_reaches btid w0 w \<Longrightarrow> server_step btid w w' \<Longrightarrow> server_reaches btid w0 w'"

section \<open>The map of connections\<close>

fun removal_of :: "'u net_functor \<Rightarrow> nat list" where
  "removal_of (User (RemoveConnectionInLoop srv c)) = [c]"
| "removal_of _ = []"

text \<open>The connections whose removal is pending in the base loop.\<close>

definition removals :: "'u server_world \<Rightarrow> nat list" where
  "removals w = concat (map removal_of (M_pendingFunctors (sv_base w)))"

definition down :: "'u tcp_connection \<Rightarrow> bool" where
  "down conn \<longleftrightarrow> M_state conn = kDisconnected"

text \<open>The map holds the connections that are up and those whose removal is pending, each under its
  own name, and the names come from the numbers given out so far.\<close>

definition server_inv :: "int \<Rightarrow> 'u server_world \<Rightarrow> bool" where
  "server_inv btid w \<longleftrightarrow>
     M_threadId (sv_base w) = btid \<and> length (M_ipPort (sv w)) \<le> 51 \<and> 1 \<le> M_nextConnId (sv w) \<and>
     (\<forall>name c. M_connections (sv w) name = Some c \<longrightarrow>
        (\<exists>i. 1 \<le> i \<and> i < M_nextConnId (sv w) \<and> i < 2147483647 \<and> name = conn_name (sv w) i) \<and>
        (\<exists>k conn. sv_conns w c = Some (k, conn) \<and> M_connName conn = name)) \<and>
     (\<forall>c k conn. sv_conns w c = Some (k, conn) \<longrightarrow> M_connSelf conn = c \<and>
        (M_connections (sv w) (M_connName conn) = Some c \<longleftrightarrow> \<not> down conn \<or> c \<in> set (removals w)) \<and>
        (c \<in> set (removals w) \<longrightarrow> down conn)) \<and>
     distinct (removals w) \<and> (\<forall>c \<in> set (removals w). sv_conns w c \<noteq> None)"

lemma conn_name_inj:
  assumes "length (M_ipPort s) \<le> 51" and "1 \<le> i" "i < 2147483647" "1 \<le> j" "j < 2147483647"
    and "conn_name s i = conn_name s j"
  shows "i = j"
proof -
  have "length (dec n) \<le> 10" if "1 \<le> n" "n < 2147483647" for n
  proof -
    have "nat n < 10 ^ 10" using that by (simp add: nat_less_iff)
    from length_digits_le [OF _ this] that show ?thesis by (simp add: dec_def)
  qed
  then have "length (dec i) \<le> 10" "length (dec j) \<le> 10" using assms(2-5) by simp_all
  then show ?thesis using assms(1,6) by (simp add: conn_name_def)
qed

lemma conn_put_simps [simp]:
  "sv (conn_put c k cw) = sv (w_rest cw)" "sv_base (conn_put c k cw) = sv_base (w_rest cw)"
  "sv_conns (conn_put c k cw) = (sv_conns (w_rest cw))(c \<mapsto> (k, w_conn cw))"
  by (simp_all add: conn_put_def Let_def)

lemma conn_view_simps [simp]:
  "w_rest (conn_view c k conn w) = w" "w_conn (conn_view c k conn w) = conn" "w_loop (conn_view c k conn w) = sv_loops w k"
  "w_heap (conn_view c k conn w) = sv_heaps w k"
  by (simp_all add: conn_view_def)

lemma server_invD:
  assumes "server_inv btid w"
  shows "M_connections (sv w) name = Some c \<Longrightarrow>
      \<exists>i. 1 \<le> i \<and> i < M_nextConnId (sv w) \<and> i < 2147483647 \<and> name = conn_name (sv w) i"
    and "M_connections (sv w) name = Some c \<Longrightarrow> \<exists>k conn. sv_conns w c = Some (k, conn) \<and> M_connName conn = name"
    and "sv_conns w c = Some (k, conn) \<Longrightarrow> M_connSelf conn = c \<and>
      (M_connections (sv w) (M_connName conn) = Some c \<longleftrightarrow> \<not> down conn \<or> c \<in> set (removals w)) \<and>
      (c \<in> set (removals w) \<longrightarrow> down conn)"
    and "distinct (removals w)" and "c \<in> set (removals w) \<Longrightarrow> sv_conns w c \<noteq> None"
    and "M_threadId (sv_base w) = btid" and "length (M_ipPort (sv w)) \<le> 51" and "1 \<le> M_nextConnId (sv w)"
  using assms unfolding server_inv_def by blast+

text \<open>A step that leaves the server and whether the connection is down alone.\<close>

lemma server_inv_same:
  assumes "server_inv btid w" and "sv_conns w c = Some (k, conn)"
    and "M_connName conn' = M_connName conn" "M_connSelf conn' = M_connSelf conn" "down conn' = down conn"
    and "sv w' = sv w" "sv_base w' = sv_base w" "sv_conns w' = (sv_conns w)(c \<mapsto> (k, conn'))"
  shows "server_inv btid w'"
proof -
  have r: "removals w' = removals w" using assms(7) by (simp add: removals_def)
  show ?thesis using assms(1-5) unfolding server_inv_def r assms(6-8) by (auto split: if_splits) (metis prod.inject option.inject)+
qed

lemma removals_queue:
  "removals (w\<lparr>sv_base := queueInLoop t f (sv_base w)\<rparr>) = removals w @ removal_of f"
  by (simp add: removals_def queueInLoop_def push_functor_def wakeup_def Let_def)

lemma server_step_connection:
  assumes inv: "server_inv btid w" and c: "sv_conns w c = Some (k, conn)" and t: "tid \<noteq> btid"
    and step: "conn_step (server_env tid) tid (conn_view c k conn w) cw"
  shows "server_inv btid (conn_put c k cw)"
proof -
  note d = server_invD [OF inv]
  consider (same) "owner_key cw = owner_key (conn_view c k conn w)"
    | (closed) env where "server_env tid env" "closes env (conn_view c k conn w) cw"
    using conn_step_owner [OF step] by blast
  then show ?thesis
  proof cases
    case same
    then show ?thesis by (intro server_inv_same [OF inv c, of "w_conn cw"]) (simp_all add: owner_key_def down_def)
  next
    case closed
    then obtain w1 where w1: "owner_key w1 = owner_key (setState kDisconnected (conn_view c k conn w))"
      "removeConnection tid w1 = Inr cw" "\<not> down conn" by (auto simp: closes_def server_env_def down_def)
    let ?f = "User (RemoveConnectionInLoop (M_serverSelf (sv w)) c)" and ?w = "conn_put c k cw"
    have k1: "w_rest w1 = w" "M_connName (w_conn w1) = M_connName conn" "M_connSelf (w_conn w1) = c" "down (w_conn w1)"
      using w1(1) d(3) [OF c] by (simp_all add: owner_key_def down_def)
    have "\<not> isInLoopThread tid (sv_base w)" using d(6) t by (simp add: isInLoopThread_def)
    with w1(2) k1 have cw: "cw = w1\<lparr>w_rest := w\<lparr>sv_base := queueInLoop tid ?f (sv_base w)\<rparr>\<rparr>"
      by (simp add: removeConnection_def)
    have base: "M_threadId (sv_base ?w) = btid" "sv ?w = sv w" "sv_conns ?w = (sv_conns w)(c \<mapsto> (k, w_conn w1))"
      using d(6) by (simp_all add: cw queueInLoop_def push_functor_def wakeup_def Let_def)
    have "removals ?w = removals (w\<lparr>sv_base := queueInLoop tid ?f (sv_base w)\<rparr>)" by (simp add: cw removals_def)
    then have rems: "removals ?w = removals w @ [c]" by (simp add: removals_queue)
    moreover have "c \<notin> set (removals w)" using d(3) [OF c] w1(3) by blast
    moreover have "M_connections (sv w) (M_connName conn) = Some c" using d(3) [OF c] w1(3) by blast
    moreover have "\<forall>name. M_connections (sv w) name = Some c \<longrightarrow> name = M_connName conn" using d(2) c by force
    ultimately show ?thesis
      using inv c k1 base(1) unfolding server_inv_def rems base(2,3) by (auto split: if_splits)
  qed
qed

text \<open>A removal that is pending succeeds.\<close>

lemma server_removal:
  assumes inv: "server_inv btid w" and q: "M_pendingFunctors (sv_base w) = User (RemoveConnectionInLoop srv c) # q"
  shows "\<exists>w'. on_conn c (removeConnectionInLoop btid) (w\<lparr>sv_base := (sv_base w)\<lparr>M_pendingFunctors := q\<rparr>\<rparr>) = Inr w' \<and>
    server_inv btid w'"
proof -
  note d = server_invD [OF inv]
  have r: "removals w = c # concat (map removal_of q)" using q by (simp add: removals_def)
  from d(5) [of c] r obtain k conn where c: "sv_conns w c = Some (k, conn)" by auto
  let ?w = "w\<lparr>sv_base := (sv_base w)\<lparr>M_pendingFunctors := q\<rparr>\<rparr>"
  let ?s = "(sv w)\<lparr>M_connections := (M_connections (sv w))(M_connName conn := None)\<rparr>"
  have m: "M_connections (sv w) (M_connName conn) = Some c" "down conn" using d(3) [OF c] r by auto
  have "\<forall>name. M_connections (sv w) name = Some c \<longrightarrow> name = M_connName conn" using d(2) c by force
  define w' where "w' = conn_put c k (conn_queueInLoop btid ConnectDestroyed ((conn_view c k conn ?w)\<lparr>w_rest := ?w\<lparr>sv := ?s\<rparr>\<rparr>))"
  have run: "on_conn c (removeConnectionInLoop btid) ?w = Inr w'"
    using c m d(6) by (simp add: on_conn_def removeConnectionInLoop_def isInLoopThread_def w'_def Let_def)
  have w': "sv w' = ?s" "sv_base w' = (sv_base w)\<lparr>M_pendingFunctors := q\<rparr>" "sv_conns w' = sv_conns w"
    using c by (simp_all add: w'_def fun_upd_idem)
  have rems: "removals w' = concat (map removal_of q)" by (simp add: removals_def w')
  have nm: "conn_name ?s i = conn_name (sv w) i" for i by (simp add: conn_name_def)
  have dist: "distinct (c # concat (map removal_of q))" using d(4) r by simp
  define rs where "rs = concat (map removal_of q)"
  have conns: "M_connSelf e = b \<and> (M_connections ?s (M_connName e) = Some b \<longleftrightarrow> \<not> down e \<or> b \<in> set rs) \<and>
      (b \<in> set rs \<longrightarrow> down e)" if "sv_conns w b = Some (j, e)" for b j e
    using d(3) [OF that] that m c dist r unfolding rs_def [symmetric] by (cases "b = c") auto
  have map: "(\<exists>i. 1 \<le> i \<and> i < M_nextConnId ?s \<and> i < 2147483647 \<and> name = conn_name ?s i) \<and>
      (\<exists>k conn. sv_conns w b = Some (k, conn) \<and> M_connName conn = name)" if "M_connections ?s name = Some b" for name b
    using d(1,2) [of name b] that by (simp add: nm split: if_splits)
  have "server_inv btid w'"
    using conns map d(5-8) dist r unfolding server_inv_def rems w' rs_def [symmetric] by simp
  with run show ?thesis by blast
qed

text \<open>A new connection gets a name that is not in use.\<close>

lemma newConnection_result:
  assumes "newConnection env ans btid closeCb sockfd peerAddr w = Inr w'"
  shows "\<exists>pool k conn. sv w' = (sv w)\<lparr>M_threadPool := pool, M_nextConnId := M_nextConnId (sv w) + 1,
      M_connections := (M_connections (sv w))(conn_name (sv w) (M_nextConnId (sv w)) \<mapsto> ans_conn ans)\<rparr> \<and>
    M_nextConnId (sv w) < 2147483647 \<and> sv_base w' = sv_base w \<and> sv_conns w' = (sv_conns w)(ans_conn ans \<mapsto> (k, conn)) \<and>
    M_connName conn = conn_name (sv w) (M_nextConnId (sv w)) \<and> M_connSelf conn = ans_conn ans \<and> \<not> down conn"
proof -
  let ?c = "ans_conn ans" and ?name = "conn_name (sv w) (M_nextConnId (sv w))"
  have nm: "conn_name (s\<lparr>M_threadPool := p\<rparr>) i = conn_name s i" for s :: "'a tcp_server" and p i by (simp add: conn_name_def)
  from assms obtain pool k conn w1 where
    1: "on_conn ?c (conn_runInLoop btid ConnectEstablished (connectEstablished env btid)) w1 = Inr w'"
      "sv w1 = (sv w)\<lparr>M_threadPool := pool, M_nextConnId := M_nextConnId (sv w) + 1,
        M_connections := (M_connections (sv w))(?name \<mapsto> ?c)\<rparr>" "M_nextConnId (sv w) < 2147483647"
      "sv_base w1 = sv_base w" "sv_conns w1 = (sv_conns w)(?c \<mapsto> (k, conn))" "M_connName conn = ?name" "M_connSelf conn = ?c"
      "M_state conn = kConnecting"
    by (auto simp: newConnection_def new_TcpConnection_def nm Let_def conn_setCloseCallback_def setWriteCompleteCallback_def
        setMessageCallback_def setConnectionCallback_def split: if_splits)
  then obtain cw where cw: "conn_runInLoop btid ConnectEstablished (connectEstablished env btid) (conn_view ?c k conn w1) = Inr cw"
    "w' = conn_put ?c k cw" by (auto simp: on_conn_def)
  then have "owner_key cw = owner_key (conn_view ?c k conn w1)"
    by (auto simp: conn_runInLoop_def split: if_splits dest: connectEstablished_owner)
  with 1 cw(2) show ?thesis by (auto simp: owner_key_def down_def)
qed

lemma server_accept:
  assumes inv: "server_inv btid w" and fresh: "sv_conns w (ans_conn ans) = None"
    and run: "newConnection env ans btid closeCb sockfd peerAddr w = Inr w'"
  shows "server_inv btid w' \<and> M_connections (sv w) (conn_name (sv w) (M_nextConnId (sv w))) = None"
proof -
  note d = server_invD [OF inv]
  let ?c = "ans_conn ans" and ?n = "M_nextConnId (sv w)" and ?name = "conn_name (sv w) (M_nextConnId (sv w))"
  from newConnection_result [OF run] obtain pool k conn where
    1: "sv w' = (sv w)\<lparr>M_threadPool := pool, M_nextConnId := ?n + 1, M_connections := (M_connections (sv w))(?name \<mapsto> ?c)\<rparr>"
      "?n < 2147483647" "sv_base w' = sv_base w" "sv_conns w' = (sv_conns w)(?c \<mapsto> (k, conn))" "M_connName conn = ?name"
      "M_connSelf conn = ?c" "\<not> down conn" by blast
  have free: "M_connections (sv w) ?name = None"
  proof (rule ccontr)
    assume "M_connections (sv w) ?name \<noteq> None"
    then obtain i where "1 \<le> i" "i < ?n" "i < 2147483647" "conn_name (sv w) i = ?name" using d(1) by fastforce
    with conn_name_inj [OF d(7), of i ?n] d(8) 1(2) show False by simp
  qed
  have rems: "removals w' = removals w" by (simp add: removals_def 1(3))
  have notin: "?c \<notin> set (removals w)" using d(5) fresh by blast
  have nm: "conn_name (sv w') i = conn_name (sv w) i" for i by (simp add: 1(1) conn_name_def)
  have nx: "M_nextConnId (sv w') = ?n + 1" by (simp add: 1(1))
  have map: "(\<exists>i. 1 \<le> i \<and> i < M_nextConnId (sv w') \<and> i < 2147483647 \<and> name = conn_name (sv w') i) \<and>
      (\<exists>k conn. sv_conns w' b = Some (k, conn) \<and> M_connName conn = name)" if "M_connections (sv w') name = Some b" for name b
  proof (cases "name = ?name")
    case True
    with that have "b = ?c" by (simp add: 1(1))
    with True 1(2,4,5) d(8) nx show ?thesis unfolding nm by (auto intro!: exI [of _ ?n])
  next
    case False
    with that have b: "M_connections (sv w) name = Some b" by (simp add: 1(1))
    with d(2) [OF b] fresh have "b \<noteq> ?c" by auto
    with d(1,2) [OF b] 1(4) nx show ?thesis unfolding nm by fastforce
  qed
  have conns: "M_connSelf e = b \<and> (M_connections (sv w') (M_connName e) = Some b \<longleftrightarrow> \<not> down e \<or> b \<in> set (removals w)) \<and>
      (b \<in> set (removals w) \<longrightarrow> down e)" if "sv_conns w' b = Some (j, e)" for b j e
  proof (cases "b = ?c")
    case True
    with that 1 notin show ?thesis by simp
  next
    case False
    with that have e: "sv_conns w b = Some (j, e)" by (simp add: 1(4))
    from d(3) [OF e] False free show ?thesis by (cases "M_connName e = ?name") (auto simp: 1(1))
  qed
  have "server_inv btid w'"
    unfolding server_inv_def rems
  proof (intro conjI allI impI ballI)
    fix b assume "b \<in> set (removals w)"
    with d(5) show "sv_conns w' b \<noteq> None" by (simp add: 1(4))
  qed (use map conns d(4,6-8) in \<open>simp_all add: nx 1(3)\<close>, simp add: 1(1))
  with free show ?thesis by blast
qed

lemma server_step_inv: "server_step btid w w' \<Longrightarrow> server_inv btid w \<Longrightarrow> server_inv btid w'"
proof (induction rule: server_step.induct)
  case (accept w ans env closeCb sockfd peerAddr w')
  then show ?case using server_accept [OF accept.prems accept.hyps] by simp
next
  case (connection w c k conn tid cw)
  then show ?case by (blast intro: server_step_connection)
next
  case (removal w srv c q w')
  then show ?case using server_removal [OF removal.prems removal.hyps(1)] by auto
next
  case (other_functor w f q)
  have "removal_of f = []" using other_functor.hyps(2) by (cases f rule: removal_of.cases) auto
  with other_functor.hyps(1) have "removals (w\<lparr>sv_base := (sv_base w)\<lparr>M_pendingFunctors := q\<rparr>\<rparr>) = removals w"
    by (simp add: removals_def)
  with other_functor.prems show ?case by (simp add: server_inv_def)
qed

lemma server_reaches_inv: "server_reaches btid w0 w \<Longrightarrow> server_inv btid w0 \<Longrightarrow> server_inv btid w"
  by (induction rule: server_reaches.induct) (auto intro: server_step_inv)

section \<open>A connection is handed to its loop\<close>

text \<open>The connection \<open>c\<close> on the descriptor \<open>fd\<close> is up in the loop \<open>k\<close>, its connection callback was called once.\<close>

definition server_up :: "int \<Rightarrow> nat \<Rightarrow> nat \<Rightarrow> int \<Rightarrow> 'u \<Rightarrow> 'u server_world \<Rightarrow> bool" where
  "server_up tid c k fd onConnection w \<longleftrightarrow> sv_called w c = [(onConnection, OnConnection)] \<and>
     (\<exists>conn. sv_conns w c = Some (k, conn) \<and> M_socket conn = fd \<and> M_state conn \<in> {kConnected, kDisconnecting} \<and>
        conn_inv tid (conn_view c k conn w))"

text \<open>The loop \<open>l\<close> has moved on from \<open>l0\<close>: its queue and its flags may differ.\<close>

definition moved_on :: "'f event_loop \<Rightarrow> 'f event_loop \<Rightarrow> bool" where
  "moved_on l0 l \<longleftrightarrow> M_poller l = M_poller l0 \<and> M_self l = M_self l0 \<and> M_threadId l = M_threadId l0"

lemma moved_on_reg: "moved_on l0 l \<Longrightarrow> loop_reg tid h l = loop_reg tid h l0 \<and> loop_channels l = loop_channels l0"
  by (simp add: moved_on_def loop_reg_def loop_channels_def)

lemma conn_inv_moved:
  assumes "moved_on (w_loop w) (w_loop w')" and "w_heap w' = w_heap w" and "w_conn w' = w_conn w"
  shows "conn_inv tid w' = conn_inv tid w"
  using moved_on_reg [OF assms(1)] assms(2,3) by (simp add: conn_inv_def conn_reg_def)

lemma newConnection_hands_over:
  assumes here: "isInLoopThread btid (sv_base w)" and pool: "pool_ready (M_threadPool (sv w))"
    and k: "k = M_loops (M_threadPool (sv w)) ! unat (M_next (M_threadPool (sv w)))" "M_self (sv_loops w k) = k"
    and other: "\<not> isInLoopThread btid (sv_loops w k)"
    and reg: "loop_reg iotid (sv_heaps w k) (sv_loops w k)" "\<forall>x. loop_channels (sv_loops w k) x \<noteq> Some (ans_chan ans)"
      "loop_channels (sv_loops w k) fd = None" "0 \<le> fd"
    and "M_nextConnId (sv w) < 2147483647"
  shows "\<exists>w' conn. newConnection env ans btid closeCb fd peerAddr w = Inr w' \<and>
    sv_loops w' k = queueInLoop btid (User (ConnTask (ans_conn ans) ConnectEstablished)) (sv_loops w k) \<and>
    sv_conns w' (ans_conn ans) = Some (k, conn) \<and> sv_called w' (ans_conn ans) = [] \<and> M_state conn = kConnecting \<and> M_socket conn = fd \<and>
    M_connectionCallback conn = Some (M_serverConnectionCallback (sv w)) \<and>
    (\<forall>l. moved_on (sv_loops w k) l \<longrightarrow> conn_inv iotid (conn_view (ans_conn ans) k conn (w'\<lparr>sv_loops := (sv_loops w')(k := l)\<rparr>)))"
proof -
  let ?c = "ans_conn ans" and ?chan = "ans_chan ans" and ?n = "M_nextConnId (sv w)" and ?pool = "M_threadPool (sv w)"
  from getNextLoop_ready [OF pool] obtain p where p: "getNextLoop True ?pool = Inr (k, p)" using k(1) by auto
  let ?name = "conn_name ((sv w)\<lparr>M_threadPool := p\<rparr>) ?n" and ?local = "getLocalAddr (ans_sockname ans)"
  obtain conn ch calls where new: "new_TcpConnection ?c k ?name fd ?local peerAddr ?chan = Inr (conn, ch, calls)"
      "M_state conn = kConnecting" "M_connSelf conn = ?c" "M_socket conn = fd" "M_channel conn = ?chan"
    and inv: "\<forall>cw :: 'a server_conn. w_heap cw = (sv_heaps w k)(?chan \<mapsto> ch) \<and> w_loop cw = sv_loops w k \<and>
       M_channel (w_conn cw) = ?chan \<and> M_socket (w_conn cw) = fd \<and> M_state (w_conn cw) = kConnecting \<and>
       M_inputBuffer (w_conn cw) = M_inputBuffer conn \<and> M_outputBuffer (w_conn cw) = M_outputBuffer conn \<longrightarrow> conn_inv iotid cw"
    using new_TcpConnection_ok [OF reg, of ?c ?name ?local peerAddr] unfolding k(2) by metis
  let ?conn = "conn_setCloseCallback closeCb (setWriteCompleteCallback (M_serverWriteCompleteCallback (sv w))
      (setMessageCallback (M_serverMessageCallback (sv w)) (setConnectionCallback (M_serverConnectionCallback (sv w)) conn)))"
  note set = conn_setCloseCallback_def setWriteCompleteCallback_def setMessageCallback_def setConnectionCallback_def
  have conn: "M_connectionCallback ?conn = Some (M_serverConnectionCallback (sv w))" "M_state ?conn = kConnecting" "M_socket ?conn = fd"
      "M_channel ?conn = ?chan" "M_connSelf ?conn = ?c" "M_inputBuffer ?conn = M_inputBuffer conn" "M_outputBuffer ?conn = M_outputBuffer conn"
    using new by (simp_all add: set)
  let ?f = "User (ConnTask ?c ConnectEstablished)"
  obtain w' where w': "newConnection env ans btid closeCb fd peerAddr w = Inr w'" "sv_loops w' k = queueInLoop btid ?f (sv_loops w k)"
      "sv_heaps w' k = (sv_heaps w k)(?chan \<mapsto> ch)" "sv_conns w' ?c = Some (k, ?conn)" "sv_called w' ?c = []"
    using here other assms(10) p new(1) conn(5)
    by (simp add: newConnection_def on_conn_def conn_runInLoop_def conn_inLoopThread_def conn_queueInLoop_def conn_view_def conn_put_def Let_def)
  have "conn_inv iotid (conn_view ?c k ?conn (w'\<lparr>sv_loops := (sv_loops w')(k := l)\<rparr>))" if "moved_on (sv_loops w k) l" for l
  proof -
    have "conn_inv iotid (conn_view ?c k ?conn (w'\<lparr>sv_loops := (sv_loops w')(k := sv_loops w k)\<rparr>))"
      using inv conn w'(3) by simp
    then show ?thesis
      using conn_inv_moved [of "conn_view ?c k ?conn (w'\<lparr>sv_loops := (sv_loops w')(k := sv_loops w k)\<rparr>)"
          "conn_view ?c k ?conn (w'\<lparr>sv_loops := (sv_loops w')(k := l)\<rparr>)" iotid] that by simp
  qed
  with w' conn(1-3) show ?thesis by blast
qed

lemma established_in_its_loop:
  assumes "sv_conns w c = Some (k, conn)" and "sv_called w c = []" and "M_state conn = kConnecting" and "M_socket conn = fd"
    and "M_connectionCallback conn = Some f" and "conn_inv iotid (conn_view c k conn w)" and "owner_ok iotid env"
  shows "safely (on_conn c (run_conn_task env iotid destroyed ConnectEstablished) w) (server_up iotid c k fd f)"
proof -
  have "w_called (conn_view c k conn w) = []" using assms(2) by (simp add: conn_view_def)
  from connectEstablished_comes_up [OF assms(6,7) _ _ this, of f] assms(3,5)
  have up: "safely (connectEstablished env iotid (conn_view c k conn w)) (\<lambda>cw. conn_inv iotid cw \<and> same_conn conn (w_conn cw) \<and>
      M_state (w_conn cw) \<in> {kConnected, kDisconnecting} \<and> w_called cw = [(f, OnConnection)] \<and> w_rest cw = w)" by simp
  have "conn_inv iotid (conn_view c k (w_conn cw) (conn_put c k cw)) = conn_inv iotid cw" for cw :: "'a server_conn"
    by (simp add: conn_inv_def conn_reg_def conn_view_def conn_put_def Let_def)
  moreover have "sv_called (conn_put c k cw) c = w_called cw" for cw :: "'a server_conn" by (simp add: conn_put_def Let_def)
  ultimately show ?thesis using assms(1,4)
    by (auto simp: on_conn_def server_up_def same_conn_def intro!: safely_bind [OF up])
qed

section \<open>The destructor\<close>

text \<open>The functors the destructor adds to the loop \<open>k\<close>.\<close>

definition destructions :: "string list \<Rightarrow> 'u server_world \<Rightarrow> nat \<Rightarrow> 'u net_functor list" where
  "destructions names w k =
     concat (map (\<lambda>name. case M_connections (sv w) name of
         None \<Rightarrow> []
       | Some c \<Rightarrow> if map_option fst (sv_conns w c) = Some k then [User (ConnTask c ConnectDestroyed)] else []) names)"

lemma destroy_connections:
  assumes "distinct names" and "set names \<subseteq> dom (M_connections (sv w))" and "\<And>k. M_threadId (sv_loops w k) \<noteq> t"
    and "\<And>name c. M_connections (sv w) name = Some c \<Longrightarrow> \<exists>k conn. sv_conns w c = Some (k, conn) \<and> M_connSelf conn = c"
  shows "\<exists>w'. foldr_res (destroy_connection destroyed t) names w = Inr w' \<and>
    M_connections (sv w') = (M_connections (sv w)) |` (- set names) \<and>
    (\<forall>k. M_pendingFunctors (sv_loops w' k) = M_pendingFunctors (sv_loops w k) @ destructions names w k)"
  using assms
proof (induction names arbitrary: w)
  case Nil
  show ?case by (simp add: destructions_def)
next
  case (Cons name names)
  then obtain c k conn where c: "M_connections (sv w) name = Some c" "sv_conns w c = Some (k, conn)" "M_connSelf conn = c" by force
  let ?f = "User (ConnTask c ConnectDestroyed)"
  obtain w1 where w1: "destroy_connection destroyed t name w = Inr w1"
      "sv w1 = (sv w)\<lparr>M_connections := (M_connections (sv w))(name := None)\<rparr>"
      "sv_loops w1 = (sv_loops w)(k := queueInLoop t ?f (sv_loops w k))" "sv_conns w1 = sv_conns w"
    using c Cons.prems(3) [of k]
    by (simp add: destroy_connection_def on_conn_def conn_runInLoop_def conn_inLoopThread_def isInLoopThread_def conn_queueInLoop_def
        conn_view_def conn_put_def fun_upd_idem Let_def)
  have "\<exists>w'. foldr_res (destroy_connection destroyed t) names w1 = Inr w' \<and>
      M_connections (sv w') = (M_connections (sv w1)) |` (- set names) \<and>
      (\<forall>k. M_pendingFunctors (sv_loops w' k) = M_pendingFunctors (sv_loops w1 k) @ destructions names w1 k)"
  proof (rule Cons.IH)
    show "set names \<subseteq> dom (M_connections (sv w1))" using Cons.prems(1,2) by (auto simp: w1(2))
    show "M_threadId (sv_loops w1 j) \<noteq> t" for j
      using Cons.prems(3) [of j] by (auto simp: w1(3) queueInLoop_def push_functor_def wakeup_def Let_def)
    show "\<exists>k conn. sv_conns w1 d = Some (k, conn) \<and> M_connSelf conn = d" if "M_connections (sv w1) n = Some d" for n d
      using Cons.prems(4) [of n d] that by (auto simp: w1(2,4) split: if_splits)
  qed (use Cons.prems(1) in simp)
  moreover have "destructions names w1 = destructions names w"
    using Cons.prems(1) by (auto simp: destructions_def w1(2,4) fun_eq_iff intro!: arg_cong [of _ _ concat] split: option.split)
  moreover have "M_connections (sv w1) |` (- set names) = M_connections (sv w) |` (- set (name # names))"
    by (auto simp: w1(2) fun_eq_iff restrict_map_def)
  ultimately show ?case using w1(1,3) c
    by (auto simp: destructions_def pending_queue)
qed

section \<open>Starting\<close>

text \<open>It is harmless to start a server again, from any thread.\<close>

lemma server_start_again:
  assumes "server_start kctl tid startLoop w = Inr w'"
  shows "server_start kctl' tid' startLoop' w' = Inr w'"
proof -
  have "M_serverStarted (a_rest w') = 1"
    using assms by (auto simp: server_start_def acceptor_listen_def Let_def split: if_splits)
  then show ?thesis by (simp add: server_start_def Let_def)
qed

text \<open>The text of an IPv4 address and port is short enough for the names of connections.\<close>

lemma ipPort_short:
  assumes "new_TcpServer lib host this baseLoop addr nameArg onConnection onMessage = Inr s" and "family host addr = AF_INET"
  shows "length (M_ipPort s) \<le> 21"
proof -
  have d3: "length (digits (unat (b :: byte))) \<le> 3" for b using length_digits_le [of 3 "unat b"] unat_byte_less [of b] by simp
  have d5: "length (digits (unat (p :: 16 word))) \<le> 5" for p
    using length_digits_le [of 5 "unat p"] unsigned_less [of p, where 'a = nat] by simp
  have n15: "length (ntop4 ip) \<le> 15" for ip :: "byte list"
    using d3 [of "ip ! 0"] d3 [of "ip ! 1"] d3 [of "ip ! 2"] d3 [of "ip ! 3"] by (simp add: ntop4_def)
  have "inet_ntop (ntop4 (sin_addr addr)) 64 [] = ntop4 (sin_addr addr)"
    using n15 [of "sin_addr addr"] by (simp add: inet_ntop_def)
  with assms have "M_ipPort s = ntop4 (sin_addr addr) @
      snprintf (64 - length (ntop4 (sin_addr addr))) ('':'' @ digits (unat (ntohs host (sin_port host addr))))"
    by (auto simp: new_TcpServer_def toIpPort_def sockets_toIpPort_def sockets_toIp_def family_def getSockAddr_def Let_def)
  moreover have "length (snprintf n t) \<le> length t" for n t by (simp add: snprintf_def)
  ultimately show ?thesis
    using n15 [of "sin_addr addr"] d5 [of "ntohs host (sin_port host addr)"] by (simp add: le_trans [OF add_left_mono])
qed

section \<open>Properties\<close>

text \<open>A server without connections.\<close>

definition fresh_server :: "int \<Rightarrow> 'u server_world \<Rightarrow> bool" where
  "fresh_server btid w \<longleftrightarrow> M_connections (sv w) = Map.empty \<and> M_nextConnId (sv w) = 1 \<and> length (M_ipPort (sv w)) \<le> 51 \<and>
     sv_conns w = Map.empty \<and> M_pendingFunctors (sv_base w) = [] \<and> M_threadId (sv_base w) = btid"

lemma fresh_server_inv: "fresh_server btid w \<Longrightarrow> server_inv btid w"
  by (simp add: fresh_server_def server_inv_def removals_def)

text \<open>A server with one thread, whose loop 7 runs in thread 2; the base loop runs in thread 1.\<close>

definition sample_server :: "nat tcp_server" where
  "sample_server = \<lparr>M_serverSelf = 60, M_ipPort = ''127.0.0.1:80'', M_serverName = ''web'',
     M_threadPool = \<lparr>M_baseLoop = 1, M_poolName = ''web'', M_poolStarted = True, M_numThreads = 1, M_next = 0,
       M_poolThreads = [''web0''], M_loops = [7]\<rparr>,
     M_serverConnectionCallback = 0, M_serverMessageCallback = 0, M_serverWriteCompleteCallback = None,
     M_serverThreadInitCallback = None, M_serverStarted = 1, M_nextConnId = 1, M_connections = Map.empty\<rparr>"

definition sample_server_world :: "nat server_world" where
  "sample_server_world = \<lparr>sv = sample_server, sv_base = idle_loop 1 1, sv_loops = \<lambda>_. idle_loop 7 2, sv_heaps = \<lambda>_. Map.empty,
     sv_conns = Map.empty, sv_wires = \<lambda>_. [], sv_called = \<lambda>_. [], sv_syscalls = []\<rparr>"

lemma sample_server_fresh: "fresh_server 1 sample_server_world"
  by (simp add: fresh_server_def sample_server_world_def sample_server_def idle_loop_def)

lemma sample_server_accepts:
  "\<exists>w. server_reaches 1 sample_server_world w \<and> M_connections (sv w) = [conn_name sample_server 1 \<mapsto> 50] \<and>
     (\<forall>k. M_threadId (sv_loops w k) \<noteq> 1) \<and> (\<exists>conn. sv_conns w 50 = Some (7, conn) \<and> M_state conn \<noteq> kDisconnected)"
proof -
  let ?ans = "\<lparr>ans_conn = 50, ans_chan = 3, ans_sockname = None\<rparr>"
  from new_Buffer_ok [of kInitialSize] obtain b where b: "new_Buffer kInitialSize = Inr b"
    by (auto simp: kInitialSize_def kCheapPrepend_def max_size_def)
  have next7: "getNextLoop True (M_threadPool sample_server) = Inr (7, M_threadPool sample_server)"
    by (simp add: getNextLoop_def sample_server_def)
  have here: "isInLoopThread 1 (sv_base sample_server_world)" "\<not> isInLoopThread 1 (sv_loops sample_server_world k)" for k
    by (simp_all add: sample_server_world_def idle_loop_def isInLoopThread_def)
  have s: "sv sample_server_world = sample_server" "sv_conns sample_server_world = Map.empty"
    by (simp_all add: sample_server_world_def)
  have m: "M_nextConnId sample_server = 1" "M_connections sample_server = Map.empty" by (simp_all add: sample_server_def)
  have l2: "M_threadId (sv_loops sample_server_world k) = 2" for k by (simp add: sample_server_world_def idle_loop_def)
  obtain w where w: "newConnection undefined ?ans 1 0 9 [] sample_server_world = Inr w" "\<forall>k. M_threadId (sv_loops w k) \<noteq> 1"
      "\<exists>conn. sv_conns w 50 = Some (7, conn)"
    by (simp add: newConnection_def here s next7 m new_TcpConnection_def b on_conn_def conn_runInLoop_def conn_inLoopThread_def
        conn_put_def conn_view_def conn_queueInLoop_def queueInLoop_def push_functor_def wakeup_def l2 Let_def)
  from newConnection_result [OF w(1)] w(3) have "M_connections (sv w) = [conn_name sample_server 1 \<mapsto> 50]"
      "\<exists>conn. sv_conns w 50 = Some (7, conn) \<and> M_state conn \<noteq> kDisconnected" by (auto simp: s m down_def)
  moreover have "server_reaches 1 sample_server_world w"
    by (rule server_reaches.step [OF server_reaches.start server_step.accept [OF _ w(1)]]) (simp add: s)
  ultimately show ?thesis using w(2) by blast
qed





text \<open>C38. A server that was started without threads of its own, the documented default, fails on its first
  connection: \<^verbatim>\<open>newConnection\<close> asks the pool for a loop, and \<^verbatim>\<open>getNextLoop\<close> leaves the function without
  returning the base loop.\<close>

theorem single_threaded_server_fails:
  assumes "new_TcpServer lib host this baseLoop addr nameArg onConnection onMessage = Inr s"
    and "a_rest aw = s" and "server_start kctl tid startLoop aw = Inr aw'" and "sv w = a_rest aw'" and "sv_base w = a_loop aw'"
    and "isInLoopThread tid (a_loop aw')"
  shows "newConnection env ans tid closeCb sockfd peerAddr w = Inl (MissingReturn ''EventLoopThreadPool::getNextLoop'')"
proof -
  have s: "M_threadPool s = new_EventLoopThreadPool baseLoop nameArg" "M_serverStarted s = 0" using assms(1) by (auto simp: new_TcpServer_def)
  from assms(2,3) s have "M_poolStarted (M_threadPool (a_rest aw')) \<and> M_loops (M_threadPool (a_rest aw')) = []"
    by (auto simp: server_start_def elpool_start_def new_EventLoopThreadPool_def acceptor_listen_def assertr_def
        assertInLoopThread_def Let_def split: if_splits)
  with assms(4-6) show ?thesis by (simp add: newConnection_def getNextLoop_def)
qed

theorem single_threaded_server_fails_witness:
  "\<exists>s aw aw'. new_TcpServer sample_lib LittleEndian 60 7 (replicate 28 0) ''web'' 0 0 = Inr (s :: nat tcp_server) \<and> a_rest aw = s \<and>
    server_start kernel_ctl 1 (\<lambda>_. 0) aw = Inr aw' \<and>
    newConnection undefined undefined 1 0 9 [] (sample_server_world\<lparr>sv := a_rest aw', sv_base := a_loop aw'\<rparr>) =
      Inl (MissingReturn ''EventLoopThreadPool::getNextLoop'')"
proof -
  obtain s :: "nat tcp_server" where s: "new_TcpServer sample_lib LittleEndian 60 7 (replicate 28 0) ''web'' 0 0 = Inr s"
    using toIpPort_returns [of sample_lib LittleEndian "replicate 28 0"] by (auto simp: new_TcpServer_def)
  let ?ch = "new_Channel 7 9 :: nat net_functor channel"
  define aw where "aw = \<lparr>a_heap = [3 \<mapsto> ?ch], a_loop = idle_loop 7 1,
     a_acc = \<lparr>M_acceptorSelf = 30, M_acceptSocket = 9, M_acceptChannel = 3, M_newConnectionCallback = None,
       M_listenning = False, M_idleFd = 10\<rparr>, a_fds = sample_fds, a_syscalls = [], a_rest = s\<rparr>"
  let ?aw = "aw\<lparr>a_rest := s\<lparr>M_serverStarted := 1, M_threadPool := (M_threadPool s)\<lparr>M_poolStarted := True\<rparr>\<rparr>\<rparr>"
  have "loop_reg 1 [3 \<mapsto> ?ch] (idle_loop 7 1)"
    by (rule loop_reg_fresh [OF idle_loop_reg(1)], simp add: idle_loop_reg(2), simp add: idle_loop_def new_Channel_def)
  then have "acc_reg 1 ?aw ?ch" by (simp add: acc_reg_def aw_def fits_def idle_loop_reg) (simp add: new_Channel_def)
  from acceptor_listen_ok [OF epoll_documented_kernel_ctl this] obtain aw' where
    aw': "acceptor_listen kernel_ctl 1 ?aw = Inr aw'" "M_threadId (a_loop aw') = M_threadId (a_loop aw)" by auto
  have "M_threadPool s = new_EventLoopThreadPool 7 ''web''" "M_serverStarted s = 0" using s by (auto simp: new_TcpServer_def)
  with aw'(1) have start: "server_start kernel_ctl 1 (\<lambda>_. 0) aw = Inr aw'"
    by (simp add: server_start_def aw_def elpool_start_def new_EventLoopThreadPool_def isInLoopThread_def idle_loop_def listenning_def Let_def)
  have rest: "a_rest aw = s" by (simp add: aw_def)
  have "isInLoopThread 1 (a_loop aw')" using aw'(2) by (simp add: aw_def idle_loop_def isInLoopThread_def)
  with single_threaded_server_fails [OF s rest start, of "sample_server_world\<lparr>sv := a_rest aw', sv_base := a_loop aw'\<rparr>"
      undefined undefined 0 9 "[]"]
  have "newConnection undefined undefined 1 0 9 [] (sample_server_world\<lparr>sv := a_rest aw', sv_base := a_loop aw'\<rparr>) =
      Inl (MissingReturn ''EventLoopThreadPool::getNextLoop'')" by simp
  with s rest start show ?thesis by blast
qed

end
