(* ===== verification/Connector.thy ===== *)
theory Connector
  imports Callbacks "HOL-Library.Multiset"
begin

text \<open>
  The class \<^verbatim>\<open>Connector\<close> (include/Connector.h, src/Connector.cpp).

  \<^item> \<open>con_world\<close> is what an operation of a connector acts on: the connector, its loop with the loop's
    channels, the descriptors and the system calls made for their effect. \<open>k_opened\<close> records the
    sockets it created, \<open>k_handed\<close> those it passed to the new-connection callback, \<open>k_delays\<close> the
    delays of its retries since it was constructed or restarted. \<open>k_rest\<close> is the state of the owner.
  \<^item> \<open>con_answers\<close> are the answers of the kernel and of \<^verbatim>\<open>operator new\<close> for one call. \<^verbatim>\<open>isSelfConnect\<close> is
    declared in SocketsOps.h but not defined; its answer is one of them.
  \<^item> The new-connection callback acts on the channels, the loop and the state of the owner.
  \<^item> \<^verbatim>\<open>M_connected = true\<close> in \<^verbatim>\<open>restart\<close> is read as \<open>M_connect\<close>, \<^verbatim>\<open>EACCESS\<close> as \<open>EACCES\<close>.
\<close>

section \<open>State\<close>

datatype States = kcDisconnected | kcConnecting | kcConnected

record 'u connector =
  M_connectorSelf :: nat
  M_serverAddr :: sockaddr
  M_connect :: bool
  M_cState :: States
  M_cChannel :: "nat option"
  M_cNewConnectionCallback :: "'u option"
  M_retryDelayMs :: int

record ('u, 's) con_world =
  k_heap :: "'u net_heap"
  k_loop :: "'u net_loop"
  k_con :: "'u connector"
  k_fds :: fd_table
  k_syscalls :: "syscall list"
  k_opened :: "int list"
  k_handed :: "int list"
  k_delays :: "int list"
  k_rest :: 's

record con_answers =
  ans_socket :: "int + int \<times> int32"
  ans_connect :: int
  ans_channel :: nat
  ans_soerror :: "int + int"
  ans_selfConnect :: bool

record ('u, 's) con_env =
  con_ctl :: epoll_ctl
  con_timers :: "'u net_task timer_env"
  con_callback :: "'u \<Rightarrow> int \<Rightarrow> 'u net_heap \<times> 'u net_loop \<times> 's \<Rightarrow> ('u net_heap \<times> 'u net_loop \<times> 's) res"

definition kMaxRetryDelayMs :: int where "kMaxRetryDelayMs = 30 * 1000"
definition kInitRetryDelayMs :: int where "kInitRetryDelayMs = 500"

definition new_Connector :: "nat \<Rightarrow> sockaddr \<Rightarrow> 'u connector" where
  "new_Connector this serverAddr =
     \<lparr>M_connectorSelf = this, M_serverAddr = serverAddr, M_connect = False, M_cState = kcDisconnected,
      M_cChannel = None, M_cNewConnectionCallback = None, M_retryDelayMs = kInitRetryDelayMs\<rparr>"

definition delete_Connector :: "'u connector \<Rightarrow> unit res" where
  "delete_Connector c = assertr (M_cChannel c = None) ''!M_channel'' (Inr ())"

definition con_setNewConnectionCallback :: "'u \<Rightarrow> 'u connector \<Rightarrow> 'u connector" where
  "con_setNewConnectionCallback cb c = c\<lparr>M_cNewConnectionCallback := Some cb\<rparr>"

definition serverAddress :: "'u connector \<Rightarrow> sockaddr" where
  "serverAddress c = M_serverAddr c"

definition set_con :: "('u connector \<Rightarrow> 'u connector) \<Rightarrow> ('u, 's) con_world \<Rightarrow> ('u, 's) con_world" where
  "set_con f w = w\<lparr>k_con := f (k_con w)\<rparr>"

definition con_setState :: "States \<Rightarrow> ('u, 's) con_world \<Rightarrow> ('u, 's) con_world" where
  "con_setState st = set_con (\<lambda>c. c\<lparr>M_cState := st\<rparr>)"

definition con_close :: "int \<Rightarrow> ('u, 's) con_world \<Rightarrow> ('u, 's) con_world" where
  "con_close fd w = w\<lparr>k_fds := close_fd fd (k_fds w), k_syscalls := k_syscalls w @ sockets_close fd\<rparr>"

definition con_inLoopThread :: "int \<Rightarrow> ('u, 's) con_world \<Rightarrow> bool" where
  "con_inLoopThread tid w \<longleftrightarrow> isInLoopThread tid (k_loop w)"

definition con_queueInLoop :: "int \<Rightarrow> connector_task \<Rightarrow> ('u, 's) con_world \<Rightarrow> ('u, 's) con_world" where
  "con_queueInLoop tid t w =
     w\<lparr>k_loop := queueInLoop tid (User (ConnectorTask (M_connectorSelf (k_con w)) t)) (k_loop w)\<rparr>"

section \<open>Operations\<close>

definition con_retry :: "('u, 's) con_env \<Rightarrow> int \<Rightarrow> int \<Rightarrow> ('u, 's) con_world \<Rightarrow> ('u, 's) con_world res" where
  "con_retry env tid sockfd w =
     (let w = con_setState kcDisconnected (con_close sockfd w); delay = M_retryDelayMs (k_con w) in
      if M_connect (k_con w) then
        bindr (runAfter (con_timers env) tid (fl (of_int delay / 1000)) (ConnectorTask (M_connectorSelf (k_con w)) StartInLoop)
                 (k_loop w)) (\<lambda>(timerId, l).
          Inr (set_con (\<lambda>c. c\<lparr>M_retryDelayMs := min (delay * 2) kMaxRetryDelayMs\<rparr>)
                 (w\<lparr>k_loop := l, k_delays := k_delays w @ [delay]\<rparr>)))
      else Inr w)"

definition connecting :: "('u, 's) con_env \<Rightarrow> con_answers \<Rightarrow> int \<Rightarrow> int \<Rightarrow> ('u, 's) con_world \<Rightarrow> ('u, 's) con_world res" where
  "connecting env ans tid sockfd w =
     (let w = con_setState kcConnecting w; this = M_connectorSelf (k_con w); a = ans_channel ans in
      assertr (M_cChannel (k_con w) = None) ''!M_channel''
        (let ch = setErrorCallback (User (ConnectorTask this ConnectorError))
                    (setWriteCallback (User (ConnectorTask this ConnectorWrite)) (new_Channel (M_self (k_loop w)) sockfd));
             w = set_con (\<lambda>c. c\<lparr>M_cChannel := Some a\<rparr>) (w\<lparr>k_heap := (k_heap w)(a \<mapsto> ch)\<rparr>)
         in bindr (enableWriting (loop_updateChannel (con_ctl env) tid) a (k_heap w) (k_loop w)) (\<lambda>(h, l).
              Inr (w\<lparr>k_heap := h, k_loop := l\<rparr>))))"

definition connect :: "('u, 's) con_env \<Rightarrow> con_answers \<Rightarrow> int \<Rightarrow> ('u, 's) con_world \<Rightarrow> ('u, 's) con_world res" where
  "connect env ans tid w =
     (let (sockfd, t) = createNonblockingOrDie (ans_socket ans) (k_fds w);
          w = w\<lparr>k_fds := t, k_opened := k_opened w @ [sockfd],
                k_syscalls := k_syscalls w @ [Connect sockfd (getSockAddr (M_serverAddr (k_con w)))]\<rparr>;
          savedErrno = sockets_connect sockfd (ans_connect ans) t
      in if savedErrno \<in> {0, EINPROGRESS, EINTR, EISCONN} then connecting env ans tid sockfd w
         else if savedErrno \<in> {EAGAIN, EADDRINUSE, EADDRNOTAVAIL, ECONNREFUSED, ENETUNREACH} then con_retry env tid sockfd w
         else if savedErrno \<in> {EACCES, EPERM, EAFNOSUPPORT, EALREADY, EBADF, EFAULT, ENOTSOCK} then Inr (con_close sockfd w)
         else Inr (con_close sockfd w))"

definition startInLoop :: "('u, 's) con_env \<Rightarrow> con_answers \<Rightarrow> int \<Rightarrow> ('u, 's) con_world \<Rightarrow> ('u, 's) con_world res" where
  "startInLoop env ans tid w =
     assertInLoopThread (con_inLoopThread tid w)
       (assertr (M_cState (k_con w) = kcDisconnected) ''M_state == kDisconnected''
         (if M_connect (k_con w) then connect env ans tid w else Inr w))"

definition con_start :: "('u, 's) con_env \<Rightarrow> con_answers \<Rightarrow> int \<Rightarrow> ('u, 's) con_world \<Rightarrow> ('u, 's) con_world res" where
  "con_start env ans tid w =
     (let w = set_con (\<lambda>c. c\<lparr>M_connect := True\<rparr>) w in
      if con_inLoopThread tid w then startInLoop env ans tid w else Inr (con_queueInLoop tid StartInLoop w))"

definition con_restart :: "('u, 's) con_env \<Rightarrow> con_answers \<Rightarrow> int \<Rightarrow> ('u, 's) con_world \<Rightarrow> ('u, 's) con_world res" where
  "con_restart env ans tid w =
     assertInLoopThread (con_inLoopThread tid w)
       (startInLoop env ans tid
          (set_con (\<lambda>c. c\<lparr>M_cState := kcDisconnected, M_retryDelayMs := kInitRetryDelayMs, M_connect := True\<rparr>)
             (w\<lparr>k_delays := []\<rparr>)))"

definition con_stop :: "int \<Rightarrow> ('u, 's) con_world \<Rightarrow> ('u, 's) con_world" where
  "con_stop tid w = con_queueInLoop tid StopInLoop (set_con (\<lambda>c. c\<lparr>M_connect := False\<rparr>) w)"

definition removeAndResetChannel :: "('u, 's) con_env \<Rightarrow> int \<Rightarrow> ('u, 's) con_world \<Rightarrow> (int \<times> ('u, 's) con_world) res" where
  "removeAndResetChannel env tid w =
     (case M_cChannel (k_con w) of
        None \<Rightarrow> Inl (DanglingPointer ''M_channel'')
      | Some a \<Rightarrow>
          bindr (disableAll (loop_updateChannel (con_ctl env) tid) a (k_heap w) (k_loop w)) (\<lambda>(h, l).
          bindr (remove_channel (loop_removeChannel (con_ctl env) tid) a h l) (\<lambda>(h, l).
            with_channel h a (\<lambda>ch.
              Inr (M_fd ch, con_queueInLoop tid ResetChannel (w\<lparr>k_heap := h, k_loop := l\<rparr>))))))"

text \<open>\<^verbatim>\<open>M_channel.reset()\<close> runs the destructor of the channel, if there is one.\<close>

definition resetChannel :: "int \<Rightarrow> ('u, 's) con_world \<Rightarrow> ('u, 's) con_world res" where
  "resetChannel tid w =
     (case M_cChannel (k_con w) of
        None \<Rightarrow> Inr w
      | Some a \<Rightarrow>
          with_channel (k_heap w) a (\<lambda>ch.
            bindr (delete_Channel (con_inLoopThread tid w) (loop_hasChannel tid a (k_heap w) (k_loop w)) ch) (\<lambda>_.
              Inr (set_con (\<lambda>c. c\<lparr>M_cChannel := None\<rparr>) (w\<lparr>k_heap := (k_heap w)(a := None)\<rparr>)))))"

definition stopInLoop :: "('u, 's) con_env \<Rightarrow> int \<Rightarrow> ('u, 's) con_world \<Rightarrow> ('u, 's) con_world res" where
  "stopInLoop env tid w =
     assertInLoopThread (con_inLoopThread tid w)
       (if M_cState (k_con w) = kcConnecting then
          bindr (removeAndResetChannel env tid (con_setState kcDisconnected w)) (\<lambda>(sockfd, w). con_retry env tid sockfd w)
        else Inr w)"

definition call_newConnection :: "('u, 's) con_env \<Rightarrow> int \<Rightarrow> ('u, 's) con_world \<Rightarrow> ('u, 's) con_world res" where
  "call_newConnection env sockfd w =
     (case M_cNewConnectionCallback (k_con w) of
        None \<Rightarrow> Inl (BadFunctionCall ''M_newConnectionCallback'')
      | Some cb \<Rightarrow>
          bindr (con_callback env cb sockfd (k_heap w, k_loop w, k_rest w)) (\<lambda>(h, l, s).
            Inr (w\<lparr>k_heap := h, k_loop := l, k_rest := s, k_handed := k_handed w @ [sockfd]\<rparr>)))"

definition con_handleWrite :: "('u, 's) con_env \<Rightarrow> con_answers \<Rightarrow> int \<Rightarrow> ('u, 's) con_world \<Rightarrow> ('u, 's) con_world res" where
  "con_handleWrite env ans tid w =
     (if M_cState (k_con w) = kcConnecting then
        bindr (removeAndResetChannel env tid w) (\<lambda>(sockfd, w).
          let err = getSocketError (ans_soerror ans) in
          if err \<noteq> 0 then con_retry env tid sockfd w
          else if ans_selfConnect ans then con_retry env tid sockfd w
          else
            let w = con_setState kcConnected w in
            if M_connect (k_con w) then call_newConnection env sockfd w else Inr (con_close sockfd w))
      else assertr (M_cState (k_con w) = kcDisconnected) ''M_state == kDisconnected'' (Inr w))"

definition con_handleError :: "('u, 's) con_env \<Rightarrow> int \<Rightarrow> ('u, 's) con_world \<Rightarrow> ('u, 's) con_world res" where
  "con_handleError env tid w =
     (if M_cState (k_con w) = kcConnecting then
        bindr (removeAndResetChannel env tid w) (\<lambda>(sockfd, w). con_retry env tid sockfd w)
      else Inr w)"

text \<open>A function bound to the connector, run by the loop.\<close>

fun run_connector_task :: "('u, 's) con_env \<Rightarrow> con_answers \<Rightarrow> int \<Rightarrow> connector_task \<Rightarrow> ('u, 's) con_world \<Rightarrow>
    ('u, 's) con_world res" where
  "run_connector_task env ans tid StartInLoop w = startInLoop env ans tid w"
| "run_connector_task env ans tid StopInLoop w = stopInLoop env tid w"
| "run_connector_task env ans tid ResetChannel w = resetChannel tid w"
| "run_connector_task env ans tid ConnectorWrite w = con_handleWrite env ans tid w"
| "run_connector_task env ans tid ConnectorError w = con_handleError env tid w"

text \<open>What happens to a connector: calls from outside and functions the loop runs.\<close>

datatype con_call = CallStart | CallStop | CallRestart | RunTask connector_task

definition run_con_call :: "('u, 's) con_env \<Rightarrow> int \<times> con_answers \<times> con_call \<Rightarrow> ('u, 's) con_world \<Rightarrow>
    ('u, 's) con_world res" where
  "run_con_call env c w =
     (case c of (tid, ans, call) \<Rightarrow>
        (case call of
           CallStart \<Rightarrow> con_start env ans tid w
         | CallStop \<Rightarrow> Inr (con_stop tid w)
         | CallRestart \<Rightarrow> con_restart env ans tid w
         | RunTask t \<Rightarrow> run_connector_task env ans tid t w))"

section \<open>Sockets and delays are accounted for\<close>

definition closed_fds :: "syscall list \<Rightarrow> int list" where
  "closed_fds cs = concat (map (\<lambda>c. case c of Close fd \<Rightarrow> [fd] | _ \<Rightarrow> []) cs)"

lemma closed_fds_simps [simp]:
  "closed_fds (xs @ ys) = closed_fds xs @ closed_fds ys" "closed_fds (sockets_close fd) = [fd]"
  "closed_fds (Connect fd addr # xs) = closed_fds xs" "closed_fds [] = []"
  by (simp_all add: closed_fds_def sockets_close_def)

text \<open>The delay of the retry after \<open>n\<close> retries.\<close>

definition backoff :: "nat \<Rightarrow> int" where
  "backoff n = min (kInitRetryDelayMs * 2 ^ n) kMaxRetryDelayMs"

lemma backoff_0: "backoff 0 = kInitRetryDelayMs"
  by (simp add: backoff_def kInitRetryDelayMs_def kMaxRetryDelayMs_def)

lemma backoff_Suc: "min (backoff n * 2) kMaxRetryDelayMs = backoff (Suc n)"
  by (simp add: backoff_def kMaxRetryDelayMs_def)

lemma backoff_bounds: "500 \<le> backoff n" "backoff n \<le> 30000"
  by (simp_all add: backoff_def kInitRetryDelayMs_def kMaxRetryDelayMs_def)

definition delays_ok :: "('u, 's) con_world \<Rightarrow> bool" where
  "delays_ok w \<longleftrightarrow> M_retryDelayMs (k_con w) = backoff (length (k_delays w)) \<and>
     k_delays w = map backoff [0..<length (k_delays w)]"

text \<open>The socket of the attempt in progress is that of the channel.\<close>

definition attempt_socket :: "('u, 's) con_world \<Rightarrow> int option" where
  "attempt_socket w =
     (if M_cState (k_con w) = kcConnecting
      then Option.bind (M_cChannel (k_con w)) (\<lambda>a. map_option M_fd (k_heap w a)) else None)"

text \<open>The sockets of the connector are closed, handed over or the given one.\<close>

definition owes :: "('u, 's) con_world \<Rightarrow> int option \<Rightarrow> bool" where
  "owes w fd \<longleftrightarrow>
     mset (k_opened w) = mset (closed_fds (k_syscalls w)) + mset (k_handed w) + mset (case fd of None \<Rightarrow> [] | Some x \<Rightarrow> [x])"

definition channel_ok :: "('u, 's) con_world \<Rightarrow> bool" where
  "channel_ok w \<longleftrightarrow> (M_cState (k_con w) = kcConnecting \<longrightarrow>
     (\<exists>a ch. M_cChannel (k_con w) = Some a \<and> k_heap w a = Some ch \<and> M_addedToLoop ch))"

definition con_inv :: "('u, 's) con_world \<Rightarrow> bool" where
  "con_inv w \<longleftrightarrow> owes w (attempt_socket w) \<and> channel_ok w \<and> delays_ok w"

lemmas con_frame = con_setState_def set_con_def con_queueInLoop_def con_close_def

lemma retry_inv:
  assumes "owes w (Some sockfd)" and "delays_ok w" and "con_retry env tid sockfd w = Inr w'"
  shows "con_inv w'"
  using assms
  by (auto simp: con_retry_def Let_def con_inv_def owes_def channel_ok_def delays_ok_def attempt_socket_def con_frame backoff_Suc
      split: if_splits)

lemma connecting_inv:
  assumes "owes w (Some sockfd)" and "delays_ok w" and "connecting env ans tid sockfd w = Inr w'"
  shows "con_inv w'"
proof -
  let ?a = "ans_channel ans" and ?self = "M_connectorSelf (k_con w)"
  define ch :: "'a net_functor channel" where
    "ch = setErrorCallback (User (ConnectorTask ?self ConnectorError))
       (setWriteCallback (User (ConnectorTask ?self ConnectorWrite)) (new_Channel (M_self (k_loop w)) sockfd))"
  from assms(3) obtain h l where
    1: "enableWriting (loop_updateChannel (con_ctl env) tid) ?a ((k_heap w)(?a \<mapsto> ch)) (k_loop w) = Inr (h, l)"
      "w' = w\<lparr>k_con := (k_con w)\<lparr>M_cState := kcConnecting, M_cChannel := Some ?a\<rparr>, k_heap := h, k_loop := l\<rparr>"
    by (auto simp: connecting_def Let_def con_frame ch_def)
  from set_events_same [OF 1(1) [unfolded enableWriting_def]] obtain i where
    "h ?a = Some (watched_channel ch (M_events ch OR kWriteEvent) i)" by auto
  moreover have "M_fd ch = sockfd" by (simp add: ch_def setErrorCallback_def setWriteCallback_def new_Channel_def)
  moreover note 1(2)
  ultimately show ?thesis using assms(1,2)
    by (auto simp: con_inv_def owes_def channel_ok_def delays_ok_def attempt_socket_def con_frame)
qed

lemma connect_inv:
  assumes "owes w None" and "M_cState (k_con w) = kcDisconnected" and "delays_ok w" and "connect env ans tid w = Inr w'"
  shows "con_inv w'"
proof -
  obtain sockfd t where st: "createNonblockingOrDie (ans_socket ans) (k_fds w) = (sockfd, t)" by force
  define w1 where "w1 = w\<lparr>k_fds := t, k_opened := k_opened w @ [sockfd],
    k_syscalls := k_syscalls w @ [Connect sockfd (getSockAddr (M_serverAddr (k_con w)))]\<rparr>"
  have 1: "owes w1 (Some sockfd)" "delays_ok w1" using assms(1,3) by (simp_all add: w1_def owes_def delays_ok_def)
  have 2: "con_inv (con_close sockfd w1)" using 1 assms(2)
    by (simp add: con_inv_def owes_def channel_ok_def delays_ok_def attempt_socket_def con_frame w1_def)
  from assms(4) have "connecting env ans tid sockfd w1 = Inr w' \<or> con_retry env tid sockfd w1 = Inr w' \<or> w' = con_close sockfd w1"
    by (auto simp: connect_def st w1_def Let_def split: if_splits)
  then show ?thesis using 2 connecting_inv [OF 1] retry_inv [OF 1] by auto
qed

lemma startInLoop_inv: "con_inv w \<Longrightarrow> startInLoop env ans tid w = Inr w' \<Longrightarrow> con_inv w'"
  using connect_inv [of w env ans tid w'] by (auto simp: startInLoop_def con_inv_def attempt_socket_def split: if_splits)

lemma removeAndReset_owes:
  assumes "con_inv w" and "M_cState (k_con w) = kcConnecting" and "removeAndResetChannel env tid w0 = Inr (sockfd, w')"
    and "w0 = w \<or> w0 = con_setState kcDisconnected w"
  shows "owes w' (Some sockfd) \<and> delays_ok w'"
proof -
  from assms(1,2) obtain a ch where a: "M_cChannel (k_con w) = Some a" "k_heap w a = Some ch"
    by (auto simp: con_inv_def channel_ok_def)
  have w0: "M_cChannel (k_con w0) = Some a" "k_heap w0 = k_heap w" using assms(4) a by (auto simp: con_frame)
  from assms(3) obtain h l where "sockfd = M_fd ch" "w' = con_queueInLoop tid ResetChannel (w0\<lparr>k_heap := h, k_loop := l\<rparr>)"
    by (auto simp: removeAndResetChannel_def w0 a disableAll_def dest!: set_events_same remove_channel_same)
  then show ?thesis using assms(1,2,4) a
    by (auto simp: con_inv_def owes_def delays_ok_def attempt_socket_def con_frame)
qed

lemma retry_after_remove:
  assumes "con_inv w" and "M_cState (k_con w) = kcConnecting" and "w0 = w \<or> w0 = con_setState kcDisconnected w"
    and "bindr (removeAndResetChannel env tid w0) (\<lambda>(sockfd, w). con_retry env tid sockfd w) = Inr w'"
  shows "con_inv w'"
proof -
  from assms(4) obtain sockfd w1 where 1: "removeAndResetChannel env tid w0 = Inr (sockfd, w1)" "con_retry env tid sockfd w1 = Inr w'"
    by auto
  from removeAndReset_owes [OF assms(1,2) 1(1) assms(3)] retry_inv [OF _ _ 1(2)] show ?thesis by blast
qed

lemma stopInLoop_inv: "con_inv w \<Longrightarrow> stopInLoop env tid w = Inr w' \<Longrightarrow> con_inv w'"
  using retry_after_remove [of w "con_setState kcDisconnected w" env tid w'] by (auto simp: stopInLoop_def split: if_splits)

lemma handleError_inv: "con_inv w \<Longrightarrow> con_handleError env tid w = Inr w' \<Longrightarrow> con_inv w'"
  using retry_after_remove [of w w env tid w'] by (auto simp: con_handleError_def split: if_splits)

lemma call_newConnection_inv:
  assumes "owes w (Some sockfd)" and "delays_ok w" and "M_cState (k_con w) \<noteq> kcConnecting"
    and "call_newConnection env sockfd w = Inr w'"
  shows "con_inv w'"
  using assms
  by (auto simp: call_newConnection_def con_inv_def owes_def channel_ok_def delays_ok_def attempt_socket_def
      split: option.splits)

lemma handleWrite_inv:
  assumes "con_inv w" and "con_handleWrite env ans tid w = Inr w'"
  shows "con_inv w'"
proof (cases "M_cState (k_con w) = kcConnecting")
  case True
  with assms(2) obtain sockfd w1 where 1: "removeAndResetChannel env tid w = Inr (sockfd, w1)" by (auto simp: con_handleWrite_def)
  let ?w = "con_setState kcConnected w1"
  from removeAndReset_owes [OF assms(1) True 1] have o: "owes w1 (Some sockfd)" "delays_ok w1" by simp_all
  then have o': "owes ?w (Some sockfd)" "delays_ok ?w" "M_cState (k_con ?w) \<noteq> kcConnecting"
    by (simp_all add: owes_def delays_ok_def con_frame)
  then have "con_inv (con_close sockfd ?w)"
    by (simp add: con_inv_def owes_def channel_ok_def delays_ok_def attempt_socket_def con_frame)
  moreover from assms(2) True 1 have "con_retry env tid sockfd w1 = Inr w' \<or> call_newConnection env sockfd ?w = Inr w' \<or>
      w' = con_close sockfd ?w"
    by (auto simp: con_handleWrite_def Let_def split: if_splits)
  ultimately show ?thesis using retry_inv [OF o] call_newConnection_inv [OF o'] by auto
qed (use assms in \<open>auto simp: con_handleWrite_def\<close>)

lemma resetChannel_inv:
  assumes "con_inv w" and "resetChannel tid w = Inr w'"
  shows "con_inv w'"
proof (cases "M_cState (k_con w) = kcConnecting")
  case True
  with assms have "w' = w"
    by (auto simp: con_inv_def channel_ok_def resetChannel_def delete_Channel_def con_inLoopThread_def split: if_splits option.splits)
  with assms(1) show ?thesis by simp
next
  case False
  with assms show ?thesis
    by (auto simp: resetChannel_def con_inv_def owes_def channel_ok_def delays_ok_def attempt_socket_def con_frame
        split: option.splits)
qed

text \<open>\<^verbatim>\<open>restart\<close> abandons an attempt that is in progress, so its callers call it when there is none.\<close>

inductive con_reaches :: "('u, 's) con_env \<Rightarrow> ('u, 's) con_world \<Rightarrow> ('u, 's) con_world \<Rightarrow> bool" for env w0 where
  start: "con_reaches env w0 w0"
| step: "con_reaches env w0 w \<Longrightarrow> call = CallRestart \<longrightarrow> M_cState (k_con w) \<noteq> kcConnecting \<Longrightarrow>
    run_con_call env (tid, ans, call) w = Inr w' \<Longrightarrow> con_reaches env w0 w'"

lemma con_inv_other_fields [simp]:
  "con_inv (con_queueInLoop tid t w) = con_inv w" "con_inv (set_con (\<lambda>c. c\<lparr>M_connect := b\<rparr>) w) = con_inv w"
  by (simp_all add: con_inv_def owes_def channel_ok_def delays_ok_def attempt_socket_def con_frame)

lemma con_call_inv:
  assumes "con_inv w" and "call = CallRestart \<longrightarrow> M_cState (k_con w) \<noteq> kcConnecting"
    and "run_con_call env (tid, ans, call) w = Inr w'"
  shows "con_inv w'"
proof (cases call)
  case CallStart
  with assms(1,3) startInLoop_inv [of "set_con (\<lambda>c. c\<lparr>M_connect := True\<rparr>) w"] show ?thesis
    by (auto simp: run_con_call_def con_start_def Let_def split: if_splits)
next
  case CallStop
  with assms(1,3) show ?thesis by (auto simp: run_con_call_def con_stop_def)
next
  case CallRestart
  let ?w = "set_con (\<lambda>c. c\<lparr>M_cState := kcDisconnected, M_retryDelayMs := kInitRetryDelayMs, M_connect := True\<rparr>) (w\<lparr>k_delays := []\<rparr>)"
  have "con_inv ?w" using assms(1,2) CallRestart
    by (simp add: con_inv_def owes_def channel_ok_def delays_ok_def attempt_socket_def con_frame backoff_0)
  with CallRestart assms(3) startInLoop_inv show ?thesis by (auto simp: run_con_call_def con_restart_def)
next
  case (RunTask t)
  then show ?thesis using assms(1,3) startInLoop_inv resetChannel_inv handleWrite_inv stopInLoop_inv handleError_inv
    by (cases t) (auto simp: run_con_call_def)
qed

definition fresh_connector :: "nat \<Rightarrow> sockaddr \<Rightarrow> 'u \<Rightarrow> 'u net_heap \<Rightarrow> 'u net_loop \<Rightarrow> fd_table \<Rightarrow> 's \<Rightarrow> ('u, 's) con_world" where
  "fresh_connector this serverAddr cb h l t s =
     \<lparr>k_heap = h, k_loop = l, k_con = con_setNewConnectionCallback cb (new_Connector this serverAddr), k_fds = t,
      k_syscalls = [], k_opened = [], k_handed = [], k_delays = [], k_rest = s\<rparr>"

lemma con_reaches_inv: "con_reaches env (fresh_connector this addr cb h l t s) w \<Longrightarrow> con_inv w"
proof (induction rule: con_reaches.induct)
  case start
  show ?case
    by (simp add: con_inv_def owes_def channel_ok_def delays_ok_def attempt_socket_def fresh_connector_def
        con_setNewConnectionCallback_def new_Connector_def backoff_0)
next
  case (step w call tid ans w')
  then show ?case by (blast intro: con_call_inv)
qed

section \<open>Scheduling\<close>

lemma runAfter_ok:
  assumes "tq_inv D (M_timerQueue l)" and "alloc_ok env" and "alloc env (timers (M_timerQueue l)) = Some a"
    and "isInLoopThread tid l" and "pending_calls (M_timerQueue l) = []"
  shows "\<exists>timerId q. runAfter env tid delay cb l = Inr (timerId, l\<lparr>M_timerQueue := q\<rparr>) \<and> tq_inv D q"
proof -
  let ?q = "(M_timerQueue l)\<lparr>readings := Suc (readings (M_timerQueue l))\<rparr>"
    and ?time = "addTime (clock env (readings (M_timerQueue l))) delay"
  have "tq_inv D ?q" using assms(1) by (simp add: tq_inv_def)
  from addTimer_ok(1,2) [OF this assms(2), of a _ cb ?time 0, OF _ refl] assms(3) obtain timerId q where
    q: "addTimer env True cb ?time 0 ?q = Inr (timerId, q)" "tq_inv D q" "pending_calls q = []"
    using assms(5) by (auto simp: added_def resetTimerfd_def read_clock_def Let_def)
  then have "runAfter env tid delay cb l = Inr (timerId, l\<lparr>M_timerQueue := q\<rparr>)"
    using assms(4) by (simp add: runAfter_def read_clock_def loop_addTimer_def isInLoopThread_def forward_calls_def)
  with q(2) show ?thesis by blast
qed

section \<open>An attempt\<close>

definition in_progress :: "int set" where "in_progress = {0, EINPROGRESS, EINTR, EISCONN}"

text \<open>The kernel creates the socket \<open>fd\<close> and starts to connect; the new channel is a fresh object.\<close>

definition attempt_starts :: "('u, 's) con_env \<Rightarrow> con_answers \<Rightarrow> int \<Rightarrow> int \<Rightarrow> ('u, 's) con_world \<Rightarrow> bool" where
  "attempt_starts env ans tid fd w \<longleftrightarrow>
     epoll_documented (con_ctl env) \<and> loop_reg tid (k_heap w) (k_loop w) \<and>
     (\<forall>x. loop_channels (k_loop w) x \<noteq> Some (ans_channel ans)) \<and> loop_channels (k_loop w) fd = None \<and> 0 \<le> fd \<and>
     (\<exists>flags. ans_socket ans = Inr (fd, flags)) \<and> ans_connect ans \<in> in_progress"

lemma connecting_ok:
  assumes "epoll_documented (con_ctl env)" and "loop_reg tid (k_heap w) (k_loop w)" and "0 \<le> fd"
    and "loop_channels (k_loop w) fd = None" and "\<forall>x. loop_channels (k_loop w) x \<noteq> Some (ans_channel ans)"
    and "M_cChannel (k_con w) = None"
  shows "\<exists>p ch. connecting env ans tid fd w = Inr (w\<lparr>k_con := (k_con w)\<lparr>M_cState := kcConnecting, M_cChannel := Some (ans_channel ans)\<rparr>,
      k_heap := (k_heap w)(ans_channel ans \<mapsto> ch), k_loop := (k_loop w)\<lparr>M_poller := p\<rparr>\<rparr>) \<and> M_fd ch = fd \<and> isWriting ch \<and>
    loop_reg tid ((k_heap w)(ans_channel ans \<mapsto> ch)) ((k_loop w)\<lparr>M_poller := p\<rparr>) \<and>
    virtual_channels p = (loop_channels (k_loop w))(fd \<mapsto> ans_channel ans)"
proof -
  let ?a = "ans_channel ans" and ?self = "M_connectorSelf (k_con w)"
  define ch :: "'a net_functor channel" where
    "ch = setErrorCallback (User (ConnectorTask ?self ConnectorError))
       (setWriteCallback (User (ConnectorTask ?self ConnectorWrite)) (new_Channel (M_self (k_loop w)) fd))"
  have ch: "M_fd ch = fd" "M_loop ch = M_self (k_loop w)" "M_index ch = -1"
    by (simp_all add: ch_def setErrorCallback_def setWriteCallback_def new_Channel_def)
  have reg: "loop_reg tid ((k_heap w)(?a \<mapsto> ch)) (k_loop w)" using assms(2,5) ch(2) by (intro loop_reg_fresh) auto
  have fits: "fits (loop_channels (k_loop w)) ?a ch" using assms(4) ch by (simp add: fits_def)
  from loop_set_events_ok [of "con_ctl env", OF assms(1) reg _ _ fits, of "\<lambda>ev. ev OR kWriteEvent"] ch(1) assms(3) obtain p i where
    p: "enableWriting (loop_updateChannel (con_ctl env) tid) ?a ((k_heap w)(?a \<mapsto> ch)) (k_loop w) =
        Inr (watch ((k_heap w)(?a \<mapsto> ch)) ?a ch (M_events ch OR kWriteEvent) i, (k_loop w)\<lparr>M_poller := p\<rparr>)"
      "loop_reg tid (watch ((k_heap w)(?a \<mapsto> ch)) ?a ch (M_events ch OR kWriteEvent) i) ((k_loop w)\<lparr>M_poller := p\<rparr>)"
      "virtual_channels p = (loop_channels (k_loop w))(fd \<mapsto> ?a)" by (auto simp: enableWriting_def)
  moreover have "isWriting (watched_channel ch (M_events ch OR kWriteEvent) i)"
    by (simp add: isWriting_def has_bits_def ch_def setErrorCallback_def setWriteCallback_def new_Channel_def event_masks)
  ultimately show ?thesis using assms(6) ch(1)
    by (intro exI [of _ p] exI [of _ "watched_channel ch (M_events ch OR kWriteEvent) i"])
      (simp add: connecting_def con_frame Let_def ch_def [symmetric] watch_def)
qed

lemma startInLoop_connecting:
  assumes "attempt_starts env ans tid fd w" and "M_cState (k_con w) = kcDisconnected" and "M_cChannel (k_con w) = None"
    and "M_connect (k_con w)"
  shows "\<exists>w1 p ch. startInLoop env ans tid w = Inr w1 \<and> M_cState (k_con w1) = kcConnecting \<and>
    k_con w1 = (k_con w)\<lparr>M_cState := kcConnecting, M_cChannel := Some (ans_channel ans)\<rparr> \<and>
    k_loop w1 = (k_loop w)\<lparr>M_poller := p\<rparr> \<and> k_rest w1 = k_rest w \<and>
    k_heap w1 (ans_channel ans) = Some ch \<and> M_fd ch = fd \<and> isWriting ch \<and> k_handed w1 = k_handed w \<and>
    loop_reg tid (k_heap w1) (k_loop w1) \<and> loop_channels (k_loop w1) = (loop_channels (k_loop w))(fd \<mapsto> ans_channel ans)"
proof -
  note as = assms(1) [unfolded attempt_starts_def]
  then obtain flags where sock: "ans_socket ans = Inr (fd, flags)" by blast
  have "open_fd (install_fd fd flags (k_fds w)) fd" using as by (simp add: open_fd_install)
  from setNonBlock_open [OF this] as obtain t where t: "createNonblockingOrDie (Inr (fd, flags)) (k_fds w) = (fd, t)" "open_fd t fd"
    by (auto simp: createNonblockingOrDie_def kernel_fd_def open_fd_def)
  have "isInLoopThread tid (k_loop w)" using as by (simp add: loop_reg_def isInLoopThread_def)
  moreover have "ans_connect ans \<in> {0, EINPROGRESS, EINTR, EISCONN}" using as by (simp add: in_progress_def)
  moreover let ?w = "w\<lparr>k_fds := t, k_opened := k_opened w @ [fd],
      k_syscalls := k_syscalls w @ [Connect fd (getSockAddr (M_serverAddr (k_con w)))]\<rparr>"
  obtain p ch where "connecting env ans tid fd ?w = Inr (?w\<lparr>k_con := (k_con w)\<lparr>M_cState := kcConnecting, M_cChannel := Some (ans_channel ans)\<rparr>,
      k_heap := (k_heap w)(ans_channel ans \<mapsto> ch), k_loop := (k_loop w)\<lparr>M_poller := p\<rparr>\<rparr>)" "M_fd ch = fd" "isWriting ch"
      "loop_reg tid ((k_heap w)(ans_channel ans \<mapsto> ch)) ((k_loop w)\<lparr>M_poller := p\<rparr>)"
      "virtual_channels p = (loop_channels (k_loop w))(fd \<mapsto> ans_channel ans)"
    using connecting_ok [of env tid ?w fd ans] as assms(3) by auto
  ultimately show ?thesis using assms(2,4)
    by (simp add: startInLoop_def con_inLoopThread_def connect_def sock t sockets_connect_def loop_channels_def, intro exI [of _ p], simp)
qed

section \<open>A sample connector\<close>

definition sample_con_env :: "(nat, unit) con_env" where
  "sample_con_env = \<lparr>con_ctl = kernel_ctl,
     con_timers = \<lparr>clock = \<lambda>n. Timestamp (int n), alloc = \<lambda>h. if h 16 = None then Some 16 else None, body = \<lambda>_. Return\<rparr>,
     con_callback = \<lambda>_ _. Inr\<rparr>"

definition sample_con_answers :: "int \<Rightarrow> con_answers" where
  "sample_con_answers err = \<lparr>ans_socket = Inr (9, 2), ans_connect = err, ans_channel = 3, ans_soerror = Inr 0, ans_selfConnect = False\<rparr>"

definition sample_connector :: "(nat, unit) con_world" where
  "sample_connector = fresh_connector 40 sample_peer6 5 Map.empty (idle_loop 7 1) sample_fds ()"

lemma sample_connector_simps:
  "M_cState (k_con sample_connector) = kcDisconnected" "M_cChannel (k_con sample_connector) = None"
  "M_cNewConnectionCallback (k_con sample_connector) = Some 5" "k_loop sample_connector = idle_loop 7 1"
  "k_heap sample_connector = Map.empty" "M_retryDelayMs (k_con sample_connector) = 500"
  "k_delays sample_connector = []" "k_opened sample_connector = []" "k_syscalls sample_connector = []" "k_handed sample_connector = []"
  "k_fds sample_connector = sample_fds"
  by (simp_all add: sample_connector_def fresh_connector_def con_setNewConnectionCallback_def new_Connector_def kInitRetryDelayMs_def)

lemma sample_attempt_starts:
  assumes "k_heap w = Map.empty" and "k_loop w = idle_loop 7 1"
  shows "attempt_starts sample_con_env (sample_con_answers EINPROGRESS) 1 9 w"
  using assms
  by (simp add: idle_loop_reg attempt_starts_def sample_con_env_def sample_con_answers_def in_progress_def epoll_documented_kernel_ctl)

lemma sample_refused:
  "\<exists>w. con_reaches sample_con_env sample_connector w \<and> k_delays w = [500] \<and> k_opened w = [9] \<and> attempt_socket w = None"
proof -
  let ?w = "set_con (\<lambda>c. c\<lparr>M_connect := True\<rparr>) sample_connector" and ?l = "idle_loop 7 1 :: nat net_loop"
  have inv: "tq_inv {} (M_timerQueue ?l)" by (simp add: idle_loop_def tq_inv_def ordered_set_def)
  have al: "alloc_ok (con_timers sample_con_env)" "alloc (con_timers sample_con_env) (timers (M_timerQueue ?l)) = Some 16"
    by (auto simp: alloc_ok_def sample_con_env_def idle_loop_def UINTPTR_MAX_def split: if_splits)
  from runAfter_ok [OF inv al, of 1 "fl (of_int 500 / 1000)" "ConnectorTask 40 StartInLoop"] obtain timerId q where
    q: "runAfter (con_timers sample_con_env) 1 (fl (of_int 500 / 1000)) (ConnectorTask 40 StartInLoop) ?l = Inr (timerId, ?l\<lparr>M_timerQueue := q\<rparr>)"
    by (auto simp: idle_loop_def isInLoopThread_def)
  have "open_fd (install_fd 9 2 sample_fds) 9" by (simp add: open_fd_install)
  from setNonBlock_open [OF this] obtain t where t: "createNonblockingOrDie (Inr (9, 2)) sample_fds = (9, t)" "open_fd t 9"
    by (auto simp: createNonblockingOrDie_def kernel_fd_def open_fd_def)
  have refused: "ECONNREFUSED \<notin> {0, EINPROGRESS, EINTR, EISCONN}" by (simp add: errno_values)
  have self: "M_connectorSelf (k_con sample_connector) = 40"
    by (simp add: sample_connector_def fresh_connector_def con_setNewConnectionCallback_def new_Connector_def)
  have "isInLoopThread 1 ?l" by (simp add: idle_loop_def isInLoopThread_def)
  then obtain w where w: "con_start sample_con_env (sample_con_answers ECONNREFUSED) 1 sample_connector = Inr w"
    "k_delays w = [500]" "k_opened w = [9]" "M_cState (k_con w) = kcDisconnected"
    using q refused
    by (simp add: con_start_def startInLoop_def con_inLoopThread_def connect_def sample_con_answers_def t sockets_connect_def
        con_retry_def con_frame sample_connector_simps self Let_def)
  have "con_reaches sample_con_env sample_connector w"
    by (rule con_reaches.step [OF con_reaches.start, where call = CallStart and tid = 1 and ans = "sample_con_answers ECONNREFUSED"])
      (simp_all add: run_con_call_def w(1))
  with w(2-4) show ?thesis by (auto simp: attempt_socket_def)
qed

section \<open>Properties\<close>





text \<open>A retry that was scheduled is not cancelled by \<^verbatim>\<open>stop\<close>. When the user stops the connector and
  starts it again before the timer expires, the new attempt is in progress when the old timer
  calls \<^verbatim>\<open>startInLoop\<close>, whose assertion then aborts the process.\<close>

theorem stale_retry_timer_aborts:
  assumes "attempt_starts env ans tid fd w" and "M_cState (k_con w) = kcDisconnected" and "M_cChannel (k_con w) = None"
  shows "\<exists>w1. con_start env ans tid (con_stop tid w) = Inr w1 \<and> M_timerQueue (k_loop w1) = M_timerQueue (k_loop w) \<and>
    M_cState (k_con w1) = kcConnecting \<and>
    run_connector_task env ans' tid StartInLoop w1 = Inl (AssertFailed ''M_state == kDisconnected'')"
proof -
  let ?w = "set_con (\<lambda>c. c\<lparr>M_connect := True\<rparr>) (con_stop tid w)"
  have q: "M_timerQueue (k_loop ?w) = M_timerQueue (k_loop w)" "M_threadId (k_loop w) = tid"
    using assms(1) by (simp_all add: con_stop_def con_frame queueInLoop_def push_functor_def wakeup_def Let_def
        attempt_starts_def loop_reg_def)
  have "attempt_starts env ans tid fd ?w"
    using assms(1) by (simp add: attempt_starts_def con_stop_def con_frame)
  from startInLoop_connecting [OF this] assms(2,3) obtain w1 p where
    1: "startInLoop env ans tid ?w = Inr w1" "M_cState (k_con w1) = kcConnecting" "k_loop w1 = (k_loop ?w)\<lparr>M_poller := p\<rparr>"
    by (auto simp: con_stop_def con_frame)
  have th: "M_threadId (k_loop ?w) = tid"
    using q(2) by (simp add: con_stop_def con_frame queueInLoop_def push_functor_def wakeup_def Let_def)
  then have "con_inLoopThread tid ?w" "con_inLoopThread tid w1"
    using 1(3) by (simp_all add: con_inLoopThread_def isInLoopThread_def)
  then show ?thesis using 1 q(1) by (simp add: con_start_def startInLoop_def assertr_def Let_def)
qed

theorem stale_retry_timer_aborts_witness:
  "\<exists>w1. con_start sample_con_env (sample_con_answers EINPROGRESS) 1 (con_stop 1 sample_connector) = Inr w1 \<and>
    M_timerQueue (k_loop w1) = M_timerQueue (k_loop sample_connector) \<and> M_cState (k_con w1) = kcConnecting \<and>
    run_connector_task sample_con_env (sample_con_answers 0) 1 StartInLoop w1 = Inl (AssertFailed ''M_state == kDisconnected'')"
  by (rule stale_retry_timer_aborts [OF sample_attempt_starts]) (simp_all add: sample_connector_simps)

text \<open>An attempt that succeeds: the socket is connecting with its channel registered for writing; when
  it becomes writable without an error, the channel leaves the poller, the connector is connected
  and the callback is called once, with that socket and a loop in which its descriptor is free.\<close>

theorem connection_attempt_succeeds:
  assumes "attempt_starts env ans tid fd w" and "M_cState (k_con w) = kcDisconnected" and "M_cChannel (k_con w) = None"
    and "M_connect (k_con w)" and "M_cNewConnectionCallback (k_con w) = Some cb" and "\<not> M_loopEventHandling (k_loop w)"
    and "ans_soerror ans' = Inr 0" and "\<not> ans_selfConnect ans'"
  shows "\<exists>w1 h l. startInLoop env ans tid w = Inr w1 \<and> attempt_socket w1 = Some fd \<and>
    loop_channels l = loop_channels (k_loop w) \<and> loop_reg tid h l \<and>
    con_handleWrite env ans' tid w1 =
      bindr (con_callback env cb fd (h, l, k_rest w)) (\<lambda>(h, l, s).
        Inr (w1\<lparr>k_con := (k_con w1)\<lparr>M_cState := kcConnected\<rparr>, k_heap := h, k_loop := l, k_rest := s,
          k_handed := k_handed w @ [fd]\<rparr>))"
proof -
  let ?a = "ans_channel ans"
  note as = assms(1) [unfolded attempt_starts_def]
  from startInLoop_connecting [OF assms(1-4)] obtain w1 p ch where
    1: "startInLoop env ans tid w = Inr w1" "M_cState (k_con w1) = kcConnecting"
      "k_con w1 = (k_con w)\<lparr>M_cState := kcConnecting, M_cChannel := Some ?a\<rparr>"
      "k_loop w1 = (k_loop w)\<lparr>M_poller := p\<rparr>" "k_rest w1 = k_rest w" "k_heap w1 ?a = Some ch" "M_fd ch = fd"
      "k_handed w1 = k_handed w" "loop_reg tid (k_heap w1) (k_loop w1)"
      "loop_channels (k_loop w1) = (loop_channels (k_loop w))(fd \<mapsto> ?a)" by blast
  from loop_disable_remove_ok [of "con_ctl env" tid "k_heap w1" "k_loop w1" ?a ch] 1 as assms(6) obtain h1 p1 h2 p2 where
    2: "disableAll (loop_updateChannel (con_ctl env) tid) ?a (k_heap w1) (k_loop w1) = Inr (h1, (k_loop w1)\<lparr>M_poller := p1\<rparr>)"
      "remove_channel (loop_removeChannel (con_ctl env) tid) ?a h1 ((k_loop w1)\<lparr>M_poller := p1\<rparr>) = Inr (h2, (k_loop w1)\<lparr>M_poller := p2\<rparr>)"
      "loop_reg tid h2 ((k_loop w1)\<lparr>M_poller := p2\<rparr>)" "virtual_channels p2 = (loop_channels (k_loop w1))(fd := None)"
      "same_but_index ((k_heap w1)(?a \<mapsto> ch\<lparr>M_events := 0, M_addedToLoop := False\<rparr>)) h2" by auto
  from same_but_indexE [OF 2(5), of ?a] obtain j where
    c: "h2 ?a = Some (ch\<lparr>M_events := 0, M_addedToLoop := False, M_index := j\<rparr>)" by auto
  let ?l = "queueInLoop tid (User (ConnectorTask (M_connectorSelf (k_con w)) ResetChannel)) ((k_loop w1)\<lparr>M_poller := p2\<rparr>)"
  have "(loop_channels (k_loop w))(fd := None) = loop_channels (k_loop w)" using as by (simp add: fun_upd_idem)
  then have "loop_channels ((k_loop w1)\<lparr>M_poller := p2\<rparr>) = loop_channels (k_loop w)"
    using 2(4) 1(10) by (simp add: loop_channels_def)
  then have l: "loop_channels ?l = loop_channels (k_loop w)" "loop_reg tid h2 ?l" using 2(3) by simp_all
  have "attempt_socket w1 = Some fd" using 1(3,6,7) by (simp add: attempt_socket_def)
  moreover have "con_handleWrite env ans' tid w1 =
      bindr (con_callback env cb fd (h2, ?l, k_rest w)) (\<lambda>(h, l, s).
        Inr (w1\<lparr>k_con := (k_con w1)\<lparr>M_cState := kcConnected\<rparr>, k_heap := h, k_loop := l, k_rest := s,
          k_handed := k_handed w @ [fd]\<rparr>))"
    using 1(2,3,5,7,8) 2(1,2) c assms(4,5,7,8)
    by (simp add: con_handleWrite_def removeAndResetChannel_def getSocketError_def call_newConnection_def con_frame Let_def)
  ultimately show ?thesis using 1(1) l by blast
qed

theorem connection_attempt_succeeds_witness:
  "\<exists>w1 w2. startInLoop sample_con_env (sample_con_answers EINPROGRESS) 1 (set_con (\<lambda>c. c\<lparr>M_connect := True\<rparr>) sample_connector) = Inr w1 \<and>
    attempt_socket w1 = Some 9 \<and> con_handleWrite sample_con_env (sample_con_answers 0) 1 w1 = Inr w2 \<and> k_handed w2 = [9]"
proof -
  let ?w = "set_con (\<lambda>c. c\<lparr>M_connect := True\<rparr>) sample_connector"
  have "attempt_starts sample_con_env (sample_con_answers EINPROGRESS) 1 9 ?w"
    by (rule sample_attempt_starts) (simp_all add: set_con_def sample_connector_simps)
  from connection_attempt_succeeds [OF this, where cb = 5 and ans' = "sample_con_answers 0"] show ?thesis
    by (auto simp: set_con_def sample_connector_simps sample_con_answers_def idle_loop_def sample_con_env_def)
qed

end
