(* ===== verification/TcpClient.thy ===== *)
theory TcpClient
  imports TcpConnection Connector
begin

text \<open>
  The class \<^verbatim>\<open>TcpClient\<close> (include/TcpClient.h, src/TcpClient.cpp).

  \<^item> A client, its connector and its connections share one loop. The state of the client is \<open>k_rest\<close> of
    the connector's world: \<open>client_state\<close> holds the client and its connections by their address.
  \<^item> For the close callback the world of a connection has the connector's world as its \<open>w_rest\<close>. The
    channels and the loop are those of the connection's world there; \<open>sync\<close> passes them on.
  \<^item> The lock of \<^verbatim>\<open>M_mutex\<close> protects single assignments; an operation here is one step.
  \<^item> \<^verbatim>\<open>M_loop == conn->getLoop()\<close> holds by construction: a connection of a client has no other loop.
\<close>

section \<open>State\<close>

record 'u tcp_client =
  M_clientSelf :: nat
  M_clientName :: string
  M_clientConnectionCallback :: 'u
  M_clientMessageCallback :: 'u
  M_clientWriteCompleteCallback :: "'u option"
  M_retry :: bool
  M_clientConnect :: bool
  M_clientNextConnId :: int
  M_connection :: "nat option"

record 'u client_state =
  cl :: "'u tcp_client"
  cl_conns :: "nat \<rightharpoonup> 'u tcp_connection"
  cl_wires :: "nat \<Rightarrow> byte list"
  cl_called :: "nat \<Rightarrow> ('u \<times> cb_event) list"
  cl_syscalls :: "syscall list"

type_synonym 'u client_world = "('u, 'u client_state) con_world"
type_synonym 'u client_conn = "('u, 'u client_world) conn_world"

definition set_client :: "('u tcp_client \<Rightarrow> 'u tcp_client) \<Rightarrow> 'u client_world \<Rightarrow> 'u client_world" where
  "set_client f w = w\<lparr>k_rest := (k_rest w)\<lparr>cl := f (cl (k_rest w))\<rparr>\<rparr>"

section \<open>Operations\<close>

text \<open>The constructor of the members; the connector gets the callback that stands for
  \<^verbatim>\<open>bind(&TcpClient::newConnection, this, _1)\<close>.\<close>

definition new_TcpClient :: "nat \<Rightarrow> nat \<Rightarrow> sockaddr \<Rightarrow> string \<Rightarrow> 'u \<Rightarrow> 'u \<Rightarrow> 'u \<Rightarrow> 'u tcp_client \<times> 'u connector" where
  "new_TcpClient this connectorAddr serverAddr nameArg onConnection onMessage newConn =
     (\<lparr>M_clientSelf = this, M_clientName = nameArg, M_clientConnectionCallback = onConnection,
       M_clientMessageCallback = onMessage, M_clientWriteCompleteCallback = None, M_retry = False, M_clientConnect = True,
       M_clientNextConnId = 1, M_connection = None\<rparr>,
      con_setNewConnectionCallback newConn (new_Connector connectorAddr serverAddr))"

definition connection :: "'u tcp_client \<Rightarrow> nat option" where "connection c = M_connection c"
definition client_retry :: "'u tcp_client \<Rightarrow> bool" where "client_retry c = M_retry c"
definition enableRetry :: "'u tcp_client \<Rightarrow> 'u tcp_client" where "enableRetry c = c\<lparr>M_retry := True\<rparr>"
definition client_name :: "'u tcp_client \<Rightarrow> string" where "client_name c = M_clientName c"

definition client_setConnectionCallback :: "'u \<Rightarrow> 'u tcp_client \<Rightarrow> 'u tcp_client" where
  "client_setConnectionCallback cb c = c\<lparr>M_clientConnectionCallback := cb\<rparr>"

definition client_setMessageCallback :: "'u \<Rightarrow> 'u tcp_client \<Rightarrow> 'u tcp_client" where
  "client_setMessageCallback cb c = c\<lparr>M_clientMessageCallback := cb\<rparr>"

definition client_setWriteCompleteCallback :: "'u option \<Rightarrow> 'u tcp_client \<Rightarrow> 'u tcp_client" where
  "client_setWriteCompleteCallback cb c = c\<lparr>M_clientWriteCompleteCallback := cb\<rparr>"

definition client_connect :: "('u, 'u client_state) con_env \<Rightarrow> con_answers \<Rightarrow> int \<Rightarrow> 'u client_world \<Rightarrow> 'u client_world res" where
  "client_connect env ans tid w = con_start env ans tid (set_client (\<lambda>c. c\<lparr>M_clientConnect := True\<rparr>) w)"

definition client_stop :: "int \<Rightarrow> 'u client_world \<Rightarrow> 'u client_world" where
  "client_stop tid w = con_stop tid (set_client (\<lambda>c. c\<lparr>M_clientConnect := False\<rparr>) w)"

text \<open>What the connection \<open>c\<close> sees, and the way back.\<close>

definition client_view :: "nat \<Rightarrow> 'u tcp_connection \<Rightarrow> 'u client_world \<Rightarrow> 'u client_conn" where
  "client_view c conn w =
     \<lparr>w_heap = k_heap w, w_loop = k_loop w, w_conn = conn, w_wire = cl_wires (k_rest w) c, w_syscalls = cl_syscalls (k_rest w),
      w_called = cl_called (k_rest w) c, w_rest = w\<rparr>"

definition sync :: "'u client_conn \<Rightarrow> 'u client_world" where
  "sync cw =
     (let w = w_rest cw; s = k_rest w; c = M_connSelf (w_conn cw) in
      w\<lparr>k_heap := w_heap cw, k_loop := w_loop cw,
        k_rest := s\<lparr>cl_conns := (cl_conns s)(c \<mapsto> w_conn cw), cl_wires := (cl_wires s)(c := w_wire cw),
          cl_called := (cl_called s)(c := w_called cw), cl_syscalls := w_syscalls cw\<rparr>\<rparr>)"

definition on_client_conn :: "nat \<Rightarrow> ('u client_conn \<Rightarrow> 'u client_conn res) \<Rightarrow> 'u client_world \<Rightarrow> 'u client_world res" where
  "on_client_conn c f w =
     (case cl_conns (k_rest w) c of
        None \<Rightarrow> Inl (DanglingPointer ''TcpConnection'')
      | Some conn \<Rightarrow> bindr (f (client_view c conn w)) (\<lambda>cw. Inr (sync cw)))"

definition disconnect :: "int \<Rightarrow> 'u client_world \<Rightarrow> 'u client_world res" where
  "disconnect tid w =
     (let w = set_client (\<lambda>c. c\<lparr>M_clientConnect := False\<rparr>) w in
      case M_connection (cl (k_rest w)) of
        None \<Rightarrow> Inr w
      | Some c \<Rightarrow> on_client_conn c (shutdown tid) w)"

text \<open>The name of a connection: the text after the name of the client is cut to 31 characters.\<close>

definition client_conn_name :: "'u tcp_client \<Rightarrow> string \<Rightarrow> int \<Rightarrow> string" where
  "client_conn_name c ipPort i = M_clientName c @ snprintf 32 ('':'' @ ipPort @ ''#'' @ dec i)"

record client_answers =
  ans_peername :: "sockaddr option"
  ans_localname :: "sockaddr option"
  ans_clientConn :: nat
  ans_clientChan :: nat

text \<open>\<open>newConnection\<close> is the new-connection callback of the connector. \<open>env\<close> is the environment of the
  connection; its close callback is not reached from \<^verbatim>\<open>connectEstablished\<close>.\<close>

definition client_newConnection :: "lib6 \<Rightarrow> endian \<Rightarrow> ('u, 'u client_state) conn_env \<Rightarrow> client_answers \<Rightarrow> int \<Rightarrow> 'u \<Rightarrow> int \<Rightarrow>
    'u net_heap \<times> 'u net_loop \<times> 'u client_state \<Rightarrow> ('u net_heap \<times> 'u net_loop \<times> 'u client_state) res" where
  "client_newConnection lib host env ans tid closeCb sockfd = (\<lambda>(h, l, s).
     assertInLoopThread (isInLoopThread tid l)
       (let peerAddr = InetAddress_in6 (getPeerAddr (ans_peername ans)) in
        bindr (toIpPort lib host peerAddr) (\<lambda>ipPort.
        let i = M_clientNextConnId (cl s); connName = client_conn_name (cl s) ipPort i in
        if 2147483647 \<le> i then Inl (Fatal ''overflow of M_nextConnId'')
        else
          let c = ans_clientConn ans; chan = ans_clientChan ans;
              localAddr = InetAddress_in6 (getLocalAddr (ans_localname ans))
          in bindr (new_TcpConnection c (M_self l) connName sockfd localAddr peerAddr chan) (\<lambda>(conn, ch, calls).
               let conn = conn_setCloseCallback closeCb
                            (setWriteCompleteCallback (M_clientWriteCompleteCallback (cl s))
                              (setMessageCallback (M_clientMessageCallback (cl s))
                                (setConnectionCallback (M_clientConnectionCallback (cl s)) conn)));
                   s = s\<lparr>cl := (cl s)\<lparr>M_clientNextConnId := i + 1, M_connection := Some c\<rparr>\<rparr>
               in bindr (connectEstablished env tid
                          \<lparr>w_heap = h(chan \<mapsto> ch), w_loop = l, w_conn = conn, w_wire = [], w_syscalls = cl_syscalls s @ calls,
                           w_called = [], w_rest = s\<rparr>) (\<lambda>cw.
                    Inr (w_heap cw, w_loop cw,
                      (w_rest cw)\<lparr>cl_conns := (cl_conns s)(c \<mapsto> w_conn cw), cl_wires := (cl_wires s)(c := w_wire cw),
                        cl_called := (cl_called s)(c := w_called cw), cl_syscalls := w_syscalls cw\<rparr>))))))"

text \<open>\<open>removeConnection\<close> is the close callback of the connections.\<close>

definition client_removeConnection :: "('u, 'u client_state) con_env \<Rightarrow> con_answers \<Rightarrow> int \<Rightarrow> 'u client_conn \<Rightarrow> 'u client_conn res" where
  "client_removeConnection env ans tid cw =
     assertInLoopThread (isInLoopThread tid (w_loop cw))
       (let client = cl (k_rest (w_rest cw)) in
        assertr (M_connection client = Some (M_connSelf (w_conn cw))) ''M_connection == conn''
          (let cw = conn_queueInLoop tid ConnectDestroyed (cw\<lparr>w_rest := set_client (\<lambda>c. c\<lparr>M_connection := None\<rparr>) (w_rest cw)\<rparr>) in
           if M_retry client \<and> M_clientConnect client then
             bindr (con_restart env ans tid (sync cw)) (\<lambda>w.
               Inr (cw\<lparr>w_heap := k_heap w, w_loop := k_loop w, w_rest := w\<rparr>))
           else Inr cw))"

text \<open>The destructor; \<open>unique\<close> says whether the client holds the only reference to its connection. The
  callback \<^verbatim>\<open>detail::removeConnection\<close> is \<open>detailCb\<close>, and \<^verbatim>\<open>detail::removeConnector\<close> has an empty body.\<close>

definition delete_TcpClient :: "('u, 'u client_state) con_env \<Rightarrow> int \<Rightarrow> bool \<Rightarrow> 'u \<Rightarrow> 'u client_world \<Rightarrow> 'u client_world res" where
  "delete_TcpClient env tid unique detailCb w =
     (case M_connection (cl (k_rest w)) of
        Some c \<Rightarrow>
          bindr (on_client_conn c (conn_runInLoop tid (SetCloseCallback detailCb) (\<lambda>cw. Inr (set_conn (conn_setCloseCallback detailCb) cw))) w)
            (\<lambda>w. if unique then on_client_conn c (\<lambda>cw. Inr (forceClose tid cw)) w else Inr w)
      | None \<Rightarrow>
          let w = con_stop tid w in
          bindr (runAfter (con_timers env) tid 1 (RemoveConnector (M_connectorSelf (k_con w))) (k_loop w)) (\<lambda>(timerId, l).
            Inr (w\<lparr>k_loop := l\<rparr>)))"

text \<open>\<^verbatim>\<open>detail::removeConnection\<close>: the close callback after the client is gone.\<close>

definition detail_removeConnection :: "('u client_conn \<Rightarrow> 'u client_conn res) \<Rightarrow> int \<Rightarrow> 'u client_conn \<Rightarrow> 'u client_conn res" where
  "detail_removeConnection destroyed tid cw = conn_runInLoop tid ConnectDestroyed destroyed cw"

section \<open>Names\<close>

text \<open>The names of the connections to a peer whose text is long do not contain the number: they are all
  the same.\<close>

lemma long_client_names_collide:
  assumes "30 \<le> length ipPort"
  shows "client_conn_name c ipPort i = client_conn_name c ipPort j"
  using assms by (simp add: client_conn_name_def snprintf_def)

section \<open>Connecting and reconnecting\<close>

lemma attempt_starts_cong:
  assumes "k_heap w' = k_heap w" and "k_loop w' = k_loop w"
  shows "attempt_starts env ans tid fd w' = attempt_starts env ans tid fd w"
  using assms by (simp add: attempt_starts_def)

lemma attempt_starts_queue:
  "k_loop w' = queueInLoop t f (k_loop w) \<Longrightarrow> k_heap w' = k_heap w \<Longrightarrow> attempt_starts env ans tid fd w' = attempt_starts env ans tid fd w"
  by (simp add: attempt_starts_def)

lemma sync_simps [simp]:
  "k_heap (sync cw) = w_heap cw" "k_loop (sync cw) = w_loop cw" "k_con (sync cw) = k_con (w_rest cw)"
  "cl (k_rest (sync cw)) = cl (k_rest (w_rest cw))" "k_handed (sync cw) = k_handed (w_rest cw)"
  by (simp_all add: sync_def Let_def)

lemma set_client_simps [simp]:
  "k_con (set_client f w) = k_con w" "k_heap (set_client f w) = k_heap w" "k_loop (set_client f w) = k_loop w"
  "cl (k_rest (set_client f w)) = f (cl (k_rest w))"
  by (simp_all add: set_client_def)

text \<open>A restarted connector starts a new attempt with the initial delay.\<close>

lemma con_restart_attempts:
  assumes "attempt_starts env ans tid fd w" and "M_cChannel (k_con w) = None"
  shows "\<exists>w' p. con_restart env ans tid w = Inr w' \<and> M_cState (k_con w') = kcConnecting \<and>
    M_retryDelayMs (k_con w') = kInitRetryDelayMs \<and> attempt_socket w' = Some fd \<and> k_rest w' = k_rest w \<and>
    k_loop w' = (k_loop w)\<lparr>M_poller := p\<rparr>"
proof -
  let ?w = "set_con (\<lambda>c. c\<lparr>M_cState := kcDisconnected, M_retryDelayMs := kInitRetryDelayMs, M_connect := True\<rparr>) (w\<lparr>k_delays := []\<rparr>)"
  have "attempt_starts env ans tid fd ?w" using assms(1) by (subst attempt_starts_cong [of _ w]) (simp_all add: set_con_def)
  from startInLoop_connecting [OF this] assms(2) obtain w' p ch where
    "startInLoop env ans tid ?w = Inr w'" "M_cState (k_con w') = kcConnecting"
    "k_con w' = (k_con ?w)\<lparr>M_cState := kcConnecting, M_cChannel := Some (ans_channel ans)\<rparr>"
    "k_loop w' = (k_loop ?w)\<lparr>M_poller := p\<rparr>" "k_rest w' = k_rest ?w" "k_heap w' (ans_channel ans) = Some ch" "M_fd ch = fd"
    by (auto simp: set_con_def)
  moreover have "con_inLoopThread tid w"
    using assms(1) by (simp add: attempt_starts_def loop_reg_def con_inLoopThread_def isInLoopThread_def)
  ultimately show ?thesis by (auto simp: con_restart_def set_con_def attempt_socket_def)
qed

text \<open>The callback \<^verbatim>\<open>newConnection\<close> on a free descriptor sets up a connection, whatever the user's
  connection callback does.\<close>

definition client_up :: "int \<Rightarrow> int \<Rightarrow> nat \<Rightarrow> 'u \<Rightarrow> 'u net_heap \<times> 'u net_loop \<times> 'u client_state \<Rightarrow> bool" where
  "client_up tid fd c onConnection = (\<lambda>(h, l, s).
     M_connection (cl s) = Some c \<and> cl_called s c = [(onConnection, OnConnection)] \<and>
     (\<exists>conn. cl_conns s c = Some conn \<and> M_socket conn = fd \<and> M_state conn \<in> {kConnected, kDisconnecting} \<and>
        conn_inv tid \<lparr>w_heap = h, w_loop = l, w_conn = conn, w_wire = cl_wires s c, w_syscalls = cl_syscalls s,
          w_called = cl_called s c, w_rest = s\<rparr>))"

lemma client_newConnection_ok:
  assumes "loop_reg tid h l" and "\<forall>x. loop_channels l x \<noteq> Some (ans_clientChan cans)" and "loop_channels l fd = None" and "0 \<le> fd"
    and "owner_ok tid cenv" and "M_clientNextConnId (cl s) < 2147483647"
  shows "safely (client_newConnection lib host cenv cans tid closeCb fd (h, l, s))
    (client_up tid fd (ans_clientConn cans) (M_clientConnectionCallback (cl s)))"
proof -
  let ?c = "ans_clientConn cans" and ?chan = "ans_clientChan cans"
  let ?peer = "InetAddress_in6 (getPeerAddr (ans_peername cans))" and ?local = "InetAddress_in6 (getLocalAddr (ans_localname cans))"
  obtain t where t: "toIpPort lib host ?peer = Inr t" using toIpPort_returns by blast
  let ?nm = "client_conn_name (cl s) t (M_clientNextConnId (cl s))"
  obtain conn ch calls where new: "new_TcpConnection ?c (M_self l) ?nm fd ?local ?peer ?chan = Inr (conn, ch, calls)"
      "M_state conn = kConnecting" "M_connSelf conn = ?c" "M_socket conn = fd" "M_channel conn = ?chan"
    and inv: "\<forall>w :: ('a, 'a client_state) conn_world. w_heap w = h(?chan \<mapsto> ch) \<and> w_loop w = l \<and> M_channel (w_conn w) = ?chan \<and>
       M_socket (w_conn w) = fd \<and> M_state (w_conn w) = kConnecting \<and> M_inputBuffer (w_conn w) = M_inputBuffer conn \<and>
       M_outputBuffer (w_conn w) = M_outputBuffer conn \<longrightarrow> conn_inv tid w"
    using new_TcpConnection_ok [OF assms(1-4), of ?c ?nm ?local ?peer] by metis
  let ?conn = "conn_setCloseCallback closeCb (setWriteCompleteCallback (M_clientWriteCompleteCallback (cl s))
      (setMessageCallback (M_clientMessageCallback (cl s)) (setConnectionCallback (M_clientConnectionCallback (cl s)) conn)))"
  let ?s = "s\<lparr>cl := (cl s)\<lparr>M_clientNextConnId := M_clientNextConnId (cl s) + 1, M_connection := Some ?c\<rparr>\<rparr>"
  let ?w = "\<lparr>w_heap = h(?chan \<mapsto> ch), w_loop = l, w_conn = ?conn, w_wire = [], w_syscalls = cl_syscalls s @ calls,
                           w_called = [], w_rest = ?s\<rparr>"
  note set = conn_setCloseCallback_def setWriteCompleteCallback_def setMessageCallback_def setConnectionCallback_def
  have conn: "M_connectionCallback ?conn = Some (M_clientConnectionCallback (cl s))" "M_state ?conn = kConnecting" "M_socket ?conn = fd"
    using new by (simp_all add: set)
  have "conn_inv tid ?w" using new inv by (simp add: set)
  note up = connectEstablished_comes_up [OF this assms(5)]
  have here: "isInLoopThread tid l" using assms(1) by (simp add: loop_reg_def isInLoopThread_def)
  let ?out = "\<lambda>cw. (w_heap cw, w_loop cw, (w_rest cw)\<lparr>cl_conns := (cl_conns ?s)(?c \<mapsto> w_conn cw), cl_wires := (cl_wires ?s)(?c := w_wire cw),
      cl_called := (cl_called ?s)(?c := w_called cw), cl_syscalls := w_syscalls cw\<rparr>)"
  have run: "client_newConnection lib host cenv cans tid closeCb fd (h, l, s) = bindr (connectEstablished cenv tid ?w) (\<lambda>cw. Inr (?out cw))"
    using here assms(6) by (simp add: client_newConnection_def t new(1) Let_def)
  have "conn_inv tid \<lparr>w_heap = w_heap cw, w_loop = w_loop cw, w_conn = w_conn cw, w_wire = x, w_syscalls = y, w_called = z, w_rest = u\<rparr>"
    if "conn_inv tid cw" for cw :: "('a, 'a client_state) conn_world" and x y z and u :: "'a client_state"
    using that by (simp add: conn_inv_def conn_reg_def)
  then show ?thesis unfolding run using conn
    by (intro safely_bind [OF up]) (auto simp: client_up_def same_conn_def)
qed

section \<open>The client owns its connection\<close>

text \<open>Whatever the kernel answers, an attempt leaves the other channels of the loop alone. The answers are
  fresh: the kernel does not hand out a descriptor that is in use, the allocator no object in use.\<close>

definition fresh_answers :: "con_answers \<Rightarrow> 'u client_conn \<Rightarrow> bool" where
  "fresh_answers ans cw \<longleftrightarrow>
     (\<forall>fd flags. ans_socket ans = Inr (fd, flags) \<longrightarrow>
        0 \<le> fd \<and> loop_channels (w_loop cw) fd = None \<and> fd \<noteq> M_socket (w_conn cw) \<and>
        (\<forall>x. loop_channels (w_loop cw) x \<noteq> Some (ans_channel ans)) \<and> ans_channel ans \<noteq> M_channel (w_conn cw))"

definition kept :: "int \<Rightarrow> con_answers \<Rightarrow> ('u, 's) con_world \<Rightarrow> ('u, 's) con_world \<Rightarrow> bool" where
  "kept tid ans w w' \<longleftrightarrow> loop_reg tid (k_heap w') (k_loop w') \<and>
     (k_heap w' = k_heap w \<and> loop_channels (k_loop w') = loop_channels (k_loop w) \<or>
      (\<forall>x. x \<noteq> ans_channel ans \<longrightarrow> k_heap w' x = k_heap w x) \<and>
      (\<exists>fd flags. ans_socket ans = Inr (fd, flags) \<and> loop_channels (k_loop w') = (loop_channels (k_loop w))(fd \<mapsto> ans_channel ans)))"

lemma runAfter_keeps:
  assumes "runAfter env tid delay cb l = Inr (timerId, l')"
  shows "loop_channels l' = loop_channels l" and "loop_reg t h l' = loop_reg t h l"
proof -
  have f: "loop_channels (fold (\<lambda>c. queueInLoop tid (TimerTask c)) cs l) = loop_channels l \<and>
      loop_reg t h (fold (\<lambda>c. queueInLoop tid (TimerTask c)) cs l) = loop_reg t h l" for cs and l :: "'a event_loop"
    by (induction cs arbitrary: l) simp_all
  from assms obtain q where "l' = forward_calls tid (l\<lparr>M_timerQueue := q\<rparr>)"
    by (auto simp: runAfter_def loop_addTimer_def split: prod.splits)
  then show "loop_channels l' = loop_channels l" and "loop_reg t h l' = loop_reg t h l"
    by (simp_all add: forward_calls_def f) (simp_all add: loop_channels_def loop_reg_def)
qed

lemma con_retry_keeps: "con_retry env tid fd w = Inr w' \<Longrightarrow> loop_reg tid (k_heap w) (k_loop w) \<Longrightarrow> kept tid ans w w'"
  by (auto simp: con_retry_def kept_def con_frame Let_def split: if_splits dest: runAfter_keeps)

lemma connecting_keeps:
  assumes "epoll_documented (con_ctl env)" and "loop_reg tid (k_heap w) (k_loop w)" and "ans_socket ans = Inr (fd, flags)" and "0 \<le> fd"
    and "loop_channels (k_loop w) fd = None" and "\<forall>x. loop_channels (k_loop w) x \<noteq> Some (ans_channel ans)"
    and "connecting env ans tid fd w = Inr w'"
  shows "kept tid ans w w'"
proof -
  have "M_cChannel (k_con w) = None" using assms(7) by (auto simp: connecting_def con_frame Let_def)
  from connecting_ok [OF assms(1,2,4-6) this] assms(3,7) show ?thesis by (auto simp: kept_def loop_channels_def)
qed

lemma connect_keeps:
  assumes "epoll_documented (con_ctl env)" and "loop_reg tid (k_heap w) (k_loop w)"
    and "\<And>fd flags. ans_socket ans = Inr (fd, flags) \<Longrightarrow> 0 \<le> fd \<and> loop_channels (k_loop w) fd = None \<and>
      (\<forall>x. loop_channels (k_loop w) x \<noteq> Some (ans_channel ans))"
    and "connect env ans tid w = Inr w'"
  shows "kept tid ans w w'"
proof -
  obtain fd t where sock: "createNonblockingOrDie (ans_socket ans) (k_fds w) = (fd, t)" by force
  let ?w = "w\<lparr>k_fds := t, k_opened := k_opened w @ [fd],
      k_syscalls := k_syscalls w @ [Connect fd (getSockAddr (M_serverAddr (k_con w)))]\<rparr>"
  have kept: "kept tid ans ?w w' \<Longrightarrow> kept tid ans w w'" by (simp add: kept_def)
  have "EBADF \<notin> {0, EINPROGRESS, EINTR, EISCONN}" by (simp add: errno_values)
  then consider "open_fd t fd" "connecting env ans tid fd ?w = Inr w'" | "con_retry env tid fd ?w = Inr w'" | "w' = con_close fd ?w"
    using assms(4) unfolding connect_def sock prod.case Let_def sockets_connect_def by (metis sum.inject(2))
  then show ?thesis
  proof cases
    case 1
    then obtain flags where "ans_socket ans = Inr (fd, flags)"
      using sock by (auto simp: createNonblockingOrDie_def kernel_fd_def open_fd_def split: sum.splits prod.splits)
    with 1 assms(1-3) show ?thesis by (intro kept connecting_keeps [of env]) auto
  qed (use assms(2) con_retry_keeps [of env tid fd ?w w' ans] kept in \<open>auto simp: kept_def con_close_def\<close>)
qed

text \<open>The environments the connection of a client runs in: \<^verbatim>\<open>removeConnection\<close> is its close callback, and the
  kernel answers with fresh descriptors or an error.\<close>

definition client_env :: "int \<Rightarrow> ('u, 'u client_world) conn_env \<Rightarrow> bool" where
  "client_env tid env \<longleftrightarrow> env_ok env \<and> (\<forall>cb ev. prog_small (cb_body env cb ev)) \<and>
     (\<exists>kenv answers. epoll_documented (con_ctl kenv) \<and> (\<forall>cw. fresh_answers (answers cw) cw) \<and>
        close_body env = (\<lambda>_ cw. client_removeConnection kenv (answers cw) tid cw))"

lemma client_removeConnection_frame:
  assumes "conn_inv tid cw" and "epoll_documented (con_ctl kenv)" and "fresh_answers ans cw"
    and "client_removeConnection kenv ans tid cw = Inr cw'"
  shows "close_frame tid cw cw'"
proof -
  let ?cw = "conn_queueInLoop tid ConnectDestroyed (cw\<lparr>w_rest := set_client (\<lambda>c. c\<lparr>M_connection := None\<rparr>) (w_rest cw)\<rparr>)"
  let ?w = "sync ?cw" and ?c = "M_channel (w_conn cw)"
  from assms(1) obtain ch where reg: "conn_reg tid cw ch" by (rule conn_invE)
  have w: "k_heap ?w = w_heap cw" "loop_channels (k_loop ?w) = loop_channels (w_loop cw)"
      "loop_reg tid (k_heap ?w) (k_loop ?w) = loop_reg tid (w_heap cw) (w_loop cw)" by (simp_all add: conn_queueInLoop_def)
  have cases: "cw' = ?cw \<or> (\<exists>w'. con_restart kenv ans tid ?w = Inr w' \<and> cw' = ?cw\<lparr>w_heap := k_heap w', w_loop := k_loop w', w_rest := w'\<rparr>)"
    using assms(4) by (auto simp: client_removeConnection_def Let_def split: if_splits)
  have inv: "conn_inv tid cw'" if "kept tid ans ?w w'" "cw' = ?cw\<lparr>w_heap := k_heap w', w_loop := k_loop w', w_rest := w'\<rparr>" for w'
  proof -
    have "conn_reg tid cw' ch"
      using that reg assms(3) by (auto simp: kept_def conn_reg_def fits_def fresh_answers_def w conn_queueInLoop_def)
    then show ?thesis using assms(1) reg that(2)
      by (auto simp: conn_inv_def conn_queueInLoop_def conn_reg_def)
  qed
  have "kept tid ans ?w w'" if "con_restart kenv ans tid ?w = Inr w'" for w'
  proof -
    let ?v = "set_con (\<lambda>c. c\<lparr>M_cState := kcDisconnected, M_retryDelayMs := kInitRetryDelayMs, M_connect := True\<rparr>) (?w\<lparr>k_delays := []\<rparr>)"
    have v: "k_heap ?v = k_heap ?w" "k_loop ?v = k_loop ?w" by (simp_all add: set_con_def)
    have "connect kenv ans tid ?v = Inr w'" using that by (auto simp: con_restart_def startInLoop_def set_con_def split: if_splits)
    then have "kept tid ans ?v w'"
      using assms(2,3) reg by (intro connect_keeps [of kenv]) (auto simp: set_con_def fresh_answers_def conn_reg_def conn_queueInLoop_def)
    then show ?thesis by (simp add: kept_def v)
  qed
  with cases inv have "conn_inv tid cw'" using assms(1) by (auto simp: conn_inv_def conn_queueInLoop_def conn_reg_def)
  with cases show ?thesis by (auto simp: close_frame_def conn_queueInLoop_def)
qed

interpretation client_owner: connection_owner "client_env tid" tid for tid
  by unfold_locales (auto simp: client_env_def owner_ok_def intro: client_removeConnection_frame)

text \<open>The connection of a client only moves forward in its life.\<close>

lemma client_connection_advances:
  "conn_run (client_env tid) tid cw0 cw \<Longrightarrow> conn_good tid cw0 \<Longrightarrow> advances tid cw0 cw"
  by (rule client_owner.run_advances)

text \<open>A client, and its connection 50 that goes down: retrying is enabled, nothing is registered in the loop.\<close>

definition sample_client_env :: "(nat, nat client_state) con_env" where
  "sample_client_env = \<lparr>con_ctl = kernel_ctl,
     con_timers = \<lparr>clock = \<lambda>n. Timestamp (int n), alloc = \<lambda>h. if h 16 = None then Some 16 else None, body = \<lambda>_. Return\<rparr>,
     con_callback = \<lambda>_ _. Inr\<rparr>"

definition sample_client :: "nat client_world" where
  "sample_client =
     (let (c, con) = new_TcpClient 30 40 sample_peer6 ''client'' 1 2 5 in
      \<lparr>k_heap = Map.empty, k_loop = idle_loop 7 1, k_con = con, k_fds = sample_fds, k_syscalls = [], k_opened = [], k_handed = [],
       k_delays = [], k_rest = \<lparr>cl = enableRetry c, cl_conns = Map.empty, cl_wires = \<lambda>_. [],
         cl_called = \<lambda>_. [], cl_syscalls = []\<rparr>\<rparr>)"

definition sample_client_conn :: "nat client_conn" where
  "sample_client_conn =
     \<lparr>w_heap = Map.empty, w_loop = idle_loop 7 1, w_conn = sample_connection kDisconnected empty_buffer, w_wire = [], w_syscalls = [], w_called = [],
      w_rest = set_client (\<lambda>c. c\<lparr>M_connection := Some 50\<rparr>) sample_client\<rparr>"

lemma sample_client_conn_simps:
  "w_heap sample_client_conn = Map.empty" "w_loop sample_client_conn = idle_loop 7 1"
  "M_cChannel (k_con (w_rest sample_client_conn)) = None" "M_connSelf (w_conn sample_client_conn) = 50"
  "M_connection (cl (k_rest (w_rest sample_client_conn))) = Some 50"
  "M_retry (cl (k_rest (w_rest sample_client_conn)))" "M_clientConnect (cl (k_rest (w_rest sample_client_conn)))"
  by (simp_all add: sample_client_conn_def sample_client_def sample_connection_def new_TcpClient_def enableRetry_def
      con_setNewConnectionCallback_def new_Connector_def)

section \<open>Properties\<close>

text \<open>C40. When the connection of a client goes down, the client forgets it and hands it to
  \<^verbatim>\<open>connectDestroyed\<close>; if retrying is enabled and the user did not disconnect, a new attempt is under way
  at once, with the initial retry delay; otherwise the connector stays as it is.\<close>

theorem client_reconnects:
  assumes "attempt_starts env ans tid fd (sync cw)" and "M_cChannel (k_con (w_rest cw)) = None"
    and "M_connection (cl (k_rest (w_rest cw))) = Some (M_connSelf (w_conn cw))"
  shows "\<exists>cw'. client_removeConnection env ans tid cw = Inr cw' \<and>
    M_connection (cl (k_rest (w_rest cw'))) = None \<and>
    User (ConnTask (M_connSelf (w_conn cw)) ConnectDestroyed) \<in> set (M_pendingFunctors (w_loop cw')) \<and>
    (if M_retry (cl (k_rest (w_rest cw))) \<and> M_clientConnect (cl (k_rest (w_rest cw)))
     then M_cState (k_con (w_rest cw')) = kcConnecting \<and> attempt_socket (w_rest cw') = Some fd \<and>
       M_retryDelayMs (k_con (w_rest cw')) = 500
     else k_con (w_rest cw') = k_con (w_rest cw))"
proof -
  let ?cw = "conn_queueInLoop tid ConnectDestroyed (cw\<lparr>w_rest := set_client (\<lambda>c. c\<lparr>M_connection := None\<rparr>) (w_rest cw)\<rparr>)"
  have here: "isInLoopThread tid (w_loop cw)"
    using assms(1) by (simp add: attempt_starts_def loop_reg_def isInLoopThread_def)
  have queued: "User (ConnTask (M_connSelf (w_conn cw)) ConnectDestroyed) \<in> set (M_pendingFunctors (w_loop ?cw))"
    by (simp add: conn_queueInLoop_def pending_queue)
  have "attempt_starts env ans tid fd (sync ?cw)"
    using assms(1) by (subst attempt_starts_queue [of _ _ _ "sync cw"]) (simp_all add: conn_queueInLoop_def)
  from con_restart_attempts [OF this] assms(2) obtain w' p where
    w': "con_restart env ans tid (sync ?cw) = Inr w'" "M_cState (k_con w') = kcConnecting"
      "M_retryDelayMs (k_con w') = kInitRetryDelayMs" "attempt_socket w' = Some fd" "k_rest w' = k_rest (sync ?cw)"
      "k_loop w' = (w_loop ?cw)\<lparr>M_poller := p\<rparr>" by auto
  show ?thesis
  proof (cases "M_retry (cl (k_rest (w_rest cw))) \<and> M_clientConnect (cl (k_rest (w_rest cw)))")
    case True
    then have "client_removeConnection env ans tid cw = Inr (?cw\<lparr>w_heap := k_heap w', w_loop := k_loop w', w_rest := w'\<rparr>)"
      using here assms(3) w'(1) by (simp add: client_removeConnection_def Let_def)
    with True w' queued show ?thesis by (simp add: kInitRetryDelayMs_def)
  next
    case False
    then have "client_removeConnection env ans tid cw = Inr ?cw"
      using here assms(3) by (auto simp: client_removeConnection_def Let_def)
    with False queued show ?thesis by auto
  qed
qed

theorem client_reconnects_witness:
  "\<exists>cw'. client_removeConnection sample_client_env (sample_con_answers EINPROGRESS) 1 sample_client_conn = Inr cw' \<and>
     M_connection (cl (k_rest (w_rest cw'))) = None \<and> attempt_socket (w_rest cw') = Some 9 \<and>
     M_retryDelayMs (k_con (w_rest cw')) = 500"
proof -
  have "attempt_starts sample_client_env (sample_con_answers EINPROGRESS) 1 9 (sync sample_client_conn)"
    by (simp add: sample_client_conn_simps sample_client_env_def sample_con_answers_def idle_loop_reg attempt_starts_def in_progress_def
        epoll_documented_kernel_ctl)
  from client_reconnects [OF this] show ?thesis
    by (auto simp: sample_client_conn_simps)
qed

end
