(* ===== verification/Monitor.thy ===== *)
theory Monitor
  imports Prelude
begin

text \<open>
  \<^verbatim>\<open>MutexLock\<close> and \<^verbatim>\<open>MutexLockGuard\<close> (include/Mutex.h) and \<^verbatim>\<open>Condition\<close> (include/Condition.h), and
  counting lemmas on the program counters of the threads that use them.

  \<^item> A mutex is the thread that holds it, if any. \<open>mutex_lock t\<close> has no result while another thread
    holds the mutex: the thread waits. A thread that locks a mutex it holds waits for itself.
  \<^item> A condition is the set of threads that wait on it. As pthread_cond_signal(3) has it, \<^verbatim>\<open>notify\<close>
    wakes one waiting thread if there is any, \<^verbatim>\<open>notifyAll\<close> all of them, and a thread may wake up
    without a signal. A woken thread has to take the mutex again before \<^verbatim>\<open>wait\<close> returns.
  \<^item> The constructor of \<^verbatim>\<open>Condition\<close> initialises the reference \<^verbatim>\<open>M_mutex\<close> with itself; it is read as
    the mutex that is passed.
\<close>

type_synonym mutex = "nat option"
type_synonym condition = "nat set"

definition new_MutexLock :: mutex where "new_MutexLock = None"

definition mutex_lock :: "nat \<Rightarrow> mutex \<Rightarrow> mutex option" where
  "mutex_lock t m = (case m of None \<Rightarrow> Some (Some t) | Some _ \<Rightarrow> None)"

definition mutex_unlock :: "mutex \<Rightarrow> mutex" where "mutex_unlock m = None"

text \<open>A lock by a thread that already holds the mutex.\<close>

definition relock :: "nat \<Rightarrow> mutex \<Rightarrow> unit res" where
  "relock t m = (if m = Some t then Inl (SelfDeadlock ''pthread_mutex_lock'') else Inr ())"

definition new_Condition :: condition where "new_Condition = {}"

definition cond_wait :: "nat \<Rightarrow> mutex \<times> condition \<Rightarrow> mutex \<times> condition" where
  "cond_wait t mc = (mutex_unlock (fst mc), insert t (snd mc))"

inductive notify :: "condition \<Rightarrow> nat option \<Rightarrow> condition \<Rightarrow> bool" where
  nobody: "notify {} None {}"
| somebody: "u \<in> ws \<Longrightarrow> notify ws (Some u) (ws - {u})"

definition notifyAll :: "condition \<Rightarrow> condition \<times> nat set" where
  "notifyAll ws = ({}, ws)"

inductive_cases notifyE: "notify ws u ws'"

section \<open>Counting threads\<close>

definition num :: "('p \<Rightarrow> bool) \<Rightarrow> (nat \<Rightarrow> 'p) \<Rightarrow> nat" where
  "num P f = card {t. P (f t)}"

lemma num_upd:
  assumes "finite {t. P (f t)}"
  shows "num P (f(t := v)) = (if P (f t) then num P f - 1 else num P f) + (if P v then 1 else 0)"
proof -
  have "{u. P ((f(t := v)) u)} = (if P v then insert t ({u. P (f u)} - {t}) else {u. P (f u)} - {t})"
    by auto
  moreover have "0 < card {u. P (f u)}" if "P (f t)" using assms that by (auto simp: card_gt_0_iff)
  ultimately show ?thesis using assms by (auto simp: num_def card_insert_if card_Diff_singleton_if insert_absorb)
qed

lemma num_pos: "finite {t. P (f t)} \<Longrightarrow> P (f t) \<Longrightarrow> 0 < num P f"
  by (auto simp: num_def card_gt_0_iff)

text \<open>All but finitely many threads are at \<open>z\<close>.\<close>

definition almost_all :: "'p \<Rightarrow> (nat \<Rightarrow> 'p) \<Rightarrow> bool" where
  "almost_all z f \<longleftrightarrow> finite {t. f t \<noteq> z}"

lemma almost_all_const [simp]: "almost_all z (\<lambda>_. z)"
  by (simp add: almost_all_def)

lemma almost_all_upd [simp]: "almost_all z (f(t := v)) = almost_all z f"
proof -
  have "{u. (f(t := v)) u \<noteq> z} \<subseteq> insert t {u. f u \<noteq> z}" "{u. f u \<noteq> z} \<subseteq> insert t {u. (f(t := v)) u \<noteq> z}"
    by auto
  then show ?thesis unfolding almost_all_def by (meson finite_insert finite_subset)
qed

lemma finite_num: "almost_all z f \<Longrightarrow> \<not> P z \<Longrightarrow> finite {t. P (f t)}"
  unfolding almost_all_def by (rule finite_subset [of _ "{t. f t \<noteq> z}"]) auto

lemma mutex_lock_Some [simp]: "mutex_lock t m = Some m' \<longleftrightarrow> m = None \<and> m' = Some t"
  by (auto simp: mutex_lock_def split: option.splits)

end
