(* ===== verification/BlockingQueue.thy ===== *)
theory BlockingQueue
  imports Monitor
begin

text \<open>
  The class template \<^verbatim>\<open>BlockingQueue\<close> (include/BlockingQueue.h) under all interleavings of the threads
  that call \<^verbatim>\<open>put\<close> and \<^verbatim>\<open>take\<close>. A step is one lock, one stretch between lock and unlock or wait, one
  wakeup or one return. \<open>put_log\<close> and \<open>take_log\<close> record the elements in the order in which they were
  pushed and popped.

  The statement \<^verbatim>\<open>MutexLockGuard(M_mutex);\<close> is read as the declaration of a guard (the macro of
  Mutex.h rejects it).
\<close>

datatype 'a bq_pc =
    Outside
  | PutLock 'a      \<comment> \<open>in put, at the lock\<close>
  | PutBody 'a      \<comment> \<open>in put, holding the mutex\<close>
  | TakeLock        \<comment> \<open>in take, at the lock or woken up\<close>
  | TakeBody        \<comment> \<open>in take, at the while\<close>
  | TakeWait        \<comment> \<open>in M_notEmpty.wait()\<close>
  | TakeDone 'a     \<comment> \<open>take returns\<close>

record 'a blocking_queue =
  bq_mutex :: mutex
  bq_notEmpty :: condition
  bq_queue :: "'a list"
  bq_pcs :: "nat \<Rightarrow> 'a bq_pc"
  put_log :: "'a list"
  take_log :: "'a list"

definition new_BlockingQueue :: "'a blocking_queue" where
  "new_BlockingQueue = \<lparr>bq_mutex = new_MutexLock, bq_notEmpty = new_Condition, bq_queue = [],
     bq_pcs = (\<lambda>_. Outside), put_log = [], take_log = []\<rparr>"

text \<open>\<^verbatim>\<open>put\<close> and \<^verbatim>\<open>take\<close> between lock and unlock; \<open>take_body\<close> has no result when the thread has to wait.\<close>

definition put_body :: "'a \<Rightarrow> 'a list \<Rightarrow> 'a list" where
  "put_body x q = q @ [x]"

definition take_body :: "'a list \<Rightarrow> ('a \<times> 'a list) option" where
  "take_body q = (if q = [] then None else Some (hd q, tl q))"

text \<open>\<^verbatim>\<open>return M_queue,size();\<close> is the comma operator: \<^verbatim>\<open>size\<close> calls itself with the mutex held.\<close>

definition bq_size :: "nat \<Rightarrow> 'a blocking_queue \<Rightarrow> size_t res" where
  "bq_size t s =
     (case mutex_lock t (bq_mutex s) of
        None \<Rightarrow> Inl (SelfDeadlock ''pthread_mutex_lock'')
      | Some m \<Rightarrow> bindr (relock t m) (\<lambda>_. Inr (word_of_nat (length (bq_queue s)))))"

definition wake :: "nat option \<Rightarrow> (nat \<Rightarrow> 'a bq_pc) \<Rightarrow> (nat \<Rightarrow> 'a bq_pc)" where
  "wake u f = (case u of None \<Rightarrow> f | Some v \<Rightarrow> f(v := TakeLock))"

inductive bq_step :: "'a blocking_queue \<Rightarrow> 'a blocking_queue \<Rightarrow> bool" where
  call_put: "bq_pcs s t = Outside \<Longrightarrow> bq_step s (s\<lparr>bq_pcs := (bq_pcs s)(t := PutLock x)\<rparr>)"
| call_take: "bq_pcs s t = Outside \<Longrightarrow> bq_step s (s\<lparr>bq_pcs := (bq_pcs s)(t := TakeLock)\<rparr>)"
| lock_put: "bq_pcs s t = PutLock x \<Longrightarrow> mutex_lock t (bq_mutex s) = Some m \<Longrightarrow>
    bq_step s (s\<lparr>bq_mutex := m, bq_pcs := (bq_pcs s)(t := PutBody x)\<rparr>)"
| put: "bq_pcs s t = PutBody x \<Longrightarrow> notify (bq_notEmpty s) u ws \<Longrightarrow>
    bq_step s (s\<lparr>bq_mutex := mutex_unlock (bq_mutex s), bq_notEmpty := ws, bq_queue := put_body x (bq_queue s),
      bq_pcs := wake u ((bq_pcs s)(t := Outside)), put_log := put_log s @ [x]\<rparr>)"
| lock_take: "bq_pcs s t = TakeLock \<Longrightarrow> mutex_lock t (bq_mutex s) = Some m \<Longrightarrow>
    bq_step s (s\<lparr>bq_mutex := m, bq_pcs := (bq_pcs s)(t := TakeBody)\<rparr>)"
| take_wait: "bq_pcs s t = TakeBody \<Longrightarrow> take_body (bq_queue s) = None \<Longrightarrow>
    cond_wait t (bq_mutex s, bq_notEmpty s) = (m, ws) \<Longrightarrow>
    bq_step s (s\<lparr>bq_mutex := m, bq_notEmpty := ws, bq_pcs := (bq_pcs s)(t := TakeWait)\<rparr>)"
| take: "bq_pcs s t = TakeBody \<Longrightarrow> take_body (bq_queue s) = Some (x, q) \<Longrightarrow>
    bq_step s (s\<lparr>bq_mutex := mutex_unlock (bq_mutex s), bq_queue := q, bq_pcs := (bq_pcs s)(t := TakeDone x),
      take_log := take_log s @ [x]\<rparr>)"
| spurious: "t \<in> bq_notEmpty s \<Longrightarrow>
    bq_step s (s\<lparr>bq_notEmpty := bq_notEmpty s - {t}, bq_pcs := (bq_pcs s)(t := TakeLock)\<rparr>)"
| take_returns: "bq_pcs s t = TakeDone x \<Longrightarrow> bq_step s (s\<lparr>bq_pcs := (bq_pcs s)(t := Outside)\<rparr>)"

inductive bq_reachable :: "'a blocking_queue \<Rightarrow> bool" where
  init: "bq_reachable new_BlockingQueue"
| step: "bq_reachable s \<Longrightarrow> bq_step s s' \<Longrightarrow> bq_reachable s'"

section \<open>The invariant\<close>

fun inside :: "'a bq_pc \<Rightarrow> bool" where
  "inside (PutBody x) = True"
| "inside TakeBody = True"
| "inside _ = False"

fun ready :: "'a bq_pc \<Rightarrow> bool" where
  "ready TakeLock = True"
| "ready TakeBody = True"
| "ready _ = False"

definition bq_inv :: "'a blocking_queue \<Rightarrow> bool" where
  "bq_inv s \<longleftrightarrow>
     almost_all Outside (bq_pcs s) \<and>
     (\<forall>t. inside (bq_pcs s t) \<longrightarrow> bq_mutex s = Some t) \<and> (\<forall>t. bq_mutex s = Some t \<longrightarrow> inside (bq_pcs s t)) \<and>
     (\<forall>t. t \<in> bq_notEmpty s \<longleftrightarrow> bq_pcs s t = TakeWait) \<and>
     put_log s = take_log s @ bq_queue s \<and>
     (bq_notEmpty s \<noteq> {} \<longrightarrow> length (bq_queue s) \<le> num ready (bq_pcs s))"

lemma new_BlockingQueue_inv: "bq_inv new_BlockingQueue"
  by (simp add: bq_inv_def new_BlockingQueue_def new_MutexLock_def new_Condition_def)

lemmas bq_ops = mutex_unlock_def cond_wait_def put_body_def take_body_def wake_def

lemma bq_invD:
  assumes "bq_inv s"
  shows "almost_all Outside (bq_pcs s)" and "inside (bq_pcs s t) \<Longrightarrow> bq_mutex s = Some t"
    and "bq_mutex s = Some t \<Longrightarrow> inside (bq_pcs s t)" and "t \<in> bq_notEmpty s \<longleftrightarrow> bq_pcs s t = TakeWait"
    and "put_log s = take_log s @ bq_queue s"
    and "bq_notEmpty s \<noteq> {} \<Longrightarrow> length (bq_queue s) \<le> num ready (bq_pcs s)"
    and "inside (bq_pcs s t) \<Longrightarrow> u \<noteq> t \<Longrightarrow> \<not> inside (bq_pcs s u)"
    and "bq_mutex s = None \<Longrightarrow> \<not> inside (bq_pcs s t)"
  using assms unfolding bq_inv_def by (blast, blast, blast, blast, blast, blast, metis option.inject, metis option.distinct(1))

lemma bq_step_inv:
  assumes "bq_step s s'" and inv: "bq_inv s"
  shows "bq_inv s'"
proof -
  note i = bq_invD [OF inv]
  have finr: "finite {t. ready (bq_pcs s t)}" by (rule finite_num [OF i(1)]) simp
  note cnt = num_upd [of ready "bq_pcs s", OF finr]
  have len: "bq_notEmpty s = {} \<or> length (bq_queue s) \<le> num ready (bq_pcs s)" using i(6) by blast
  have held: "inside (bq_pcs s t) \<longleftrightarrow> bq_mutex s = Some t" for t using i(2,3) by blast
  show ?thesis
    using assms(1)
  proof (cases rule: bq_step.cases)
    case (call_put t x)
    then show ?thesis using i(1,4,5) len held [of t] by (auto simp: bq_inv_def cnt held)
  next
    case (call_take t)
    then show ?thesis using i(1,4,5) len held [of t] by (auto simp: bq_inv_def cnt held)
  next
    case (lock_put t x m)
    then show ?thesis using i(1,4,5) len i(8) by (auto simp: bq_inv_def cnt)
  next
    case (put t x u ws)
    let ?f = "(bq_pcs s)(t := Outside)"
    have f: "almost_all Outside ?f" "num ready ?f = num ready (bq_pcs s)" using put(2) i(1) by (simp_all add: cnt)
    have only: "\<not> inside (bq_pcs s v)" if "v \<noteq> t" for v using i(7) [of t v] put(2) that by simp
    from put(3) consider "bq_notEmpty s = {}" "u = None" "ws = {}"
      | v where "v \<in> bq_notEmpty s" "u = Some v" "ws = bq_notEmpty s - {v}" by (auto elim: notifyE)
    then show ?thesis
    proof cases
      case 1
      with i(4,5) put(1,2) f only show ?thesis by (simp add: bq_inv_def bq_ops)
    next
      case (2 v)
      then have "bq_pcs s v = TakeWait" "v \<noteq> t" using i(4) put(2) by auto
      moreover have "finite {t. ready (?f t)}" by (rule finite_num [OF f(1)]) simp
      ultimately have "num ready (?f(v := TakeLock)) = num ready (bq_pcs s) + 1"
        by (simp add: num_upd [of ready ?f] f(2))
      moreover have "length (bq_queue s) \<le> num ready (bq_pcs s)" using 2 i(6) by auto
      ultimately show ?thesis
        using i(4,5) put(1,2) 2 f(1) \<open>v \<noteq> t\<close> only by (simp add: bq_inv_def bq_ops)
    qed
  next
    case (lock_take t m)
    have "0 < num ready (bq_pcs s)" using num_pos [of ready "bq_pcs s" t, OF finr] lock_take(2) by simp
    then show ?thesis using lock_take i(1,4,5) len i(8) by (auto simp: bq_inv_def cnt)
  next
    case (take_wait t m ws)
    then have "\<not> inside (bq_pcs s v)" if "v \<noteq> t" for v using i(7) [of t v] that by simp
    then show ?thesis using take_wait i(1,4,5) by (auto simp: bq_inv_def bq_ops split: if_splits)
  next
    case (take t x q)
    have only: "\<not> inside (bq_pcs s v)" if "v \<noteq> t" for v using i(7) [of t v] that take(2) by simp
    from take(3) have q: "bq_queue s = x # q" by (cases "bq_queue s") (auto simp: take_body_def)
    then have "bq_notEmpty s \<noteq> {} \<Longrightarrow> length q \<le> num ready (bq_pcs s) - 1" using i(6) by fastforce
    then show ?thesis using take(1,2) q only i(1,4,5) by (auto simp: bq_inv_def bq_ops cnt)
  next
    case (spurious t)
    then show ?thesis using i(1,4,5) len held [of t] by (auto simp: bq_inv_def cnt held)
  next
    case (take_returns t x)
    then show ?thesis using i(1,4,5) len held [of t] by (auto simp: bq_inv_def cnt held)
  qed
qed

lemma bq_reachable_inv: "bq_reachable s \<Longrightarrow> bq_inv s"
  by (induction rule: bq_reachable.induct) (auto intro: new_BlockingQueue_inv bq_step_inv)

section \<open>Properties\<close>

text \<open>C12. Under every interleaving of threads that put and take: at most one thread is between lock and
  unlock, elements come out in the order they went in, none lost or duplicated, and no wakeup is
  lost: while a thread waits in \<^verbatim>\<open>take\<close>, there are at least as many other threads on their way to
  an element as there are elements.\<close>

theorem blocking_queue_correct:
  assumes "bq_reachable s"
  shows "put_log s = take_log s @ bq_queue s \<and>
    (\<forall>t u. inside (bq_pcs s t) \<and> inside (bq_pcs s u) \<longrightarrow> t = u) \<and>
    ((\<exists>t. bq_pcs s t = TakeWait) \<longrightarrow> length (bq_queue s) \<le> num ready (bq_pcs s))"
proof -
  note i = bq_reachable_inv [OF assms, unfolded bq_inv_def]
  then have "\<forall>t u. inside (bq_pcs s t) \<and> inside (bq_pcs s u) \<longrightarrow> t = u" by (metis option.inject)
  moreover have "(\<exists>t. bq_pcs s t = TakeWait) \<longrightarrow> bq_notEmpty s \<noteq> {}" using i by blast
  ultimately show ?thesis using i by blast
qed

text \<open>One thread waits in \<^verbatim>\<open>take\<close>, another is in \<^verbatim>\<open>put\<close>.\<close>

definition bq_sample :: "nat blocking_queue" where
  "bq_sample = \<lparr>bq_mutex = Some 2, bq_notEmpty = {1}, bq_queue = [], bq_pcs = (\<lambda>_. Outside)(1 := TakeWait, 2 := PutBody 7),
     put_log = [], take_log = []\<rparr>"

lemma bq_sample_reachable: "bq_reachable bq_sample"
proof -
  note r = bq_reachable.init [where ?'a = nat]
  note r = bq_reachable.step [OF r bq_step.call_take [of _ 1]]
  note r = bq_reachable.step [OF r bq_step.lock_take [of _ 1 "Some 1"]]
  note r = bq_reachable.step [OF r bq_step.take_wait [of _ 1 None "{1}"]]
  note r = bq_reachable.step [OF r bq_step.call_put [of _ 2 7]]
  note r = bq_reachable.step [OF r bq_step.lock_put [of _ 2 7 "Some 2"]]
  show ?thesis
    using r by (simp add: bq_sample_def new_BlockingQueue_def new_MutexLock_def new_Condition_def bq_ops)
qed

theorem blocking_queue_correct_witness:
  "bq_pcs bq_sample 1 = TakeWait \<and> length (bq_queue bq_sample) \<le> num ready (bq_pcs bq_sample)"
  using blocking_queue_correct [OF bq_sample_reachable] by (auto simp: bq_sample_def)

text \<open>\<^verbatim>\<open>size\<close> deadlocks.\<close>

lemma bq_size_deadlocks: "bq_size t s = Inl (SelfDeadlock ''pthread_mutex_lock'')"
  by (auto simp: bq_size_def mutex_lock_def relock_def split: option.split)

end
