(* ===== verification/Thread.thy ===== *)
theory Thread
  imports Timestamp Format
begin

text \<open>
  The classes \<^verbatim>\<open>Thread\<close> (include/Thread.h, src/Thread.cpp) and \<^verbatim>\<open>Exception\<close> (include/Exception.h,
  src/Exception.cpp) and the namespace \<^verbatim>\<open>CurrentThread\<close> (include/CurrentThread.h).

  \<^item> \<open>thread_locals\<close> are the \<^verbatim>\<open>__thread\<close> variables of one thread. \<open>gettid\<close> and \<open>getpid\<close> are the answers
    of the kernel.
  \<^item> A thread function returns, or throws; \<open>outcome\<close> says which. \<open>runInThread\<close> gives the thread's
    variables afterwards and how the thread ends.
  \<^item> \<open>pthreads\<close> is what the POSIX calls made of the thread: created, joined or detached.
  \<^item> \<^verbatim>\<open>M_start\<close> in \<^verbatim>\<open>Thread::start\<close> is read as \<open>M_started\<close>.
\<close>

section \<open>CurrentThread\<close>

record thread_locals =
  t_cachedTid :: int
  t_tidString :: string
  t_tidStringLength :: int
  t_threadName :: string

definition initial_locals :: thread_locals where
  "initial_locals = \<lparr>t_cachedTid = 0, t_tidString = [], t_tidStringLength = 6, t_threadName = ''unknown''\<rparr>"

text \<open>\<^verbatim>\<open>snprintf\<close> returns the length of the whole text, also when it does not fit.\<close>

definition cacheTid :: "int \<Rightarrow> thread_locals \<Rightarrow> thread_locals" where
  "cacheTid gettid t =
     (if t_cachedTid t = 0 then
        t\<lparr>t_cachedTid := gettid, t_tidString := snprintf 32 (dec_blank 5 gettid),
          t_tidStringLength := int (length (dec_blank 5 gettid))\<rparr>
      else t)"

definition tid :: "int \<Rightarrow> thread_locals \<Rightarrow> int \<times> thread_locals" where
  "tid gettid t =
     (let t = (if t_cachedTid t = 0 then cacheTid gettid t else t) in (t_cachedTid t, t))"

definition tidString :: "thread_locals \<Rightarrow> string" where "tidString t = t_tidString t"
definition tidStringLength :: "thread_locals \<Rightarrow> int" where "tidStringLength t = t_tidStringLength t"
definition thread_name :: "thread_locals \<Rightarrow> string" where "thread_name t = t_threadName t"

definition isMainThread :: "int \<Rightarrow> int \<Rightarrow> thread_locals \<Rightarrow> bool" where
  "isMainThread gettid getpid t \<longleftrightarrow> fst (tid gettid t) = getpid"

definition afterFork :: "int \<Rightarrow> thread_locals \<Rightarrow> thread_locals" where
  "afterFork gettid t =
     snd (tid gettid (t\<lparr>t_cachedTid := 0, t_threadName := ''main''\<rparr>))"

definition ThreadNameInitializer :: "int \<Rightarrow> thread_locals \<Rightarrow> thread_locals" where
  "ThreadNameInitializer gettid t = snd (tid gettid (t\<lparr>t_threadName := ''main''\<rparr>))"

text \<open>\<^verbatim>\<open>sleepUsec\<close>: the \<^verbatim>\<open>timespec\<close> it gives to \<^verbatim>\<open>nanosleep\<close>; \<open>sdiv\<close> and \<open>smod\<close> round to zero.\<close>

definition sleepUsec :: "int \<Rightarrow> int \<times> int" where
  "sleepUsec usec = (usec sdiv kMicroSecondsPerSecond, usec smod kMicroSecondsPerSecond * 1000)"

section \<open>Exception\<close>

record exception =
  M_message :: string
  M_stack :: string

text \<open>\<open>symbols\<close> is the answer of \<^verbatim>\<open>backtrace_symbols\<close>, which may fail.\<close>

definition fillStackTrace :: "string list option \<Rightarrow> exception \<Rightarrow> exception" where
  "fillStackTrace symbols e =
     (case symbols of
        None \<Rightarrow> e
      | Some strings \<Rightarrow> fold (\<lambda>s e. e\<lparr>M_stack := M_stack e @ s @ [CHR 0x0A]\<rparr>) strings e)"

definition new_Exception :: "string list option \<Rightarrow> string \<Rightarrow> exception" where
  "new_Exception symbols msg = fillStackTrace symbols \<lparr>M_message = msg, M_stack = []\<rparr>"

definition what :: "exception \<Rightarrow> string" where "what e = M_message e"
definition stackTrace :: "exception \<Rightarrow> string" where "stackTrace e = M_stack e"

section \<open>Thread\<close>

datatype outcome =
    Returned
  | ThrewException exception     \<comment> \<open>class Exception\<close>
  | ThrewStd string              \<comment> \<open>another std::exception, with its what()\<close>
  | ThrewOther

datatype ending =
    Finished
  | Aborted "string list"        \<comment> \<open>the lines printed to stderr\<close>
  | Rethrown "string list"

record thread_data =
  d_name :: string
  d_wkTid :: "int option"        \<comment> \<open>what the weak pointer refers to\<close>

definition runInThread :: "int \<Rightarrow> outcome \<Rightarrow> thread_data \<Rightarrow> thread_locals \<Rightarrow> thread_data \<times> thread_locals \<times> ending" where
  "runInThread gettid out d t =
     (let (tid, t) = tid gettid t;
          d = d\<lparr>d_wkTid := map_option (\<lambda>_. tid) (d_wkTid d)\<rparr>;
          t = t\<lparr>t_threadName := (if d_name d = [] then ''muduoTHread'' else d_name d)\<rparr>;
          caught = ''exception caught in Thread '' @ d_name d
      in case out of
           Returned \<Rightarrow> (d, t\<lparr>t_threadName := ''finished''\<rparr>, Finished)
         | ThrewException ex \<Rightarrow> (d, t\<lparr>t_threadName := ''crashed''\<rparr>,
             Aborted [caught, ''reason: '' @ what ex, ''stack trace: '' @ stackTrace ex])
         | ThrewStd w \<Rightarrow> (d, t\<lparr>t_threadName := ''crashed''\<rparr>, Aborted [caught, ''reason: '' @ w])
         | ThrewOther \<Rightarrow> (d, t\<lparr>t_threadName := ''crashed''\<rparr>,
             Rethrown [''unknown exception caught in Thread '' @ d_name d]))"

definition startThread :: "int \<Rightarrow> outcome \<Rightarrow> thread_data \<Rightarrow> thread_locals \<Rightarrow> thread_data \<times> thread_locals \<times> ending" where
  "startThread gettid out data t = runInThread gettid out data t"

datatype pthread = NotCreated | Joinable | Joined | Detached

record thread =
  M_started :: bool
  M_joined :: bool
  M_tid :: int
  M_name :: string
  pthread :: pthread

definition setDefaultName :: "int32 \<Rightarrow> thread \<Rightarrow> int32 \<times> thread" where
  "setDefaultName numCreated t =
     (let num = numCreated + 1 in
      (num, if M_name t = [] then t\<lparr>M_name := snprintf 32 (''Thread'' @ dec (sint num))\<rparr> else t))"

definition new_Thread :: "string \<Rightarrow> int32 \<Rightarrow> int32 \<times> thread" where
  "new_Thread n numCreated =
     setDefaultName numCreated \<lparr>M_started = False, M_joined = False, M_tid = 0, M_name = n, pthread = NotCreated\<rparr>"

definition delete_Thread :: "thread \<Rightarrow> thread" where
  "delete_Thread t = (if M_started t \<and> \<not> M_joined t then t\<lparr>pthread := Detached\<rparr> else t)"

text \<open>\<open>created\<close>: whether \<^verbatim>\<open>pthread_create\<close> succeeds.\<close>

definition start :: "bool \<Rightarrow> thread \<Rightarrow> thread res" where
  "start created t =
     assertr (\<not> M_started t) ''!M_started''
       (let t = t\<lparr>M_started := True\<rparr> in
        if created then Inr (t\<lparr>pthread := Joinable\<rparr>) else Inl (Fatal ''Failed in pthread_create''))"

definition join :: "thread \<Rightarrow> thread res" where
  "join t =
     assertr (M_started t) ''M_started'' (assertr (\<not> M_joined t) ''!M_joined''
       (Inr (t\<lparr>M_joined := True, pthread := Joined\<rparr>)))"

definition started :: "thread \<Rightarrow> bool" where "started t = M_started t"
definition thread_tid :: "thread \<Rightarrow> int" where "thread_tid t = M_tid t"
definition name_of_thread :: "thread \<Rightarrow> string" where "name_of_thread t = M_name t"

section \<open>Ids and times\<close>

text \<open>The id of a thread is read from the kernel once; after a fork the child reads its own. The text
  of an id fits its buffer, so that \<^verbatim>\<open>tidStringLength\<close> is its length.\<close>

lemma tid_cached:
  assumes "0 < gettid" and "0 < childtid" and "gettid < 10 ^ 20" and "t = snd (tid gettid initial_locals)"
  shows "tid other t = (gettid, t)" and "tidStringLength t = int (length (tidString t))"
    and "fst (tid other (afterFork childtid t)) = childtid"
proof -
  have "nat gettid < 10 ^ 20" using assms(1,3) by (simp add: nat_less_iff)
  from length_digits_le [OF _ this] assms(1) have "length (dec gettid) \<le> 20" by (simp add: dec_def)
  then have "length (dec_blank 5 gettid) \<le> 20" by (simp add: dec_blank_def pad_def)
  with assms(1,2,4) show "tid other t = (gettid, t)" "tidStringLength t = int (length (tidString t))"
    "fst (tid other (afterFork childtid t)) = childtid"
    by (simp_all add: tid_def cacheTid_def initial_locals_def afterFork_def tidStringLength_def tidString_def)
qed

text \<open>The \<^verbatim>\<open>timespec\<close> of a sleep is exact and in range.\<close>

lemma sleepUsec_exact:
  assumes "0 \<le> usec" and "sleepUsec usec = (sec, nsec)"
  shows "sec * 10 ^ 9 + nsec = usec * 1000" and "0 \<le> nsec" and "nsec < 10 ^ 9"
proof -
  have eqs: "sec = usec div 1000000" "nsec = usec mod 1000000 * 1000"
    using assms by (auto simp: sleepUsec_def kMicroSecondsPerSecond_eq sdiv_nonneg smod_nonneg)
  have nine: "(10 :: int) ^ 9 = 1000000000" by simp
  have "usec div 1000000 * 1000000 + usec mod 1000000 = usec" by (rule div_mult_mod_eq)
  then show "sec * 10 ^ 9 + nsec = usec * 1000" unfolding eqs nine by linarith
  show "0 \<le> nsec" "nsec < 10 ^ 9" unfolding eqs by simp_all
qed

text \<open>The stack trace has one line for every frame.\<close>

lemma stackTrace_lines:
  "stackTrace (new_Exception (Some frames) msg) = concat (map (\<lambda>s. s @ [CHR 0x0A]) frames)"
proof -
  have "M_stack (fold (\<lambda>s e. e\<lparr>M_stack := M_stack e @ s @ [CHR 0x0A]\<rparr>) frames e) =
      M_stack e @ concat (map (\<lambda>s. s @ [CHR 0x0A]) frames)" for e :: exception
    by (induction frames arbitrary: e) simp_all
  then show ?thesis by (simp add: stackTrace_def new_Exception_def fillStackTrace_def)
qed

section \<open>The calls of a thread object\<close>

datatype thread_call = Start bool | Join

fun run_thread_call :: "thread_call \<Rightarrow> thread \<Rightarrow> thread res" where
  "run_thread_call (Start created) t = start created t"
| "run_thread_call Join t = join t"

definition thread_wf :: "thread \<Rightarrow> bool" where
  "thread_wf t \<longleftrightarrow> M_name t \<noteq> [] \<and>
     pthread t = (if M_joined t then Joined else if M_started t then Joinable else NotCreated) \<and>
     (M_joined t \<longrightarrow> M_started t)"

lemma new_Thread_wf: "new_Thread n k = (k', t) \<Longrightarrow> thread_wf t"
  by (cases "n = []") (auto simp: new_Thread_def setDefaultName_def Let_def thread_wf_def snprintf_def)

lemma thread_call_wf: "thread_wf t \<Longrightarrow> run_thread_call c t = Inr t' \<Longrightarrow> thread_wf t'"
  by (cases c) (auto simp: thread_wf_def start_def join_def Let_def split: if_splits)

section \<open>Properties\<close>

text \<open>C32. A thread object stays well formed under every sequence of calls that returns: it has a name,
  the POSIX thread exists exactly when the object was started, and it is joined at most once; the
  destructor then leaves no joinable thread behind, since it detaches one that was not joined.\<close>

theorem thread_object_well_formed:
  assumes "new_Thread n numCreated = (k, t)" and "foldr_res run_thread_call calls t = Inr t'"
  shows "thread_wf t' \<and> pthread (delete_Thread t') \<noteq> Joinable \<and>
    (M_started t' \<longrightarrow> start created t' = Inl (AssertFailed ''!M_started'')) \<and>
    (M_joined t' \<longrightarrow> join t' = Inl (AssertFailed ''!M_joined''))"
proof -
  have "thread_wf t'"
    using foldr_res_invariant [of calls thread_wf run_thread_call t t'] thread_call_wf new_Thread_wf [OF assms(1)] assms(2)
    by blast
  then show ?thesis by (auto simp: thread_wf_def delete_Thread_def start_def join_def)
qed

theorem thread_object_well_formed_witness:
  "\<exists>t t'. new_Thread [] 4 = (5, t) \<and> M_name t = ''Thread5'' \<and> foldr_res run_thread_call [Start True, Join] t = Inr t' \<and>
    thread_wf t' \<and> start True t' = Inl (AssertFailed ''!M_started'')"
proof -
  define t where "t = \<lparr>M_started = False, M_joined = False, M_tid = 0, M_name = ''Thread5'', pthread = NotCreated\<rparr>"
  have "dec (sint (5 :: int32)) = ''5''" by (simp add: dec_def digits.simps digit_def char_of_def bit_0)
  then have t: "new_Thread [] 4 = (5, t)" by (simp add: new_Thread_def setDefaultName_def t_def Let_def)
  define t' where "t' = \<lparr>M_started = True, M_joined = True, M_tid = 0, M_name = ''Thread5'', pthread = Joined\<rparr>"
  have run: "foldr_res run_thread_call [Start True, Join] t = Inr t'" by (simp add: t_def t'_def start_def join_def Let_def)
  from thread_object_well_formed [OF t run, of True] t run show ?thesis
    by (auto simp: t_def t'_def)
qed

end
