(* ===== verification/ThreadPool.thy ===== *)
theory ThreadPool
  imports Monitor Thread
begin

text \<open>
  The class \<^verbatim>\<open>ThreadPool\<close> (include/ThreadPool.h, src/ThreadPool.cpp) under all interleavings of its
  workers, of threads that call \<^verbatim>\<open>run\<close> and of a thread that calls \<^verbatim>\<open>stop\<close>. A step is one lock, one
  stretch between lock and unlock or wait, one wakeup, or one action outside the lock.
  \<open>submitted\<close>, \<open>taken\<close> and \<open>ran_tasks\<close> record the tasks pushed, popped and run.

  What a task does is left open: \<open>ran_tasks\<close> says that it was called. A task that throws ends the
  process or is rethrown (\<open>worker_ends\<close>).
\<close>

section \<open>Objects and single calls\<close>

record thread_pool =
  M_poolName :: string
  M_threads :: "string list"         \<comment> \<open>the names of the threads\<close>
  M_threadInitCallback :: "nat option"   \<comment> \<open>the callback, if one is set\<close>
  M_maxQueueSize :: size_t
  M_running :: bool

definition new_ThreadPool :: "string \<Rightarrow> thread_pool" where
  "new_ThreadPool nameArg = \<lparr>M_poolName = nameArg, M_threads = [], M_threadInitCallback = None, M_maxQueueSize = 0,
     M_running = False\<rparr>"

text \<open>The parameter is an \<^verbatim>\<open>int\<close>, the field a \<^verbatim>\<open>size_t\<close>.\<close>

definition setMaxQueueSize :: "int32 \<Rightarrow> thread_pool \<Rightarrow> thread_pool" where
  "setMaxQueueSize maxSize p = p\<lparr>M_maxQueueSize := scast maxSize\<rparr>"

definition setThreadInitCallback :: "nat option \<Rightarrow> thread_pool \<Rightarrow> thread_pool" where
  "setThreadInitCallback cb p = p\<lparr>M_threadInitCallback := cb\<rparr>"

text \<open>\<^verbatim>\<open>start\<close>: the pool, and the init callback when it is called in the calling thread.\<close>

definition pool_start :: "int \<Rightarrow> thread_pool \<Rightarrow> (thread_pool \<times> nat option) res" where
  "pool_start numThreads p =
     assertr (M_threads p = []) ''M_threads.empty()''
       (Inr (p\<lparr>M_running := True,
               M_threads := map (\<lambda>i. M_poolName p @ snprintf 32 (dec (int i + 1))) [0..<nat numThreads]\<rparr>,
             if numThreads = 0 then M_threadInitCallback p else None))"

text \<open>What \<^verbatim>\<open>stop\<close> does to the object, and the threads it joins; the destructor.\<close>

definition pool_stop :: "thread_pool \<Rightarrow> thread_pool \<times> string list" where
  "pool_stop p = (p\<lparr>M_running := False\<rparr>, M_threads p)"

definition delete_ThreadPool :: "thread_pool \<Rightarrow> thread_pool \<times> string list" where
  "delete_ThreadPool p = (if M_running p then pool_stop p else (p, []))"

definition pool_name :: "thread_pool \<Rightarrow> string" where "pool_name p = M_poolName p"

text \<open>The handlers of \<^verbatim>\<open>runInThread\<close>: how a worker ends when its loop returns or a task throws.\<close>

definition worker_ends :: "string \<Rightarrow> outcome \<Rightarrow> ending" where
  "worker_ends name out =
     (case out of
        Returned \<Rightarrow> Finished
      | ThrewException ex \<Rightarrow> Aborted [''exception caught in ThreadPool '' @ name, ''reason: '' @ what ex,
          ''stack trace: '' @ stackTrace ex]
      | ThrewStd w \<Rightarrow> Aborted [''exception caught in ThreadPool '' @ name, ''reason: '' @ w]
      | ThrewOther \<Rightarrow> Rethrown [''unknown exception caught in ThreadPool '' @ name])"

definition isFull :: "size_t \<Rightarrow> 'a list \<Rightarrow> bool" where
  "isFull maxQueueSize q \<longleftrightarrow> 0 < maxQueueSize \<and> maxQueueSize \<le> word_of_nat (length q)"

definition pool_queueSize :: "'a list \<Rightarrow> size_t" where
  "pool_queueSize q = word_of_nat (length q)"

section \<open>Threads\<close>

datatype 'a pool_pc =
    Idle
  | W_Init         \<comment> \<open>a worker before M_threadInitCallback()\<close>
  | W_Test         \<comment> \<open>a worker at while(M_running)\<close>
  | W_Lock         \<comment> \<open>in take, at the lock or woken up\<close>
  | W_Body         \<comment> \<open>in take, at the while\<close>
  | W_Wait         \<comment> \<open>in M_notEmpty.wait()\<close>
  | W_Task 'a      \<comment> \<open>take returned a task\<close>
  | W_Exit
  | P_Lock 'a      \<comment> \<open>in run, at the lock or woken up\<close>
  | P_Body 'a      \<comment> \<open>in run, at the while\<close>
  | P_Wait 'a      \<comment> \<open>in M_notFull.wait()\<close>

record 'a pool_state =
  tp_mutex :: mutex
  tp_notEmpty :: condition
  tp_notFull :: condition
  tp_queue :: "'a list"
  tp_threads :: nat      \<comment> \<open>M_threads.size()\<close>
  tp_max :: size_t
  tp_running :: bool
  tp_pcs :: "nat \<Rightarrow> 'a pool_pc"
  submitted :: "'a list"
  taken :: "'a list"
  ran_tasks :: "'a list"

definition started_pool :: "size_t \<Rightarrow> nat \<Rightarrow> 'a pool_state" where
  "started_pool maxQueueSize n = \<lparr>tp_mutex = new_MutexLock, tp_notEmpty = new_Condition, tp_notFull = new_Condition,
     tp_queue = [], tp_threads = n, tp_max = maxQueueSize, tp_running = True, tp_pcs = (\<lambda>t. if t < n then W_Init else Idle),
     submitted = [], taken = [], ran_tasks = []\<rparr>"

text \<open>A woken worker, a woken caller of \<^verbatim>\<open>run\<close>.\<close>

definition wake_worker :: "nat option \<Rightarrow> (nat \<Rightarrow> 'a pool_pc) \<Rightarrow> (nat \<Rightarrow> 'a pool_pc)" where
  "wake_worker u f = (case u of None \<Rightarrow> f | Some v \<Rightarrow> f(v := W_Lock))"

definition wake_caller :: "nat option \<Rightarrow> (nat \<Rightarrow> 'a pool_pc) \<Rightarrow> (nat \<Rightarrow> 'a pool_pc)" where
  "wake_caller u f =
     (case u of None \<Rightarrow> f | Some v \<Rightarrow> (case f v of P_Wait x \<Rightarrow> f(v := P_Lock x) | _ \<Rightarrow> f))"

inductive pool_step :: "'a pool_state \<Rightarrow> 'a pool_state \<Rightarrow> bool" where
  w_init: "tp_pcs s t = W_Init \<Longrightarrow> pool_step s (s\<lparr>tp_pcs := (tp_pcs s)(t := W_Test)\<rparr>)"
| w_test: "tp_pcs s t = W_Test \<Longrightarrow> pc = (if tp_running s then W_Lock else W_Exit) \<Longrightarrow>
    pool_step s (s\<lparr>tp_pcs := (tp_pcs s)(t := pc)\<rparr>)"
| w_lock: "tp_pcs s t = W_Lock \<Longrightarrow> mutex_lock t (tp_mutex s) = Some m \<Longrightarrow>
    pool_step s (s\<lparr>tp_mutex := m, tp_pcs := (tp_pcs s)(t := W_Body)\<rparr>)"
| w_wait: "tp_pcs s t = W_Body \<Longrightarrow> tp_queue s = [] \<Longrightarrow> tp_running s \<Longrightarrow>
    cond_wait t (tp_mutex s, tp_notEmpty s) = (m, ws) \<Longrightarrow>
    pool_step s (s\<lparr>tp_mutex := m, tp_notEmpty := ws, tp_pcs := (tp_pcs s)(t := W_Wait)\<rparr>)"
| w_none: "tp_pcs s t = W_Body \<Longrightarrow> tp_queue s = [] \<Longrightarrow> \<not> tp_running s \<Longrightarrow>
    pool_step s (s\<lparr>tp_mutex := mutex_unlock (tp_mutex s), tp_pcs := (tp_pcs s)(t := W_Test)\<rparr>)"
| w_take: "tp_pcs s t = W_Body \<Longrightarrow> tp_queue s = x # q \<Longrightarrow>
    (if 0 < tp_max s then notify (tp_notFull s) u ws else u = None \<and> ws = tp_notFull s) \<Longrightarrow>
    pool_step s (s\<lparr>tp_mutex := mutex_unlock (tp_mutex s), tp_notFull := ws, tp_queue := q,
      tp_pcs := wake_caller u ((tp_pcs s)(t := W_Task x)), taken := taken s @ [x]\<rparr>)"
| w_run: "tp_pcs s t = W_Task x \<Longrightarrow>
    pool_step s (s\<lparr>tp_pcs := (tp_pcs s)(t := W_Test), ran_tasks := ran_tasks s @ [x]\<rparr>)"
| w_spurious: "t \<in> tp_notEmpty s \<Longrightarrow>
    pool_step s (s\<lparr>tp_notEmpty := tp_notEmpty s - {t}, tp_pcs := wake_worker (Some t) (tp_pcs s)\<rparr>)"
| p_inline: "tp_pcs s t = Idle \<Longrightarrow> tp_threads s = 0 \<Longrightarrow> pool_step s (s\<lparr>ran_tasks := ran_tasks s @ [x]\<rparr>)"
| p_call: "tp_pcs s t = Idle \<Longrightarrow> tp_threads s \<noteq> 0 \<Longrightarrow> pool_step s (s\<lparr>tp_pcs := (tp_pcs s)(t := P_Lock x)\<rparr>)"
| p_lock: "tp_pcs s t = P_Lock x \<Longrightarrow> mutex_lock t (tp_mutex s) = Some m \<Longrightarrow>
    pool_step s (s\<lparr>tp_mutex := m, tp_pcs := (tp_pcs s)(t := P_Body x)\<rparr>)"
| p_wait: "tp_pcs s t = P_Body x \<Longrightarrow> isFull (tp_max s) (tp_queue s) \<Longrightarrow>
    cond_wait t (tp_mutex s, tp_notFull s) = (m, ws) \<Longrightarrow>
    pool_step s (s\<lparr>tp_mutex := m, tp_notFull := ws, tp_pcs := (tp_pcs s)(t := P_Wait x)\<rparr>)"
| p_push: "tp_pcs s t = P_Body x \<Longrightarrow> \<not> isFull (tp_max s) (tp_queue s) \<Longrightarrow> notify (tp_notEmpty s) u ws \<Longrightarrow>
    pool_step s (s\<lparr>tp_mutex := mutex_unlock (tp_mutex s), tp_notEmpty := ws, tp_queue := tp_queue s @ [x],
      tp_pcs := wake_worker u ((tp_pcs s)(t := Idle)), submitted := submitted s @ [x]\<rparr>)"
| p_spurious: "t \<in> tp_notFull s \<Longrightarrow>
    pool_step s (s\<lparr>tp_notFull := tp_notFull s - {t}, tp_pcs := wake_caller (Some t) (tp_pcs s)\<rparr>)"
| stop: "tp_mutex s = None \<Longrightarrow> notifyAll (tp_notEmpty s) = (ws, woken) \<Longrightarrow>
    pool_step s (s\<lparr>tp_running := False, tp_notEmpty := ws,
      tp_pcs := (\<lambda>t. if t \<in> woken then W_Lock else tp_pcs s t)\<rparr>)"

inductive pool_reaches :: "'a pool_state \<Rightarrow> 'a pool_state \<Rightarrow> bool" for s0 where
  start: "pool_reaches s0 s0"
| step: "pool_reaches s0 s \<Longrightarrow> pool_step s s' \<Longrightarrow> pool_reaches s0 s'"

inductive_cases pool_stepE: "pool_step s s'"

section \<open>The invariant\<close>

fun in_pool :: "'a pool_pc \<Rightarrow> bool" where
  "in_pool W_Body = True"
| "in_pool (P_Body x) = True"
| "in_pool _ = False"

fun active :: "'a pool_pc \<Rightarrow> bool" where
  "active W_Init = True"
| "active W_Test = True"
| "active W_Lock = True"
| "active W_Body = True"
| "active (W_Task x) = True"
| "active _ = False"

fun coming :: "'a pool_pc \<Rightarrow> bool" where
  "coming (P_Lock x) = True"
| "coming (P_Body x) = True"
| "coming _ = False"

fun is_P_Wait :: "'a pool_pc \<Rightarrow> bool" where
  "is_P_Wait (P_Wait x) = True"
| "is_P_Wait _ = False"

definition pool_inv :: "'a pool_state \<Rightarrow> bool" where
  "pool_inv s \<longleftrightarrow>
     almost_all Idle (tp_pcs s) \<and>
     (\<forall>t. in_pool (tp_pcs s t) = (tp_mutex s = Some t)) \<and>
     (\<forall>t. t \<in> tp_notEmpty s \<longleftrightarrow> tp_pcs s t = W_Wait) \<and>
     (\<forall>t. t \<in> tp_notFull s \<longleftrightarrow> is_P_Wait (tp_pcs s t)) \<and>
     submitted s = taken s @ tp_queue s \<and>
     (0 < tp_max s \<longrightarrow> length (tp_queue s) \<le> unat (tp_max s)) \<and>
     (tp_running s \<and> tp_queue s \<noteq> [] \<and> tp_notEmpty s \<noteq> {} \<longrightarrow> (\<exists>t. active (tp_pcs s t))) \<and>
     (tp_notFull s \<noteq> {} \<longrightarrow> 0 < tp_max s \<and> unat (tp_max s) \<le> length (tp_queue s) + num coming (tp_pcs s))"

lemma started_pool_inv: "pool_inv (started_pool m n)"
proof -
  have "almost_all Idle (\<lambda>t. if t < n then W_Init else Idle)"
    unfolding almost_all_def by (rule finite_subset [of _ "{..<n}"]) (auto split: if_splits)
  then show ?thesis
    by (simp add: pool_inv_def started_pool_def new_MutexLock_def new_Condition_def)
qed

lemma pool_invD:
  assumes "pool_inv s"
  shows "almost_all Idle (tp_pcs s)" and "\<And>t. in_pool (tp_pcs s t) = (tp_mutex s = Some t)"
    and "\<And>t. t \<in> tp_notEmpty s \<longleftrightarrow> tp_pcs s t = W_Wait" and "\<And>t. t \<in> tp_notFull s \<longleftrightarrow> is_P_Wait (tp_pcs s t)"
    and "submitted s = taken s @ tp_queue s" and "0 < tp_max s \<longrightarrow> length (tp_queue s) \<le> unat (tp_max s)"
    and "tp_running s \<and> tp_queue s \<noteq> [] \<and> tp_notEmpty s \<noteq> {} \<longrightarrow> (\<exists>t. active (tp_pcs s t))"
    and "tp_notFull s = {} \<or> 0 < tp_max s \<and> unat (tp_max s) \<le> length (tp_queue s) + num coming (tp_pcs s)"
    and "finite {t. coming (tp_pcs s t)}"
  using assms finite_num [of Idle "tp_pcs s" coming] unfolding pool_inv_def by (simp_all, blast)

lemma is_P_WaitE: "is_P_Wait pc \<Longrightarrow> \<exists>x. pc = P_Wait x"
  by (cases pc) simp_all

lemmas pool_ops = mutex_unlock_def cond_wait_def notifyAll_def wake_worker_def wake_caller_def

lemma pool_only_one: "pool_inv s \<Longrightarrow> in_pool (tp_pcs s t) \<Longrightarrow> u \<noteq> t \<Longrightarrow> \<not> in_pool (tp_pcs s u)"
  using pool_invD(2) by (metis option.inject)

text \<open>The steps that notify: a worker takes a task, a caller pushes one, the pool is stopped.\<close>

lemma pool_take_inv:
  assumes "pool_inv s" and "tp_pcs s t = W_Body" and "tp_queue s = x # q"
    and "if 0 < tp_max s then notify (tp_notFull s) u ws else u = None \<and> ws = tp_notFull s"
  shows "pool_inv (s\<lparr>tp_mutex := mutex_unlock (tp_mutex s), tp_notFull := ws, tp_queue := q,
      tp_pcs := wake_caller u ((tp_pcs s)(t := W_Task x)), taken := taken s @ [x]\<rparr>)"
proof -
  note i = pool_invD [OF assms(1)]
  note cnt = num_upd [of coming "tp_pcs s", OF i(9)] and only = pool_only_one [OF assms(1)]
  let ?f = "(tp_pcs s)(t := W_Task x)"
  have f: "almost_all Idle ?f" "num coming ?f = num coming (tp_pcs s)" using assms(2) i(1) by (simp_all add: cnt)
  from assms(4) i(8) consider "u = None" "ws = {}" "tp_notFull s = {}"
    | v where "v \<in> tp_notFull s" "u = Some v" "ws = tp_notFull s - {v}"
    by (auto split: if_splits elim: notifyE)
  then show ?thesis
  proof cases
    case 1
    with assms(2,3) i(3-7) f only [of t] show ?thesis by (auto simp: pool_inv_def pool_ops)
  next
    case (2 v)
    then obtain y where y: "tp_pcs s v = P_Wait y" "v \<noteq> t" using i(4) assms(2) is_P_WaitE by force
    moreover have "finite {t. coming (?f t)}" by (rule finite_num [OF f(1)]) simp
    ultimately have "num coming (?f(v := P_Lock y)) = num coming (tp_pcs s) + 1"
      by (simp add: num_upd [of coming ?f] f(2))
    with 2 y assms(2,3) i(3-8) f(1) only [of t] show ?thesis by (auto simp: pool_inv_def pool_ops)
  qed
qed

lemma pool_push_inv:
  assumes "pool_inv s" and "tp_pcs s t = P_Body x" and "\<not> isFull (tp_max s) (tp_queue s)" and "notify (tp_notEmpty s) u ws"
  shows "pool_inv (s\<lparr>tp_mutex := mutex_unlock (tp_mutex s), tp_notEmpty := ws, tp_queue := tp_queue s @ [x],
      tp_pcs := wake_worker u ((tp_pcs s)(t := Idle)), submitted := submitted s @ [x]\<rparr>)"
proof -
  note i = pool_invD [OF assms(1)]
  note cnt = num_upd [of coming "tp_pcs s", OF i(9)] and pos = num_pos [of coming "tp_pcs s", OF i(9)]
    and only = pool_only_one [OF assms(1)]
  let ?f = "(tp_pcs s)(t := Idle)"
  have f: "almost_all Idle ?f" "num coming ?f + 1 = num coming (tp_pcs s)"
    using assms(2) i(1) pos [of t] by (simp_all add: cnt)
  have room: "0 < tp_max s \<longrightarrow> length (tp_queue s) + 1 \<le> unat (tp_max s)"
    using assms(3) i(6) le_less_trans [of "length (tp_queue s)" "unat (tp_max s)" 18446744073709551616]
    by (auto simp: isFull_def word_le_nat_alt unat_size_of_nat)
  from assms(4) consider "u = None" "ws = {}" "tp_notEmpty s = {}"
    | v where "v \<in> tp_notEmpty s" "u = Some v" "ws = tp_notEmpty s - {v}" by (auto elim: notifyE)
  then show ?thesis
  proof cases
    case 1
    with assms(2) room i(3-5,8) f only [of t] show ?thesis by (auto simp: pool_inv_def pool_ops)
  next
    case (2 v)
    then have v: "tp_pcs s v = W_Wait" "v \<noteq> t" using i(3) assms(2) by auto
    moreover have "finite {t. coming (?f t)}" by (rule finite_num [OF f(1)]) simp
    ultimately have "num coming (?f(v := W_Lock)) = num coming ?f" by (simp add: num_upd [of coming ?f])
    with 2 v assms(2) room i(3-5,8) f only [of t] show ?thesis by (auto simp: pool_inv_def pool_ops)
  qed
qed

lemma pool_stop_inv:
  assumes "pool_inv s" and "notifyAll (tp_notEmpty s) = (ws, woken)" and "tp_mutex s = None"
  shows "pool_inv (s\<lparr>tp_running := False, tp_notEmpty := ws, tp_pcs := (\<lambda>t. if t \<in> woken then W_Lock else tp_pcs s t)\<rparr>)"
proof -
  note i = pool_invD [OF assms(1)]
  let ?f = "\<lambda>t. if t \<in> tp_notEmpty s then W_Lock else tp_pcs s t"
  have "almost_all Idle ?f" "num coming ?f = num coming (tp_pcs s)"
  proof -
    have "{t. ?f t \<noteq> Idle} = {t. tp_pcs s t \<noteq> Idle}" "{t. coming (?f t)} = {t. coming (tp_pcs s t)}"
      using i(3) by auto
    then show "almost_all Idle ?f" "num coming ?f = num coming (tp_pcs s)" using i(1) by (simp_all only: almost_all_def num_def)
  qed
  then show ?thesis using assms(2,3) i(2-6,8) by (auto simp: pool_inv_def pool_ops)
qed

lemma pool_step_inv:
  assumes "pool_step s s'" and "pool_inv s"
  shows "pool_inv s'"
proof -
  note i = pool_invD [OF assms(2)]
  note cnt = num_upd [of coming "tp_pcs s", OF i(9)]
  note pos = num_pos [of coming "tp_pcs s", OF i(9)]
  have act: "tp_running s \<and> tp_queue s \<noteq> [] \<and> tp_notEmpty s \<noteq> {} \<longrightarrow> (\<exists>u. u \<noteq> t \<and> active (tp_pcs s u))"
    if "\<not> active (tp_pcs s t)" for t using i(7) that by metis
  note only = pool_only_one [OF assms(2)]
  show ?thesis
    using assms(1)
  proof (cases rule: pool_step.cases)
    case (w_init t)
    then show ?thesis using i(1,3-8) i(2) [of t] by (auto simp: pool_inv_def cnt i(2) split: if_splits)
  next
    case (w_test t pc)
    then show ?thesis using i(1,3-8) i(2) [of t] by (auto simp: pool_inv_def cnt i(2) split: if_splits)
  next
    case (w_lock t m)
    then show ?thesis using i(1,3-8) by (auto simp: pool_inv_def cnt i(2))
  next
    case (w_wait t m ws)
    then show ?thesis using i(1,3-8) only [of t] by (auto simp: pool_inv_def cnt pool_ops split: if_splits)
  next
    case (w_none t)
    then show ?thesis using i(1,3-8) only [of t] by (auto simp: pool_inv_def cnt pool_ops split: if_splits)
  next
    case (w_take t x q u ws)
    then show ?thesis using pool_take_inv [OF assms(2)] by simp
  next
    case (w_run t x)
    then show ?thesis using i(1,3-8) i(2) [of t] by (auto simp: pool_inv_def cnt i(2))
  next
    case (w_spurious t)
    then show ?thesis using i(1,3-8) i(2) [of t] by (auto simp: pool_inv_def cnt i(2) pool_ops)
  next
    case (p_inline t x)
    then show ?thesis using i(1,3-8) by (auto simp: pool_inv_def i(2))
  next
    case (p_call t x)
    then show ?thesis using i(1,3-6,8) act [of t] i(2) [of t] by (auto simp: pool_inv_def cnt i(2))
  next
    case (p_lock t x m)
    then show ?thesis using i(1,3-6,8) act [of t] i(2) [of t] pos [of t] by (auto simp: pool_inv_def cnt i(2))
  next
    case (p_wait t x m ws)
    have "unat (tp_max s) \<le> length (tp_queue s)"
      using p_wait(3) i(6) le_less_trans [of "length (tp_queue s)" "unat (tp_max s)" 18446744073709551616]
      by (simp add: isFull_def word_le_nat_alt unat_size_of_nat)
    then show ?thesis using p_wait i(1,3-6) act [of t] only [of t]
      by (auto simp: pool_inv_def pool_ops isFull_def split: if_splits)
  next
    case (p_push t x u ws)
    then show ?thesis using pool_push_inv [OF assms(2)] by simp
  next
    case (p_spurious t)
    then obtain x where x: "tp_pcs s t = P_Wait x" using i(4) is_P_WaitE by blast
    then show ?thesis using p_spurious i(1,3-6,8) act [of t] i(2) [of t] by (auto simp: pool_inv_def cnt i(2) pool_ops)
  next
    case (stop ws woken)
    then show ?thesis using pool_stop_inv [OF assms(2)] by simp
  qed
qed

lemma pool_reaches_inv: "pool_reaches s0 s \<Longrightarrow> pool_inv s0 \<Longrightarrow> pool_inv s"
  by (induction rule: pool_reaches.induct) (auto intro: pool_step_inv)

section \<open>After stop\<close>

text \<open>A thread that will take no task any more.\<close>

fun quiet :: "'a pool_pc \<Rightarrow> bool" where
  "quiet Idle = True"
| "quiet W_Exit = True"
| "quiet (P_Lock x) = True"
| "quiet (P_Body x) = True"
| "quiet (P_Wait x) = True"
| "quiet _ = False"

fun in_run :: "'a pool_pc \<Rightarrow> bool" where
  "in_run (P_Lock x) = True"
| "in_run (P_Body x) = True"
| "in_run (P_Wait x) = True"
| "in_run _ = False"

definition stranded :: "nat \<Rightarrow> 'a pool_state \<Rightarrow> bool" where
  "stranded p s \<longleftrightarrow> \<not> tp_running s \<and> (\<forall>t. quiet (tp_pcs s t)) \<and> isFull (tp_max s) (tp_queue s) \<and> in_run (tp_pcs s p)"

lemma stranded_step:
  assumes "pool_step s s'" and "pool_inv s" and "stranded p s"
  shows "stranded p s' \<and> taken s' = taken s"
proof -
  note i = pool_invD(3,4) [OF assms(2)]
  have q: "quiet (tp_pcs s t)" for t using assms(3) by (simp add: stranded_def)
  have busy: "tp_pcs s t \<noteq> W_Init" "tp_pcs s t \<noteq> W_Test" "tp_pcs s t \<noteq> W_Lock" "tp_pcs s t \<noteq> W_Body" "tp_pcs s t \<noteq> W_Wait"
    "tp_pcs s t \<noteq> W_Task x" for t x using q [of t] by auto
  then have none: "tp_notEmpty s = {}" using i(1) by blast
  from assms(1) show ?thesis
  proof (cases rule: pool_step.cases)
    case (p_spurious t)
    then obtain x where "tp_pcs s t = P_Wait x" using i(2) is_P_WaitE by blast
    with p_spurious(1) assms(3) show ?thesis by (auto simp: stranded_def pool_ops)
  qed (use assms(3) in \<open>auto simp: busy none stranded_def pool_ops\<close>)
qed

lemma stranded_forever:
  "pool_reaches s s' \<Longrightarrow> pool_inv s \<Longrightarrow> stranded p s \<Longrightarrow> stranded p s' \<and> taken s' = taken s"
proof (induction rule: pool_reaches.induct)
  case (step s1 s2)
  then show ?case using stranded_step [OF step.hyps(2) pool_reaches_inv [OF step.hyps(1)]] by auto
qed simp

section \<open>Termination of the workers\<close>

fun worker_rank :: "'a pool_pc \<Rightarrow> nat" where
  "worker_rank W_Test = 1"
| "worker_rank W_Init = 2"
| "worker_rank (W_Task x) = 2"
| "worker_rank W_Body = 3"
| "worker_rank W_Lock = 4"
| "worker_rank _ = 0"

fun worker :: "'a pool_pc \<Rightarrow> bool" where
  "worker Idle = False"
| "worker (P_Lock x) = False"
| "worker (P_Body x) = False"
| "worker (P_Wait x) = False"
| "worker _ = True"

text \<open>The steps that the workers of a pool that is stopped have left at most.\<close>

definition work_left :: "'a pool_state \<Rightarrow> nat" where
  "work_left s = (\<Sum>t < tp_threads s. worker_rank (tp_pcs s t))"

definition worker_step :: "'a pool_state \<Rightarrow> 'a pool_state \<Rightarrow> bool" where
  "worker_step s s' \<longleftrightarrow> pool_step s s' \<and> (\<exists>t. worker (tp_pcs s t) \<and> tp_pcs s' t \<noteq> tp_pcs s t)"

text \<open>An execution of the pool, with the number of its steps that are steps of workers.\<close>

inductive pool_runs :: "'a pool_state \<Rightarrow> nat \<Rightarrow> 'a pool_state \<Rightarrow> bool" for s0 where
  start: "pool_runs s0 0 s0"
| step: "pool_runs s0 n s \<Longrightarrow> pool_step s s' \<Longrightarrow> pool_runs s0 (if worker_step s s' then Suc n else n) s'"

definition workers_inv :: "nat \<Rightarrow> 'a pool_state \<Rightarrow> bool" where
  "workers_inv k s \<longleftrightarrow> tp_threads s = k \<and> (\<forall>t. worker (tp_pcs s t) \<longleftrightarrow> t < k) \<and> (\<not> tp_running s \<longrightarrow> tp_notEmpty s = {})"

lemma workers_inv_started: "workers_inv k (started_pool m k)"
  by (simp add: workers_inv_def started_pool_def)

lemma workers_inv_step:
  assumes "pool_step s s'" and "pool_inv s" and "workers_inv k s"
  shows "workers_inv k s'"
proof -
  note i = pool_invD(3,4) [OF assms(2)]
  have w: "tp_threads s = k" "worker (tp_pcs s t) \<longleftrightarrow> t < k" "\<not> tp_running s \<Longrightarrow> tp_notEmpty s = {}" for t
    using assms(3) by (simp_all add: workers_inv_def)
  from assms(1) show ?thesis
  proof (cases rule: pool_step.cases)
    case (w_take t x q u ws)
    then show ?thesis using w(1,3) w(2) [of t]
      by (auto simp: workers_inv_def w(2) [symmetric] pool_ops split: option.splits pool_pc.splits)
  next
    case (p_push t x u ws)
    have "worker (tp_pcs s v)" if "u = Some v" for v using p_push(4) that i(1) by (auto elim: notifyE)
    then show ?thesis using p_push w(1,3) w(2) [of t]
      by (auto simp: workers_inv_def w(2) [symmetric] pool_ops elim: notifyE split: option.splits)
  next
    case (p_inline t x)
    then show ?thesis using assms(3) by (simp add: workers_inv_def)
  next
    case (p_spurious t)
    then show ?thesis using w(1,3)
      by (auto simp: workers_inv_def w(2) [symmetric] pool_ops split: pool_pc.splits)
  qed (use w(1,3) i in \<open>auto simp: workers_inv_def w(2) [symmetric] pool_ops\<close>)
qed

lemma workers_inv_reaches: "pool_reaches s0 s \<Longrightarrow> pool_inv s0 \<Longrightarrow> workers_inv k s0 \<Longrightarrow> workers_inv k s"
  by (induction rule: pool_reaches.induct) (auto intro: workers_inv_step pool_reaches_inv)

text \<open>One worker moves, or none.\<close>

lemma work_left_less:
  assumes "tp_threads s' = tp_threads s" and "t < tp_threads s" and "worker_rank (tp_pcs s' t) < worker_rank (tp_pcs s t)"
    and "\<And>u. u < tp_threads s \<Longrightarrow> u \<noteq> t \<Longrightarrow> tp_pcs s' u = tp_pcs s u"
  shows "work_left s' < work_left s"
  unfolding work_left_def assms(1)
proof (rule sum_strict_mono_ex1)
  show "\<forall>u\<in>{..<tp_threads s}. worker_rank (tp_pcs s' u) \<le> worker_rank (tp_pcs s u)"
    using assms(3,4) by (metis lessThan_iff nat_less_le order_refl)
qed (use assms(2,3) in auto)

lemma work_left_same:
  assumes "tp_threads s' = tp_threads s" and "\<And>u. worker (tp_pcs s u) = (u < tp_threads s)"
    and "\<And>u. u < tp_threads s \<Longrightarrow> tp_pcs s' u = tp_pcs s u"
  shows "work_left s' = work_left s" and "\<not> worker_step s s'"
  using assms by (simp_all add: work_left_def worker_step_def)

lemma work_step:
  assumes "pool_step s s'" and "pool_inv s" and "workers_inv k s" and "\<not> tp_running s"
  shows "work_left s' < work_left s \<or> work_left s' = work_left s \<and> \<not> worker_step s s'"
proof -
  note i = pool_invD(3,4) [OF assms(2)]
  have w: "worker (tp_pcs s t) \<longleftrightarrow> t < tp_threads s" "tp_notEmpty s = {}" for t
    using assms(3,4) by (simp_all add: workers_inv_def)
  have less: "work_left s' < work_left s" if "worker (tp_pcs s t)" "worker_rank (tp_pcs s' t) < worker_rank (tp_pcs s t)"
      "tp_threads s' = tp_threads s" "\<And>u. worker (tp_pcs s u) \<Longrightarrow> u \<noteq> t \<Longrightarrow> tp_pcs s' u = tp_pcs s u" for t
    using that w by (intro work_left_less [of s' s t]) auto
  have same: "work_left s' = work_left s \<and> \<not> worker_step s s'"
    if "tp_threads s' = tp_threads s" "\<And>u. worker (tp_pcs s u) \<Longrightarrow> tp_pcs s' u = tp_pcs s u"
    using that w work_left_same [of s' s] by auto
  from assms(1) show ?thesis
  proof (cases rule: pool_step.cases)
    case (w_init t)
    then show ?thesis using assms(4) by (intro disjI1 less [of t]) auto
  next
    case (w_test t pc)
    then show ?thesis using assms(4) by (intro disjI1 less [of t]) auto
  next
    case (w_lock t m)
    then show ?thesis using assms(4) by (intro disjI1 less [of t]) auto
  next
    case (w_none t)
    then show ?thesis using assms(4) by (intro disjI1 less [of t]) auto
  next
    case (w_run t x)
    then show ?thesis using assms(4) by (intro disjI1 less [of t]) auto
  next
    case (w_wait t m ws)
    then show ?thesis using assms(4) by simp
  next
    case (w_spurious t)
    then show ?thesis using w(2) by simp
  next
    case (w_take t x q u ws)
    then show ?thesis using i(2)
      by (intro disjI1 less [of t]) (auto simp: pool_ops split: option.splits pool_pc.splits if_splits)
  next
    case (p_push t x u ws)
    then have "u = None" using w(2) by (auto elim: notifyE)
    with p_push show ?thesis by (intro disjI2 same) (auto simp: pool_ops)
  next
    case (p_spurious t)
    then show ?thesis by (intro disjI2 same) (auto simp: pool_ops split: pool_pc.splits)
  qed (intro disjI2 same; use w(2) in \<open>auto simp: pool_ops\<close>)+
qed

lemma stopped_step: "pool_step s s' \<Longrightarrow> \<not> tp_running s \<Longrightarrow> \<not> tp_running s'"
  by (erule pool_stepE) auto

lemma pool_runs_work:
  assumes "pool_runs s n s'" and "pool_inv s" and "workers_inv k s" and "\<not> tp_running s"
  shows "n + work_left s' \<le> work_left s \<and> pool_inv s' \<and> workers_inv k s' \<and> \<not> tp_running s'"
  using assms
proof (induction rule: pool_runs.induct)
  case (step n s1 s2)
  then have "n + work_left s1 \<le> work_left s" "pool_inv s1" "workers_inv k s1" "\<not> tp_running s1" by simp_all
  with work_step [OF step.hyps(2), of k] pool_step_inv [OF step.hyps(2)] workers_inv_step [OF step.hyps(2), of k]
    stopped_step [OF step.hyps(2)] show ?case by (auto split: if_splits)
qed simp

lemma work_left_bound:
  assumes "workers_inv k s"
  shows "work_left s \<le> 4 * k"
proof -
  have "worker_rank pc \<le> 4" for pc :: "'a pool_pc" by (cases pc) simp_all
  then have "work_left s \<le> (\<Sum>t<k. 4)" using assms unfolding work_left_def workers_inv_def by (metis (no_types, lifting) sum_mono)
  then show ?thesis by simp
qed

text \<open>A thread inside the lock can leave it; a worker that has not left can take its next step, unless
  another thread is inside the lock.\<close>

lemma notify_possible: "\<exists>u ws'. notify ws u ws'"
  by (cases "ws = {}") (auto intro: notify.intros)

lemma holder_leaves:
  assumes "in_pool (tp_pcs s t)" and "\<not> tp_running s"
  shows "\<exists>s'. pool_step s s' \<and> tp_mutex s' = None"
proof (cases "tp_pcs s t")
  case W_Body
  obtain u ws where u: "if 0 < tp_max s then notify (tp_notFull s) u ws else u = None \<and> ws = tp_notFull s"
    using notify_possible [of "tp_notFull s"] by (cases "0 < tp_max s") auto
  show ?thesis
  proof (cases "tp_queue s")
    case Nil
    show ?thesis by (intro exI conjI, rule pool_step.w_none [OF W_Body Nil assms(2)]) (simp add: mutex_unlock_def)
  next
    case (Cons x q)
    show ?thesis by (intro exI conjI, rule pool_step.w_take [OF W_Body Cons u]) (simp add: mutex_unlock_def)
  qed
next
  case (P_Body x)
  obtain u ws where u: "notify (tp_notEmpty s) u ws" using notify_possible [of "tp_notEmpty s"] by auto
  show ?thesis
  proof (cases "isFull (tp_max s) (tp_queue s)")
    case True
    show ?thesis by (intro exI conjI, rule pool_step.p_wait [OF P_Body True prod.collapse [symmetric]])
        (simp add: cond_wait_def mutex_unlock_def)
  next
    case False
    show ?thesis by (intro exI conjI, rule pool_step.p_push [OF P_Body False u]) (simp add: mutex_unlock_def)
  qed
qed (use assms(1) in simp_all)

lemma stopped_progress:
  assumes "pool_inv s" and "workers_inv k s" and "\<not> tp_running s" and "t < k" and "tp_pcs s t \<noteq> W_Exit"
  shows "\<exists>s'. worker_step s s' \<or> pool_step s s' \<and> tp_mutex s \<noteq> None \<and> tp_mutex s' = None"
proof (cases "tp_mutex s")
  case (Some h)
  then show ?thesis using holder_leaves [of s h] pool_invD(2) [OF assms(1)] assms(3) by force
next
  case None
  have w: "worker (tp_pcs s t)" "tp_pcs s t \<noteq> W_Wait"
    using assms(2-4) pool_invD(3) [OF assms(1), of t] by (simp_all add: workers_inv_def)
  have free: "\<not> in_pool (tp_pcs s t)" using None pool_invD(2) [OF assms(1)] by simp
  have moves: "\<exists>s'. worker_step s s'" if "pool_step s s'" "tp_pcs s' t \<noteq> tp_pcs s t" for s'
    using that w(1) by (auto simp: worker_step_def)
  have "\<exists>s'. worker_step s s'"
  proof (cases "tp_pcs s t")
    case W_Init
    then show ?thesis by (intro moves [OF pool_step.w_init]) simp_all
  next
    case W_Test
    then show ?thesis by (intro moves [OF pool_step.w_test [OF _ refl]]) (use assms(3) in simp_all)
  next
    case W_Lock
    then show ?thesis by (intro moves [OF pool_step.w_lock]) (simp_all add: None)
  next
    case (W_Task x)
    then show ?thesis by (intro moves [OF pool_step.w_run]) simp_all
  qed (use w free assms(5) in simp_all)
  then show ?thesis by blast
qed

section \<open>Properties\<close>


text \<open>A pool with one worker and a queue of one: task 5 is queued, the caller with task 6 waits, the
  pool was stopped and the worker left.\<close>

definition stopped_pool :: "nat pool_state" where
  "stopped_pool = \<lparr>tp_mutex = None, tp_notEmpty = {}, tp_notFull = {2}, tp_queue = [5], tp_threads = 1, tp_max = 1, tp_running = False,
     tp_pcs = (\<lambda>_. Idle)(0 := W_Exit, 2 := P_Wait 6), submitted = [5], taken = [], ran_tasks = []\<rparr>"

lemma stopped_pool_reached: "pool_reaches (started_pool 1 1) stopped_pool"
proof -
  define st where "st ne q run f sub = \<lparr>tp_mutex = None, tp_notEmpty = {}, tp_notFull = ne, tp_queue = q, tp_threads = 1,
      tp_max = 1, tp_running = run, tp_pcs = f, submitted = sub, taken = [], ran_tasks = []\<rparr>"
    for ne :: condition and q :: "nat list" and run f sub
  have s0: "started_pool 1 1 = st {} [] True ((\<lambda>_. Idle)(0 := W_Init)) []"
    by (auto simp: st_def started_pool_def new_MutexLock_def new_Condition_def fun_eq_iff)
  note r = pool_reaches.start [of "started_pool 1 1 :: nat pool_state"]
  note r = pool_reaches.step [OF r pool_step.p_call [of _ 1 5]]
  note r = pool_reaches.step [OF r pool_step.p_lock [of _ 1 5 "Some 1"]]
  note r = pool_reaches.step [OF r pool_step.p_push [of _ 1 5 None "{}"]]
  from r have r: "pool_reaches (started_pool 1 1) (st {} [5] True ((\<lambda>_. Idle)(0 := W_Init)) [5])"
    unfolding s0 by (simp add: st_def pool_ops isFull_def notify.nobody fun_upd_idem)
  note r = pool_reaches.step [OF r pool_step.p_call [of _ 2 6]]
  note r = pool_reaches.step [OF r pool_step.p_lock [of _ 2 6 "Some 2"]]
  note r = pool_reaches.step [OF r pool_step.p_wait [of _ 2 6 None "{2}"]]
  then have r: "pool_reaches (started_pool 1 1) (st {2} [5] True ((\<lambda>_. Idle)(0 := W_Init, 2 := P_Wait 6)) [5])"
    by (simp add: st_def pool_ops isFull_def)
  note r = pool_reaches.step [OF r pool_step.stop [of _ "{}" "{}"]]
  note r = pool_reaches.step [OF r pool_step.w_init [of _ 0]]
  note r = pool_reaches.step [OF r pool_step.w_test [of _ 0 W_Exit]]
  moreover have "(\<lambda>t :: nat. if t = 0 then W_Init else ((\<lambda>_. Idle)(2 := P_Wait 6)) t)(0 := W_Exit) =
      (\<lambda>_. Idle :: nat pool_pc)(2 := P_Wait 6, 0 := W_Exit)" by (simp add: fun_eq_iff)
  ultimately show ?thesis by (simp add: st_def stopped_pool_def pool_ops fun_upd_twist [of 0 2])
qed




text \<open>C14. The workers of a stopped pool terminate, so that the joins of \<^verbatim>\<open>stop\<close> return: from the moment
  \<^verbatim>\<open>M_running\<close> is false, in every execution the workers take at most four steps each, whatever the
  callers of \<^verbatim>\<open>run\<close> do; and until all of them have left, a worker can take its next step or the
  thread that holds the mutex can release it.\<close>

theorem stopped_pool_terminates:
  assumes "pool_reaches (started_pool maxQueueSize numThreads) s" and "\<not> tp_running s" and "pool_runs s n s'"
  shows "n \<le> 4 * numThreads \<and>
    ((\<forall>t < numThreads. tp_pcs s' t = W_Exit) \<or>
     (\<exists>s''. worker_step s' s'' \<or> pool_step s' s'' \<and> tp_mutex s' \<noteq> None \<and> tp_mutex s'' = None))"
proof -
  have inv: "pool_inv s" "workers_inv numThreads s"
    using pool_reaches_inv [OF assms(1) started_pool_inv] workers_inv_reaches [OF assms(1) started_pool_inv workers_inv_started] by auto
  note e = pool_runs_work [OF assms(3) inv assms(2)]
  from e work_left_bound [OF inv(2)] have "n \<le> 4 * numThreads" by linarith
  with e show ?thesis using stopped_progress [of s' numThreads] by blast
qed

text \<open>A pool of one worker that is stopped right away: the worker leaves after two steps.\<close>

theorem stopped_pool_terminates_witness:
  "\<exists>s s'. pool_reaches (started_pool 0 1 :: nat pool_state) s \<and> \<not> tp_running s \<and> pool_runs s 2 s' \<and> tp_pcs s' 0 = W_Exit \<and> (2::nat) \<le> 4"
proof -
  define st where "st run pc = (started_pool 0 1)\<lparr>tp_running := run, tp_pcs := (\<lambda>_. Idle)(0 := pc)\<rparr>"
    for run and pc :: "nat pool_pc"
  have s0: "started_pool 0 1 = st True W_Init" by (simp add: st_def started_pool_def fun_eq_iff)
  have st: "tp_mutex (st run pc) = None" "tp_notEmpty (st run pc) = {}" "tp_running (st run pc) = run" "tp_pcs (st run pc) 0 = pc"
    for run pc by (simp_all add: st_def started_pool_def new_MutexLock_def new_Condition_def)
  have "pool_step (st True W_Init) (st False W_Init)"
    using pool_step.stop [of "st True W_Init" "{}" "{}"] st
    by (simp add: notifyAll_def) (simp add: st_def started_pool_def new_Condition_def)
  then have r: "pool_reaches (started_pool 0 1) (st False W_Init)" unfolding s0 by (rule pool_reaches.step [OF pool_reaches.start])
  have p: "pool_step (st False W_Init) (st False W_Test)" "pool_step (st False W_Test) (st False W_Exit)"
    using pool_step.w_init [of "st False W_Init" 0] pool_step.w_test [of "st False W_Test" 0 W_Exit]
    by (simp_all add: st_def)
  then have w: "worker_step (st False W_Init) (st False W_Test)" "worker_step (st False W_Test) (st False W_Exit)"
    unfolding worker_step_def by (auto intro!: exI [of _ 0] simp: st)
  have n: "pool_runs (st False W_Init) 2 (st False W_Exit)"
    using pool_runs.step [OF pool_runs.step [OF pool_runs.start p(1)] p(2)] w by (simp add: numeral_2_eq_2)
  from stopped_pool_terminates [OF r _ n] have "(2::nat) \<le> 4 * 1" by (simp add: st)
  with r n show ?thesis by (intro exI [of _ "st False W_Init"] exI [of _ "st False W_Exit"]) (simp add: st)
qed

end
