(* ===== verification/EventLoopThread.thy ===== *)
theory EventLoopThread
  imports Monitor Thread
begin

text \<open>
  The class \<^verbatim>\<open>EventLoopThread\<close> (include/EventLoopThread.h, src/EventLoopThread.cpp): the thread that
  calls \<^verbatim>\<open>startLoop\<close> (number 0) and the thread that runs \<^verbatim>\<open>threadFunc\<close> (number 1), under all
  interleavings. A step is one lock, one stretch between lock and unlock or wait, one wakeup or
  one access to \<^verbatim>\<open>M_loop\<close> outside the lock.

  \<^item> \<open>loop_addr\<close> is the address of the loop on the stack of \<^verbatim>\<open>threadFunc\<close>.
  \<^item> \<^verbatim>\<open>while(loop == NULL)\<close> is read as a test of \<open>M_loop\<close>, \<^verbatim>\<open>loop.lop()\<close> as the call of \<^verbatim>\<open>loop\<close>.
\<close>

datatype caller_pc =
    C_Start                    \<comment> \<open>at the start of startLoop\<close>
  | C_Lock                     \<comment> \<open>at the lock or woken up\<close>
  | C_Body                     \<comment> \<open>at the while\<close>
  | C_Wait                     \<comment> \<open>in M_cond.wait()\<close>
  | C_Return                   \<comment> \<open>at return M_loop, the lock released\<close>
  | C_Returned "nat option"

datatype func_pc =
    F_None                     \<comment> \<open>the thread does not exist\<close>
  | F_Init                     \<comment> \<open>the loop is constructed, the callback runs\<close>
  | F_Lock
  | F_Body
  | F_Loop                     \<comment> \<open>in loop.loop()\<close>
  | F_End                      \<comment> \<open>after it\<close>
  | F_Done

record event_loop_thread =
  M_loopPtr :: "nat option"
  M_exiting :: bool
  elt_mutex :: mutex
  elt_cond :: condition
  caller :: caller_pc
  func :: func_pc

definition new_EventLoopThread :: event_loop_thread where
  "new_EventLoopThread = \<lparr>M_loopPtr = None, M_exiting = False, elt_mutex = new_MutexLock,
     elt_cond = new_Condition, caller = C_Start, func = F_None\<rparr>"

text \<open>The destructor: the calls it makes.\<close>

datatype elt_call = QuitLoop nat | JoinThread

definition delete_EventLoopThread :: "event_loop_thread \<Rightarrow> event_loop_thread \<times> elt_call list" where
  "delete_EventLoopThread s =
     (let s = s\<lparr>M_exiting := True\<rparr> in
      (s, case M_loopPtr s of None \<Rightarrow> [] | Some l \<Rightarrow> [QuitLoop l, JoinThread]))"

inductive elt_step :: "nat \<Rightarrow> event_loop_thread \<Rightarrow> event_loop_thread \<Rightarrow> bool" for loop_addr where
  start_thread: "caller s = C_Start \<Longrightarrow> func s = F_None \<Longrightarrow>
    elt_step loop_addr s (s\<lparr>caller := C_Lock, func := F_Init\<rparr>)"
| caller_lock: "caller s = C_Lock \<Longrightarrow> mutex_lock 0 (elt_mutex s) = Some m \<Longrightarrow>
    elt_step loop_addr s (s\<lparr>elt_mutex := m, caller := C_Body\<rparr>)"
| caller_wait: "caller s = C_Body \<Longrightarrow> M_loopPtr s = None \<Longrightarrow> cond_wait 0 (elt_mutex s, elt_cond s) = (m, ws) \<Longrightarrow>
    elt_step loop_addr s (s\<lparr>elt_mutex := m, elt_cond := ws, caller := C_Wait\<rparr>)"
| caller_leave: "caller s = C_Body \<Longrightarrow> M_loopPtr s \<noteq> None \<Longrightarrow>
    elt_step loop_addr s (s\<lparr>elt_mutex := mutex_unlock (elt_mutex s), caller := C_Return\<rparr>)"
| caller_return: "caller s = C_Return \<Longrightarrow> elt_step loop_addr s (s\<lparr>caller := C_Returned (M_loopPtr s)\<rparr>)"
| caller_spurious: "caller s = C_Wait \<Longrightarrow>
    elt_step loop_addr s (s\<lparr>elt_cond := elt_cond s - {0}, caller := C_Lock\<rparr>)"
| func_callback: "func s = F_Init \<Longrightarrow> elt_step loop_addr s (s\<lparr>func := F_Lock\<rparr>)"
| func_lock: "func s = F_Lock \<Longrightarrow> mutex_lock 1 (elt_mutex s) = Some m \<Longrightarrow>
    elt_step loop_addr s (s\<lparr>elt_mutex := m, func := F_Body\<rparr>)"
| func_publish: "func s = F_Body \<Longrightarrow> notify (elt_cond s) u ws \<Longrightarrow>
    elt_step loop_addr s (s\<lparr>M_loopPtr := Some loop_addr, elt_mutex := mutex_unlock (elt_mutex s), elt_cond := ws,
      caller := (if u = Some 0 then C_Lock else caller s), func := F_Loop\<rparr>)"
| func_loop_ends: "func s = F_Loop \<Longrightarrow> elt_step loop_addr s (s\<lparr>func := F_End\<rparr>)"
| func_clear: "func s = F_End \<Longrightarrow> elt_step loop_addr s (s\<lparr>M_loopPtr := None, func := F_Done\<rparr>)"

inductive elt_reachable :: "nat \<Rightarrow> event_loop_thread \<Rightarrow> bool" for loop_addr where
  init: "elt_reachable loop_addr new_EventLoopThread"
| step: "elt_reachable loop_addr s \<Longrightarrow> elt_step loop_addr s s' \<Longrightarrow> elt_reachable loop_addr s'"

section \<open>The invariant\<close>

definition elt_inv :: "nat \<Rightarrow> event_loop_thread \<Rightarrow> bool" where
  "elt_inv loop_addr s \<longleftrightarrow>
     M_loopPtr s = (if func s \<in> {F_Loop, F_End} then Some loop_addr else None) \<and>
     elt_cond s = (if caller s = C_Wait then {0} else {}) \<and>
     (caller s = C_Body \<longleftrightarrow> elt_mutex s = Some 0) \<and> (func s = F_Body \<longleftrightarrow> elt_mutex s = Some 1) \<and>
     elt_mutex s \<in> {None, Some 0, Some 1} \<and>
     (caller s = C_Wait \<longrightarrow> func s \<notin> {F_None, F_Loop, F_End}) \<and>
     (caller s = C_Return \<longrightarrow> func s \<in> {F_Loop, F_End, F_Done}) \<and>
     (\<forall>l. caller s = C_Returned l \<longrightarrow> func s \<in> {F_Loop, F_End, F_Done} \<and> l \<in> {None, Some loop_addr} \<and>
        (l = None \<longrightarrow> func s = F_Done)) \<and>
     (caller s = C_Start \<longleftrightarrow> func s = F_None)"

lemmas elt_ops = mutex_unlock_def cond_wait_def

lemma elt_step_inv: "elt_step a s s' \<Longrightarrow> elt_inv a s \<Longrightarrow> elt_inv a s'"
proof (induction rule: elt_step.induct)
  case (func_publish s u ws)
  from func_publish(2) consider "elt_cond s = {}" "u = None" "ws = {}"
    | v where "v \<in> elt_cond s" "u = Some v" "ws = elt_cond s - {v}" by (auto elim: notifyE)
  then show ?case
    using func_publish(1,3) by cases (auto simp: elt_inv_def elt_ops split: if_splits)
qed (auto simp: elt_inv_def elt_ops split: if_splits)

lemma elt_reachable_inv: "elt_reachable a s \<Longrightarrow> elt_inv a s"
proof (induction rule: elt_reachable.induct)
  case init
  then show ?case by (simp add: elt_inv_def new_EventLoopThread_def new_MutexLock_def new_Condition_def)
next
  case (step s s')
  then show ?case using elt_step_inv by blast
qed

section \<open>Properties\<close>

text \<open>C35. The handshake of \<^verbatim>\<open>startLoop\<close> and \<^verbatim>\<open>threadFunc\<close>, under every interleaving: while the new thread
  runs its loop the caller does not wait for the loop, and what \<^verbatim>\<open>startLoop\<close> has returned is that
  loop. Only a loop that has already ended can make it return NULL.\<close>

theorem startLoop_handshake:
  assumes "elt_reachable loop_addr s"
  shows "(func s = F_Loop \<longrightarrow> caller s \<noteq> C_Wait \<and> M_loopPtr s = Some loop_addr) \<and>
    (\<forall>l. caller s = C_Returned l \<longrightarrow> l = Some loop_addr \<or> l = None \<and> func s = F_Done)"
  using elt_reachable_inv [OF assms] by (auto simp: elt_inv_def)

definition elt_sample :: event_loop_thread where
  "elt_sample = \<lparr>M_loopPtr = Some 77, M_exiting = False, elt_mutex = None, elt_cond = {},
     caller = C_Returned (Some 77), func = F_Loop\<rparr>"

lemma elt_sample_reachable: "elt_reachable 77 elt_sample"
proof -
  note r = elt_reachable.init [of 77]
  note r = elt_reachable.step [OF r elt_step.start_thread]
  note r = elt_reachable.step [OF r elt_step.caller_lock [of _ "Some 0"]]
  note r = elt_reachable.step [OF r elt_step.caller_wait [of _ None "{0}"]]
  note r = elt_reachable.step [OF r elt_step.func_callback]
  note r = elt_reachable.step [OF r elt_step.func_lock [of _ "Some 1"]]
  note r = elt_reachable.step [OF r elt_step.func_publish [of _ "Some 0" "{}"]]
  note r = elt_reachable.step [OF r elt_step.caller_lock [of _ "Some 0"]]
  note r = elt_reachable.step [OF r elt_step.caller_leave]
  note r = elt_reachable.step [OF r elt_step.caller_return]
  have "notify {0} (Some 0) {}" using notify.somebody [of 0 "{0}"] by simp
  with r show ?thesis
    by (simp add: elt_sample_def new_EventLoopThread_def new_MutexLock_def new_Condition_def elt_ops)
qed

theorem startLoop_handshake_witness:
  "func elt_sample = F_Loop \<and> caller elt_sample \<noteq> C_Wait \<and> M_loopPtr elt_sample = Some 77"
  using startLoop_handshake [OF elt_sample_reachable] by (simp add: elt_sample_def)

text \<open>A loop that ends at once: \<^verbatim>\<open>startLoop\<close> returns NULL.\<close>

lemma startLoop_may_return_null:
  "\<exists>s. elt_reachable a s \<and> caller s = C_Returned None"
proof -
  note r = elt_reachable.init [of a]
  note r = elt_reachable.step [OF r elt_step.start_thread]
  note r = elt_reachable.step [OF r elt_step.func_callback]
  note r = elt_reachable.step [OF r elt_step.func_lock [of _ "Some 1"]]
  note r = elt_reachable.step [OF r elt_step.func_publish [of _ None "{}"]]
  note r = elt_reachable.step [OF r elt_step.caller_lock [of _ "Some 0"]]
  note r = elt_reachable.step [OF r elt_step.caller_leave]
  note r = elt_reachable.step [OF r elt_step.func_loop_ends]
  note r = elt_reachable.step [OF r elt_step.func_clear]
  note r = elt_reachable.step [OF r elt_step.caller_return]
  show ?thesis
    by (rule exI, rule conjI, rule r)
      (simp_all add: new_EventLoopThread_def new_MutexLock_def new_Condition_def elt_ops notify.nobody)
qed

end
