(* ===== verification/Spec2Isabelle.thy ===== *)
theory Spec2Isabelle
  imports LoopThreads TcpServer TcpClient BlockingQueue ThreadPool EventLoopThreadPool EventLoopThread
begin

text \<open>
  A verification of muduo_mock, a C++ network library in the reactor style: event loops, one per
  thread, wait for events on descriptors and call back TCP servers, clients and connections.

  \<^bold>\<open>Parts and theories.\<close> Each theory opens with the files it models.

  \<^item> \<open>Prelude\<close>, \<open>Format\<close>: errors as values (\<open>fault\<close>, \<open>'a res\<close>: failed assertions, aborts, exceptions,
    dangling pointers), machine integers, decimal texts and \<^verbatim>\<open>snprintf\<close>.
  \<^item> \<open>Endian\<close>, \<open>Buffer\<close>: include/Endian.h, Buffer.h. A buffer is its vector and two indices. Sequences of
    calls refine a queue of bytes (locale \<open>byte_queue\<close>); round trips of integers; searching; \<^verbatim>\<open>readFd\<close>.
  \<^item> \<open>Date\<close>, \<open>Timestamp\<close>: Julian day numbers and their inverse; times as microseconds, with the rounding
    of \<^verbatim>\<open>double\<close>.
  \<^item> \<open>Channel\<close>, \<open>Poller\<close>, \<open>EPollPoller\<close>, \<open>PollPoller\<close>, \<open>DefaultPoller\<close>: channels live in a heap; a poller
    maps descriptors to them. The locale \<open>poller\<close> is the contract of a poller, interpreted by both
    and by their virtual dispatch; for epoll the interest list of the kernel is what the channels asked for.
  \<^item> \<open>TimerQueue\<close>, \<open>EventLoop\<close>: timers and the loop of one thread as functions on its state, with user
    callbacks as small programs. \<open>LoopThreads\<close>: the same loop with other threads, as interleaved steps:
    no wakeup is lost, functions run in the order in which they were queued.
  \<^item> \<open>InetAddress\<close>, \<open>Sockets\<close>: addresses as bytes of memory, texts as \<^verbatim>\<open>StringArg\<close> passes them; descriptors as a table, system calls as a log.
  \<^item> \<open>Callbacks\<close>, \<open>TcpConnection\<close>: a connection in its loop. Its owner, as it sees it, is the locale
    \<open>connection_owner\<close>; the life of a connection is proved in it and holds for servers and clients, which
    interpret it.
  \<^item> \<open>Acceptor\<close>, \<open>TcpServer\<close>, \<open>Connector\<close>, \<open>TcpClient\<close>: both ends on top of it.
  \<^item> \<open>Thread\<close>, \<open>Monitor\<close>, \<open>BlockingQueue\<close>, \<open>ThreadPool\<close>, \<open>EventLoopThread\<close>, \<open>EventLoopThreadPool\<close>: threads,
    locks and conditions with all interleavings as step relations, invariants by rule induction.
  \<^item> This theory: what spans several components. A client connects: client, connector, connection and
    loop. A server accepts: acceptor, server, pool of loops, connection, and the two threads between
    which it is handed over.

  \<^bold>\<open>How the code is read.\<close> Definitions keep the names of the source, with a prefix where two classes share
  one. A member function is a function on the record of its object and the state it reaches through
  pointers; \<^verbatim>\<open>assert\<close> is \<open>assertr\<close>; \<^verbatim>\<open>LOG_FATAL\<close> and \<^verbatim>\<open>abort\<close> are \<open>Fatal\<close>; other log lines are left out. What
  the kernel answers and what a user's callback does are arguments, with the documented behaviour as
  named hypotheses (\<open>epoll_documented\<close>, \<open>write_bounded\<close>, \<open>lib6_documented\<close>, \<open>alloc_ok\<close>) that samples satisfy.

  Some lines of the repository do not compile. They are read as the nearest text that does: \<^verbatim>\<open>=\<close> for \<^verbatim>\<open>==\<close>
  in \<^verbatim>\<open>isNoneEvent\<close> and \<^verbatim>\<open>forceClose\<close>; misspelt members (\<^verbatim>\<open>M_loop\<close> for \<^verbatim>\<open>M_looping\<close> in \<^verbatim>\<open>EventLoop::loop\<close>, \<^verbatim>\<open>M_start\<close>
  in \<^verbatim>\<open>Thread::start\<close>, \<^verbatim>\<open>M_connected\<close> for \<^verbatim>\<open>M_connect\<close> in \<^verbatim>\<open>Connector::restart\<close>, \<^verbatim>\<open>loop\<close> for \<^verbatim>\<open>M_loop\<close> in
  \<^verbatim>\<open>EventLoopThread::startLoop\<close>, the local list in \<^verbatim>\<open>fillActiveChannels\<close>); \<^verbatim>\<open>runAfter\<close> passes \<^verbatim>\<open>delay\<close> and the
  interval 0; \<^verbatim>\<open>retrieveAsString()\<close> retrieves everything; an unnamed lock guard is a named one; \<^verbatim>\<open>Condition\<close>
  refers to the mutex it is given; \<^verbatim>\<open>sockets::write\<close> has the type of its header. Where the text compiles and
  does something else than it means to, the model does what the text says.

  \<^bold>\<open>Bounds.\<close> Sizes and indices of buffers, iteration counts and interest sets are words of the width of
  the source; \<^verbatim>\<open>int\<close> counters whose overflow is undefined fail when they reach 2147483647. The while loop of
  \<^verbatim>\<open>loop\<close> takes the list of what the polls return: it ends when the program quits and waits in the poll
  when the list is used up, so that no bound is put on its length. Every other function is total.

  \<^bold>\<open>Not modelled.\<close> The functions that the repository declares but does not define
  (\<^verbatim>\<open>TcpConnection::connectDestroyed\<close>, \<^verbatim>\<open>sockets::isSelfConnect\<close>, \<^verbatim>\<open>Socket::getTcpInfo\<close>) are arguments or left
  out; the logging macros and \<^verbatim>\<open>makeWeakCallback\<close> come from files that are not in it; \<^verbatim>\<open>Types.h\<close> holds casts,
  which the model writes out where a number changes its type; the destructor of \<^verbatim>\<open>MutexLock\<close> and the signal disposition set
  by \<^verbatim>\<open>IgnoreSigPipe\<close> have no effect on the state here. Data races on unprotected members other than the
  modelled ones are not considered.
\<close>

section \<open>A client connects\<close>

text \<open>A client with nothing registered in its loop, and the sample connection's environment.\<close>

definition sample_user_env :: "(nat, nat client_state) conn_env" where
  "sample_user_env = \<lparr>ctl = kernel_ctl, sys_write = \<lambda>_ d. Inr (length d), sys_readv = \<lambda>_ _. Inr [],
     cb_body = \<lambda>_ _. defaultConnectionCallback, close_body = \<lambda>_. Inr\<rparr>"

definition sample_new_answers :: client_answers where
  "sample_new_answers = \<lparr>ans_peername = None, ans_localname = None, ans_clientConn = 50, ans_clientChan = 4\<rparr>"

definition sample_connecting_env :: "(nat, nat client_state) con_env" where
  "sample_connecting_env = sample_client_env\<lparr>con_callback :=
     \<lambda>_. client_newConnection sample_lib LittleEndian sample_user_env sample_new_answers 1 6\<rparr>"



section \<open>A server accepts\<close>

lemma queued_from_outside:
  "\<not> isInLoopThread t l \<Longrightarrow> 0 < eventfd (queueInLoop t f l)"
  by (simp add: queueInLoop_def push_functor_def wakeup_def isInLoopThread_def Let_def)

text \<open>A server with one thread that is asked for its first connection.\<close>

definition sample_accepting :: "(nat, nat server_world) acc_world" where
  "sample_accepting = \<lparr>a_heap = Map.empty, a_loop = idle_loop 1 1,
     a_acc = \<lparr>M_acceptorSelf = 30, M_acceptSocket = 9, M_acceptChannel = 3, M_newConnectionCallback = Some 5,
       M_listenning = True, M_idleFd = 10\<rparr>, a_fds = sample_fds, a_syscalls = [], a_rest = sample_server_world\<rparr>"

definition sample_io_env :: "(nat, nat server_world) conn_env" where
  "sample_io_env = \<lparr>ctl = kernel_ctl, sys_write = \<lambda>_ d. Inr (length d), sys_readv = \<lambda>_ _. Inr [],
     cb_body = \<lambda>_ _. defaultConnectionCallback, close_body = \<lambda>_. removeConnection 2\<rparr>"



end
